(* ===== verification/Prelude.thy ===== *)
theory Prelude
  imports "HOL-Library.Word" "HOL-Library.Multiset"
begin

text \<open>
  What every component of the model shares: the machine integers of the Rust sources, the outcome
  of a fallible function, big-endian reads and writes (the \<open>omnom\<close> calls \<open>read_be\<close> and
  \<open>write_be\<close>), byte literals, and the generic lemmas on lists and words.
\<close>

unbundle bit_operations_syntax

named_theorems outcome_simps \<open>the equations of the outcome combinators\<close>
named_theorems wire_simps \<open>lengths and positions in the wire formats\<close>

section \<open>Machine integers and bytes\<close>

type_synonym u8 = "8 word"
type_synonym u16 = "16 word"
type_synonym u32 = "32 word"
type_synonym u64 = "64 word"
type_synonym bytes = "u8 list"

text \<open>A byte string literal \<open>b"..."\<close> of the source.\<close>

definition bstr :: "string \<Rightarrow> bytes" where
  "bstr s = map (\<lambda>c. of_nat (of_char c)) s"

lemma length_bstr [simp]: "length (bstr s) = length s"
  by (simp add: bstr_def)

lemma bstr_Nil [simp]: "bstr [] = []"
  by (simp add: bstr_def)

lemma bstr_Cons: "bstr (c # s) = of_nat (of_char c) # bstr s"
  by (simp add: bstr_def)

section \<open>Outcomes of fallible functions\<close>

text \<open>
  \<open>Ok\<close> and \<open>Err\<close> are Rust's \<open>Result\<close>; \<open>Panic\<close> is a function that does not return because an
  index, a slice or an \<open>unwrap\<close> fails.
\<close>

datatype ('e, 'a) outcome = Ok 'a | Err 'e | Panic

fun bind_out :: "('e, 'a) outcome \<Rightarrow> ('a \<Rightarrow> ('e, 'b) outcome) \<Rightarrow> ('e, 'b) outcome" where
  "bind_out (Ok x) f = f x"
| "bind_out (Err e) f = Err e"
| "bind_out Panic f = Panic"

fun map_err :: "('e \<Rightarrow> 'f) \<Rightarrow> ('e, 'a) outcome \<Rightarrow> ('f, 'a) outcome" where
  "map_err g (Ok x) = Ok x"
| "map_err g (Err e) = Err (g e)"
| "map_err g Panic = Panic"

text \<open>\<open>ok_or\<close> turns a missing value into an error, \<open>unwrap\<close> turns it into a panic.\<close>

fun ok_or :: "'e \<Rightarrow> 'a option \<Rightarrow> ('e, 'a) outcome" where
  "ok_or e (Some x) = Ok x"
| "ok_or e None = Err e"

fun unwrap :: "'a option \<Rightarrow> ('e, 'a) outcome" where
  "unwrap (Some x) = Ok x"
| "unwrap None = Panic"

text \<open>Indexing and slicing, which panic out of range.\<close>

definition index :: "'a list \<Rightarrow> nat \<Rightarrow> ('e, 'a) outcome" where
  "index xs i = (if i < length xs then Ok (xs ! i) else Panic)"

definition slice :: "'a list \<Rightarrow> nat \<Rightarrow> nat \<Rightarrow> ('e, 'a list) outcome" where
  "slice xs i j = (if i \<le> j \<and> j \<le> length xs then Ok (take (j - i) (drop i xs)) else Panic)"

lemmas [outcome_simps] =
  bind_out.simps map_err.simps ok_or.simps unwrap.simps index_def slice_def

lemma bind_out_eq_Ok_iff:
  "bind_out m f = Ok y \<longleftrightarrow> (\<exists>x. m = Ok x \<and> f x = Ok y)"
  by (cases m) auto

lemma bind_out_eq_Panic_iff:
  "bind_out m f = Panic \<longleftrightarrow> m = Panic \<or> (\<exists>x. m = Ok x \<and> f x = Panic)"
  by (cases m) auto

lemma bind_out_assoc:
  "bind_out (bind_out m f) g = bind_out m (\<lambda>x. bind_out (f x) g)"
  by (cases m) simp_all

lemma ok_or_not_Panic [simp]: "ok_or e x \<noteq> Panic"
  by (cases x) auto

section \<open>Big-endian integers\<close>

text \<open>
  \<open>be_bytes n v\<close> is the low \<open>n\<close> bytes of \<open>v\<close>, most significant first; \<open>be_val\<close> reads a byte
  list back.
\<close>

fun be_bytes :: "nat \<Rightarrow> nat \<Rightarrow> bytes" where
  "be_bytes 0 v = []"
| "be_bytes (Suc n) v = be_bytes n (v div 256) @ [of_nat v]"

definition be_val :: "bytes \<Rightarrow> nat" where
  "be_val bs = foldl (\<lambda>a b. a * 256 + unat b) 0 bs"

lemma length_be_bytes [simp, wire_simps]: "length (be_bytes n v) = n"
  by (induction n arbitrary: v) auto

lemma be_val_Nil [simp]: "be_val [] = 0"
  by (simp add: be_val_def)

lemma be_val_snoc: "be_val (bs @ [b]) = be_val bs * 256 + unat b"
  by (simp add: be_val_def)

lemma unat_of_nat_u8: "unat (of_nat v :: u8) = v mod 256"
  by (simp add: unat_of_nat)

lemma u8_bound: "unat (x :: u8) < 256"
  and u16_bound: "unat (y :: u16) < 65536"
  and u32_bound: "unat (z :: u32) < 4294967296"
  and u64_bound: "unat (w :: u64) < 18446744073709551616"
  by (rule order.strict_trans2 [OF unsigned_less], simp)+

lemma be_val_be_bytes: "v < 256 ^ n \<Longrightarrow> be_val (be_bytes n v) = v"
proof (induction n arbitrary: v)
  case (Suc n)
  have "v div 256 < 256 ^ n"
    using Suc.prems by (simp add: less_mult_imp_div_less mult.commute)
  with Suc.IH show ?case
    by (simp add: be_val_snoc unat_of_nat_u8)
qed simp

lemma be_val_bound: "be_val bs < 256 ^ length bs"
proof (induction bs rule: rev_induct)
  case (snoc b bs)
  from snoc have "Suc (be_val bs) * 256 \<le> 256 ^ length bs * 256"
    by (intro mult_le_mono1) simp
  with u8_bound [of b] show ?case
    by (simp add: be_val_snoc)
qed simp

lemma be_bytes_be_val: "be_bytes (length bs) (be_val bs) = bs"
proof (induction bs rule: rev_induct)
  case (snoc b bs)
  have "(be_val bs * 256 + unat b) div 256 = be_val bs"
    using u8_bound [of b] by simp
  moreover have "(of_nat (be_val bs * 256 + unat b) :: u8) = b"
  proof -
    have "(of_nat (be_val bs * 256) :: u8) = 0"
      by (metis mod_mult_self2_is_0 of_nat_0 unat_of_nat_u8 unat_eq_zero)
    then show ?thesis by simp
  qed
  ultimately show ?case
    using snoc by (simp add: be_val_snoc)
qed simp

text \<open>\<open>write_be\<close> at the widths the code uses.\<close>

definition write_be16 :: "u16 \<Rightarrow> bytes" where
  "write_be16 x = be_bytes 2 (unat x)"

definition write_be32 :: "u32 \<Rightarrow> bytes" where
  "write_be32 x = be_bytes 4 (unat x)"

definition write_be64 :: "u64 \<Rightarrow> bytes" where
  "write_be64 x = be_bytes 8 (unat x)"

text \<open>
  \<open>read_be\<close> takes the first bytes of a slice and fails (an \<open>io::Error\<close>) when there are too few.
\<close>

definition read_be16 :: "bytes \<Rightarrow> u16 option" where
  "read_be16 bs = (if length bs < 2 then None else Some (of_nat (be_val (take 2 bs))))"

definition read_be32 :: "bytes \<Rightarrow> u32 option" where
  "read_be32 bs = (if length bs < 4 then None else Some (of_nat (be_val (take 4 bs))))"

definition read_be64 :: "bytes \<Rightarrow> u64 option" where
  "read_be64 bs = (if length bs < 8 then None else Some (of_nat (be_val (take 8 bs))))"

lemma length_write_be [simp, wire_simps]:
  "length (write_be16 x) = 2" "length (write_be32 y) = 4" "length (write_be64 z) = 8"
  by (simp_all add: write_be16_def write_be32_def write_be64_def)

lemma be_val_write_be [simp]:
  "be_val (write_be16 x) = unat x" "be_val (write_be32 y) = unat y"
  "be_val (write_be64 z) = unat z"
  using u16_bound [of x] u32_bound [of y] u64_bound [of z]
  by (simp_all add: write_be16_def write_be32_def write_be64_def be_val_be_bytes)

lemma read_write_be16 [simp]: "read_be16 (write_be16 x @ rest) = Some x"
  by (simp add: read_be16_def)

lemma read_write_be32 [simp]: "read_be32 (write_be32 x @ rest) = Some x"
  by (simp add: read_be32_def)

lemma read_write_be64 [simp]: "read_be64 (write_be64 x @ rest) = Some x"
  by (simp add: read_be64_def)

lemma write_be16_of_val:
  assumes "length bs = 2" shows "write_be16 (of_nat (be_val bs)) = bs"
  using be_val_bound [of bs] be_bytes_be_val [of bs] assms
  by (simp add: write_be16_def unat_of_nat)

text \<open>Reading a sequence of integers, one every \<open>w\<close> bytes.\<close>

fun read_seq :: "nat \<Rightarrow> (bytes \<Rightarrow> 'a) \<Rightarrow> nat \<Rightarrow> bytes \<Rightarrow> 'a list" where
  "read_seq w rd 0 bs = []"
| "read_seq w rd (Suc n) bs = rd bs # read_seq w rd n (drop w bs)"

lemma length_read_seq [simp]: "length (read_seq w rd n bs) = n"
  by (induction n arbitrary: bs) auto

lemma read_seq_concat:
  assumes "\<And>x rest. rd (wr x @ rest) = x" and "\<And>x. length (wr x) = w"
  shows "read_seq w rd (length xs) (concat (map wr xs) @ rest) = xs"
  by (induction xs arbitrary: rest) (simp_all add: assms)

lemma length_concat_const:
  assumes "\<And>x. length (wr x) = w"
  shows "length (concat (map wr xs)) = w * length xs"
  by (induction xs) (simp_all add: assms)

lemmas [wire_simps] = length_concat_const [OF length_write_be(1)]
  length_concat_const [OF length_write_be(3)]

section \<open>Rust integer arithmetic\<close>

text \<open>\<open>overflowing_add\<close> and \<open>overflowing_sub\<close>: the wrapped result and whether it wrapped.\<close>

definition overflowing_add16 :: "u16 \<Rightarrow> u16 \<Rightarrow> u16 \<times> bool" where
  "overflowing_add16 a b = (a + b, 65536 \<le> unat a + unat b)"

definition overflowing_sub16 :: "u16 \<Rightarrow> u16 \<Rightarrow> u16 \<times> bool" where
  "overflowing_sub16 a b = (a - b, unat a < unat b)"

lemma unat_add_u16: "unat (a + b :: u16) = (unat a + unat b) mod 65536"
  by (simp add: unat_word_ariths)

lemma unat_sub_u16:
  "unat (a - b :: u16) = (if unat b \<le> unat a then unat a - unat b else 65536 + unat a - unat b)"
proof -
  have "unat (a - b) = (if unat b \<le> unat a then unat a - unat b else unat a + 65536 - unat b)"
    by (simp add: unat_sub_if')
  then show ?thesis by (simp only: add.commute)
qed

section \<open>Lists\<close>

lemma take_drop_split: "n \<le> length xs \<Longrightarrow> take n xs @ drop n xs = xs"
  by simp

lemma drop_append_le: "length xs \<le> n \<Longrightarrow> drop n (xs @ ys) = drop (n - length xs) ys"
  by simp

text \<open>\<open>starts_with\<close> of Rust slices.\<close>

definition starts_with :: "'a list \<Rightarrow> 'a list \<Rightarrow> bool" where
  "starts_with xs p \<longleftrightarrow> take (length p) xs = p"

text \<open>\<open>iter().position(p)\<close>: the index of the first element that satisfies a predicate.\<close>

fun position :: "('a \<Rightarrow> bool) \<Rightarrow> 'a list \<Rightarrow> nat option" where
  "position p [] = None"
| "position p (x # xs) = (if p x then Some 0 else map_option Suc (position p xs))"

lemma position_Some:
  "position p xs = Some i \<Longrightarrow> i < length xs \<and> p (xs ! i) \<and> (\<forall>j < i. \<not> p (xs ! j))"
proof (induction xs arbitrary: i)
  case (Cons x xs)
  then show ?case
    by (cases i) (auto split: if_splits simp: less_Suc_eq_0_disj)
qed simp

lemma position_None: "position p xs = None \<longleftrightarrow> (\<forall>x \<in> set xs. \<not> p x)"
  by (induction xs) auto

text \<open>\<open>Vec::remove\<close> at an index in range.\<close>

definition remove_at :: "nat \<Rightarrow> 'a list \<Rightarrow> 'a list" where
  "remove_at i xs = take i xs @ drop (Suc i) xs"

lemma length_remove_at: "i < length xs \<Longrightarrow> length (remove_at i xs) = length xs - 1"
  by (simp add: remove_at_def)

lemma mset_remove_at:
  assumes "i < length xs"
  shows "mset xs = add_mset (xs ! i) (mset (remove_at i xs))"
proof -
  have "xs = take i xs @ xs ! i # drop (Suc i) xs"
    using assms by (rule id_take_nth_drop)
  then show ?thesis
    unfolding remove_at_def by (metis mset_append mset.simps(2) union_mset_add_mset_right)
qed

lemma set_remove_at: "set (remove_at i xs) \<subseteq> set xs"
  by (auto simp: remove_at_def dest: in_set_takeD in_set_dropD)

end
