(* ===== verification/Packets.thy ===== *)
theory Packets
  imports Prelude
begin

text \<open>
  The packet layer: \<open>utils/tsproto-packets/src/packets.rs\<close> and the error type of
  \<open>utils/tsproto-packets/src/lib.rs\<close>. Incoming packets are views on a byte buffer
  (\<open>in_header\<close>, \<open>in_packet\<close>), outgoing packets own their buffer (\<open>out_packet\<close>); audio and init
  packets are parsed into \<open>audio_data\<close>, \<open>s2c_init_data\<close> and \<open>c2s_init_data\<close>.
  The \<open>Debug\<close> formatters and the self-referencing buffer types (\<open>InAudioBuf\<close> and its siblings,
  which pair a buffer with its parsed view) have no behaviour of their own beyond the parse.
\<close>

section \<open>Packet types, directions, flags and codecs\<close>

datatype packet_type = Voice | VoiceWhisper | Command | CommandLow | Ping | Pong | Ack | AckLow | Init

datatype direction = S2C | C2S

fun packet_type_to_u8 :: "packet_type \<Rightarrow> u8" where
  "packet_type_to_u8 Voice = 0"
| "packet_type_to_u8 VoiceWhisper = 1"
| "packet_type_to_u8 Command = 2"
| "packet_type_to_u8 CommandLow = 3"
| "packet_type_to_u8 Ping = 4"
| "packet_type_to_u8 Pong = 5"
| "packet_type_to_u8 Ack = 6"
| "packet_type_to_u8 AckLow = 7"
| "packet_type_to_u8 Init = 8"

definition packet_type_from_u8 :: "u8 \<Rightarrow> packet_type option" where
  "packet_type_from_u8 b =
     (if b = 0 then Some Voice else if b = 1 then Some VoiceWhisper
      else if b = 2 then Some Command else if b = 3 then Some CommandLow
      else if b = 4 then Some Ping else if b = 5 then Some Pong
      else if b = 6 then Some Ack else if b = 7 then Some AckLow
      else if b = 8 then Some Init else None)"

text \<open>The index of a packet type in the per-type tables (\<open>p_type.to_usize()\<close>).\<close>

definition type_index :: "packet_type \<Rightarrow> nat" where
  "type_index t = unat (packet_type_to_u8 t)"

definition is_command :: "packet_type \<Rightarrow> bool" where
  "is_command t \<longleftrightarrow> t = Command \<or> t = CommandLow"

definition is_ack :: "packet_type \<Rightarrow> bool" where
  "is_ack t \<longleftrightarrow> t = Ack \<or> t = AckLow \<or> t = Pong"

definition is_voice :: "packet_type \<Rightarrow> bool" where
  "is_voice t \<longleftrightarrow> t = Voice \<or> t = VoiceWhisper"

fun reverse_dir :: "direction \<Rightarrow> direction" where
  "reverse_dir S2C = C2S"
| "reverse_dir C2S = S2C"

type_synonym flags = u8

definition UNENCRYPTED :: flags where "UNENCRYPTED = 0x80"
definition COMPRESSED :: flags where "COMPRESSED = 0x40"
definition NEWPROTOCOL :: flags where "NEWPROTOCOL = 0x20"
definition FRAGMENTED :: flags where "FRAGMENTED = 0x10"

lemmas flag_defs = UNENCRYPTED_def COMPRESSED_def NEWPROTOCOL_def FRAGMENTED_def

definition has_flag :: "flags \<Rightarrow> flags \<Rightarrow> bool" where
  "has_flag f c \<longleftrightarrow> f AND c = c"

datatype codec_type =
  SpeexNarrowband | SpeexWideband | SpeexUltrawideband | CeltMono | OpusVoice | OpusMusic

fun codec_to_u8 :: "codec_type \<Rightarrow> u8" where
  "codec_to_u8 SpeexNarrowband = 0"
| "codec_to_u8 SpeexWideband = 1"
| "codec_to_u8 SpeexUltrawideband = 2"
| "codec_to_u8 CeltMono = 3"
| "codec_to_u8 OpusVoice = 4"
| "codec_to_u8 OpusMusic = 5"

definition codec_from_u8 :: "u8 \<Rightarrow> codec_type option" where
  "codec_from_u8 b =
     (if b = 0 then Some SpeexNarrowband else if b = 1 then Some SpeexWideband
      else if b = 2 then Some SpeexUltrawideband else if b = 3 then Some CeltMono
      else if b = 4 then Some OpusVoice else if b = 5 then Some OpusMusic else None)"

lemma codec_roundtrip [simp]: "codec_from_u8 (codec_to_u8 c) = Some c"
  by (cases c) (simp_all add: codec_from_u8_def)

lemma packet_type_roundtrip [simp]: "packet_type_from_u8 (packet_type_to_u8 t) = Some t"
  by (cases t) (simp_all add: packet_type_from_u8_def)

lemma packet_type_from_u8_Some: "b \<le> 8 \<Longrightarrow> packet_type_from_u8 b \<noteq> None"
proof -
  assume "b \<le> 8"
  then have "unat b \<le> 8" by (simp add: word_le_nat_alt)
  then have "unat b \<in> {0, 1, 2, 3, 4, 5, 6, 7, 8}" by auto
  then have "of_nat (unat b) \<in> (of_nat ` {0, 1, 2, 3, 4, 5, 6, 7, 8} :: u8 set)"
    by (rule imageI)
  then show ?thesis by (auto simp: packet_type_from_u8_def)
qed

section \<open>Errors\<close>

datatype packet_error =
    Base64Error | IoError | ParseIntError | Utf8Error | StringUtf8Error
  | InvalidInitStep u8
  | InvalidCodec u8
  | PacketContentTooShort nat
  | PacketTooShort nat
  | ParseCommand string
  | UnknownPacketType u8
  | WrongDirection
  | WrongInitMac bytes
  | WrongPacketType packet_type

text \<open>\<open>read_be()?\<close>: too few bytes are an \<open>io::Error\<close>.\<close>

definition io :: "'a option \<Rightarrow> (packet_error, 'a) outcome" where
  "io = ok_or IoError"

lemma io_simps [simp, outcome_simps]: "io (Some x) = Ok x" "io None = Err IoError"
  by (simp_all add: io_def)

section \<open>Incoming headers and packets\<close>

definition S2C_HEADER_LEN :: nat where "S2C_HEADER_LEN = 11"
definition C2S_HEADER_LEN :: nat where "C2S_HEADER_LEN = 13"

definition header_len :: "direction \<Rightarrow> nat" where
  "header_len dir = (if dir = S2C then S2C_HEADER_LEN else C2S_HEADER_LEN)"

text \<open>The offset to the packet type.\<close>

definition get_off :: "direction \<Rightarrow> nat" where
  "get_off dir = (if dir = S2C then 10 else 12)"

lemma header_len_simps [simp, wire_simps]:
  "header_len S2C = 11" "header_len C2S = 13" "get_off S2C = 10" "get_off C2S = 12"
  by (simp_all add: header_len_def get_off_def S2C_HEADER_LEN_def C2S_HEADER_LEN_def)

lemma get_off_header_len: "Suc (get_off dir) = header_len dir"
  by (cases dir) simp_all

record in_header =
  hdr_direction :: direction
  hdr_data :: bytes

record in_packet =
  pkt_header :: in_header
  pkt_content :: bytes

text \<open>
  \<open>InHeader::new\<close> slices the header off the buffer and panics when the buffer is shorter. Every
  header has the length of its direction's header (\<open>wf_header\<close>), so the fixed offsets read below
  are in range.
\<close>

definition in_header_new :: "direction \<Rightarrow> bytes \<Rightarrow> ('e, in_header) outcome" where
  "in_header_new dir buf =
     bind_out (slice buf 0 (header_len dir)) (\<lambda>d. Ok \<lparr>hdr_direction = dir, hdr_data = d\<rparr>)"

definition wf_header :: "in_header \<Rightarrow> bool" where
  "wf_header h \<longleftrightarrow> length (hdr_data h) = header_len (hdr_direction h)"

definition hdr_mac :: "in_header \<Rightarrow> bytes" where
  "hdr_mac h = take 8 (hdr_data h)"

definition hdr_packet_id :: "in_header \<Rightarrow> u16" where
  "hdr_packet_id h = of_nat (be_val (take 2 (drop 8 (hdr_data h))))"

definition hdr_client_id :: "in_header \<Rightarrow> u16 option" where
  "hdr_client_id h =
     (if hdr_direction h = S2C then None
      else Some (of_nat (be_val (take 2 (drop 10 (hdr_data h))))))"

definition hdr_flags :: "in_header \<Rightarrow> flags" where
  "hdr_flags h = hdr_data h ! get_off (hdr_direction h) AND 0xf0"

text \<open>\<open>None\<close> is the panic of \<open>PacketType::from_u8(..).unwrap()\<close> on an unknown type.\<close>

definition hdr_packet_type :: "in_header \<Rightarrow> packet_type option" where
  "hdr_packet_type h = packet_type_from_u8 (hdr_data h ! get_off (hdr_direction h) AND 0xf)"

definition get_meta :: "in_header \<Rightarrow> bytes" where
  "get_meta h = drop 8 (hdr_data h)"

definition in_packet_new :: "direction \<Rightarrow> bytes \<Rightarrow> ('e, in_packet) outcome" where
  "in_packet_new dir buf =
     bind_out (in_header_new dir buf) (\<lambda>h.
       Ok \<lparr>pkt_header = h, pkt_content = drop (length (hdr_data h)) buf\<rparr>)"

definition in_packet_try_new :: "direction \<Rightarrow> bytes \<Rightarrow> (packet_error, in_packet) outcome" where
  "in_packet_try_new dir buf =
     (if length buf < header_len dir then Err (PacketTooShort (length buf))
      else
        let p_type = buf ! (header_len dir - 1) AND 0xf in
        if 8 < p_type then Err (UnknownPacketType p_type)
        else in_packet_new dir buf)"

lemma in_packet_new_eq:
  "header_len dir \<le> length buf \<Longrightarrow>
   in_packet_new dir buf =
     Ok \<lparr>pkt_header = \<lparr>hdr_direction = dir, hdr_data = take (header_len dir) buf\<rparr>,
         pkt_content = drop (header_len dir) buf\<rparr>"
  by (simp add: in_packet_new_def in_header_new_def outcome_simps)

lemma in_packet_new_Ok_iff:
  "in_packet_new dir buf = Ok p \<longleftrightarrow>
     header_len dir \<le> length buf \<and>
     p = \<lparr>pkt_header = \<lparr>hdr_direction = dir, hdr_data = take (header_len dir) buf\<rparr>,
          pkt_content = drop (header_len dir) buf\<rparr>"
  by (auto simp: in_packet_new_def in_header_new_def outcome_simps bind_out_eq_Ok_iff split: if_splits)

lemma in_packet_try_new_Ok_iff:
  "in_packet_try_new dir buf = Ok p \<longleftrightarrow>
     (in_packet_new dir buf :: (packet_error, in_packet) outcome) = Ok p \<and> buf ! get_off dir AND 0xf \<le> 8"
  by (cases dir)
    (auto simp: in_packet_try_new_def Let_def in_packet_new_Ok_iff not_less
        split: if_splits)

section \<open>Acknowledged ids\<close>

text \<open>
  The packet id an incoming packet acknowledges. Acks and pongs carry it in their content; an init
  packet acknowledges the previous step of the init exchange.
\<close>

definition ack_packet :: "in_packet \<Rightarrow> (packet_error, u16 option) outcome" where
  "ack_packet p =
     bind_out (unwrap (hdr_packet_type (pkt_header p))) (\<lambda>p_type.
       if is_ack p_type then
         (case read_be16 (pkt_content p) of
            Some v \<Rightarrow> Ok (Some v)
          | None \<Rightarrow> Err (PacketContentTooShort (length (pkt_content p))))
       else if p_type = Init then
         (if hdr_direction (pkt_header p) = S2C then
            (case pkt_content p of
               [] \<Rightarrow> Err (PacketContentTooShort (length (pkt_content p)))
             | i # _ \<Rightarrow>
                 if i = 1 then Ok (Some 0)
                 else if i = 3 then Ok (Some 2)
                 else if i = 127 then Ok (Some 2)
                 else Err (InvalidInitStep i))
          else if length (pkt_content p) \<le> 4 then
            Err (PacketContentTooShort (length (pkt_content p)))
          else
            let i = pkt_content p ! 4 in
            if i = 0 then Ok None
            else if i = 2 then Ok (Some 1)
            else if i = 4 then Ok (Some 3)
            else Err (InvalidInitStep i))
       else Ok None)"

section \<open>Init packets\<close>

datatype c2s_init_data =
    Init0 (c2s_version: u32) (i0_timestamp: u32) (i0_random0: bytes)
  | Init2 (c2s_version: u32) (i2_random1: bytes) (i2_random0_r: bytes)
  | Init4 (c2s_version: u32) (i4_x: bytes) (i4_n: bytes) (i4_level: u32) (i4_random2: bytes)
      (i4_y: bytes) (i4_command: bytes)

datatype s2c_init_data =
    Init1 (i1_random1: bytes) (i1_random0_r: bytes)
  | Init3 (i3_x: bytes) (i3_n: bytes) (i3_level: u32) (i3_random2: bytes)
  | Init127

fun c2s_get_step :: "c2s_init_data \<Rightarrow> u8" where
  "c2s_get_step (Init0 _ _ _) = 0"
| "c2s_get_step (Init2 _ _ _) = 2"
| "c2s_get_step (Init4 _ _ _ _ _ _ _) = 4"

fun s2c_get_step :: "s2c_init_data \<Rightarrow> u8" where
  "s2c_get_step (Init1 _ _) = 1"
| "s2c_get_step (Init3 _ _ _ _) = 3"
| "s2c_get_step Init127 = 127"

definition init_mac :: bytes where
  "init_mac = bstr ''TS3INIT1''"

definition into_s2cinit :: "in_packet \<Rightarrow> (packet_error, in_packet \<times> s2c_init_data) outcome" where
  "into_s2cinit p =
     (if hdr_direction (pkt_header p) \<noteq> S2C then Err WrongDirection
      else bind_out (unwrap (hdr_packet_type (pkt_header p))) (\<lambda>p_type.
        if p_type \<noteq> Init then Err (WrongPacketType p_type)
        else if hdr_mac (pkt_header p) \<noteq> init_mac then Err (WrongInitMac (hdr_mac (pkt_header p)))
        else
          let c = pkt_content p in
          if c = [] then Err (PacketContentTooShort (length c))
          else if c ! 0 = 1 then
            (if length c < 21 then Err (PacketContentTooShort (length c))
             else Ok (p, Init1 (take 16 (drop 1 c)) (take 4 (drop 17 c))))
          else if c ! 0 = 3 then
            (if length c < 233 then Err (PacketContentTooShort (length c))
             else bind_out (io (read_be32 (drop 129 c))) (\<lambda>level.
               Ok (p, Init3 (take 64 (drop 1 c)) (take 64 (drop 65 c)) level
                        (take 100 (drop 133 c)))))
          else if c ! 0 = 127 then Ok (p, Init127)
          else Err (InvalidInitStep (c ! 0))))"

definition into_c2sinit :: "in_packet \<Rightarrow> (packet_error, in_packet \<times> c2s_init_data) outcome" where
  "into_c2sinit p =
     (if hdr_direction (pkt_header p) \<noteq> C2S then Err WrongDirection
      else bind_out (unwrap (hdr_packet_type (pkt_header p))) (\<lambda>p_type.
        if p_type \<noteq> Init then Err (WrongPacketType p_type)
        else if hdr_mac (pkt_header p) \<noteq> init_mac then Err (WrongInitMac (hdr_mac (pkt_header p)))
        else
          let c = pkt_content p in
          if length c < 5 then Err (PacketContentTooShort (length c))
          else bind_out (io (read_be32 c)) (\<lambda>version.
            if c ! 4 = 0 then
              (if length c < 13 then Err (PacketContentTooShort (length c))
               else bind_out (io (read_be32 (drop 5 c))) (\<lambda>timestamp.
                 Ok (p, Init0 version timestamp (take 4 (drop 9 c)))))
            else if c ! 4 = 2 then
              (if length c < 25 then Err (PacketContentTooShort (length c))
               else Ok (p, Init2 version (take 16 (drop 5 c)) (take 4 (drop 21 c))))
            else if c ! 4 = 4 then
              (let len = 5 + 128 + 4 + 100 + 64 in
               if length c < len + 20 then Err (PacketContentTooShort (length c))
               else bind_out (io (read_be32 (drop 133 c))) (\<lambda>level.
                 Ok (p, Init4 version (take 64 (drop 5 c)) (take 64 (drop 69 c)) level
                          (take 100 (drop 137 c)) (take 64 (drop 237 c)) (drop len c))))
            else Err (InvalidInitStep (c ! 0)))))"

section \<open>Audio packets\<close>

datatype audio_data =
    AudioC2S u16 codec_type bytes
  | AudioC2SWhisper u16 codec_type "u64 list" "u16 list" bytes
  | AudioC2SWhisperNew u16 codec_type u8 u8 u64 bytes
  | AudioS2C u16 u16 codec_type bytes
  | AudioS2CWhisper u16 u16 codec_type bytes

text \<open>
  The codec byte at offset \<open>i\<close>. On an unknown codec the error always quotes \<open>content[4]\<close>, also
  where the codec was read at offset 2, and that index can be out of range.
\<close>

definition codec_at :: "bytes \<Rightarrow> nat \<Rightarrow> (packet_error, codec_type) outcome" where
  "codec_at c i =
     bind_out (index c i) (\<lambda>b.
       case codec_from_u8 b of
         Some codec \<Rightarrow> Ok codec
       | None \<Rightarrow> bind_out (index c 4) (\<lambda>e. Err (InvalidCodec e)))"

definition read_u64s :: "nat \<Rightarrow> bytes \<Rightarrow> u64 list" where
  "read_u64s = read_seq 8 (\<lambda>bs. of_nat (be_val (take 8 bs)))"

definition read_u16s :: "nat \<Rightarrow> bytes \<Rightarrow> u16 list" where
  "read_u16s = read_seq 2 (\<lambda>bs. of_nat (be_val (take 2 bs)))"

definition audio_parse ::
  "packet_type \<Rightarrow> bool \<Rightarrow> direction \<Rightarrow> bytes \<Rightarrow> (packet_error, audio_data) outcome" where
  "audio_parse p_type newprotocol dir c =
     bind_out (io (read_be16 c)) (\<lambda>id.
       if p_type = Voice then
         (if dir = S2C then
            (if length c < 5 then Err (PacketContentTooShort (length c))
             else bind_out (io (read_be16 (drop 2 c))) (\<lambda>from.
                  bind_out (codec_at c 4) (\<lambda>codec.
                  Ok (AudioS2C id from codec (drop 5 c)))))
          else
            (if length c < 3 then Err (PacketContentTooShort (length c))
             else bind_out (codec_at c 2) (\<lambda>codec.
                  Ok (AudioC2S id codec (drop 3 c)))))
       else if dir = S2C then
         (if length c < 5 then Err (PacketContentTooShort (length c))
          else bind_out (io (read_be16 (drop 2 c))) (\<lambda>from.
               bind_out (codec_at c 4) (\<lambda>codec.
               Ok (AudioS2CWhisper id from codec (drop 5 c)))))
       else if length c < 3 then Err (PacketContentTooShort (length c))
       else bind_out (codec_at c 2) (\<lambda>codec.
         if newprotocol then
           (if length c < 14 then Err (PacketContentTooShort (length c))
            else bind_out (io (read_be64 (drop 5 c))) (\<lambda>target_id.
                 Ok (AudioC2SWhisperNew id codec (c ! 3) (c ! 4) target_id (drop 13 c))))
         else if length c < 5 then Err (PacketContentTooShort (length c))
         else
           let channel_count = unat (c ! 3);
               client_count = unat (c ! 4);
               channel_off = 5;
               client_off = channel_off + channel_count * 8;
               off = client_off + client_count * 2
           in if length c < off then Err (PacketContentTooShort (length c))
              else Ok (AudioC2SWhisper id codec
                         (read_u64s channel_count (drop channel_off c))
                         (read_u16s client_count (drop client_off c))
                         (drop off c))))"

fun audio_direction :: "audio_data \<Rightarrow> direction" where
  "audio_direction (AudioC2S _ _ _) = C2S"
| "audio_direction (AudioC2SWhisper _ _ _ _ _) = C2S"
| "audio_direction (AudioC2SWhisperNew _ _ _ _ _ _) = C2S"
| "audio_direction (AudioS2C _ _ _ _) = S2C"
| "audio_direction (AudioS2CWhisper _ _ _ _) = S2C"

fun audio_packet_type :: "audio_data \<Rightarrow> packet_type" where
  "audio_packet_type (AudioC2S _ _ _) = Voice"
| "audio_packet_type (AudioC2SWhisper _ _ _ _ _) = VoiceWhisper"
| "audio_packet_type (AudioC2SWhisperNew _ _ _ _ _ _) = VoiceWhisper"
| "audio_packet_type (AudioS2C _ _ _ _) = Voice"
| "audio_packet_type (AudioS2CWhisper _ _ _ _) = VoiceWhisper"

fun audio_codec :: "audio_data \<Rightarrow> codec_type" where
  "audio_codec (AudioC2S _ codec _) = codec"
| "audio_codec (AudioC2SWhisper _ codec _ _ _) = codec"
| "audio_codec (AudioC2SWhisperNew _ codec _ _ _ _) = codec"
| "audio_codec (AudioS2C _ _ codec _) = codec"
| "audio_codec (AudioS2CWhisper _ _ codec _) = codec"

fun audio_id :: "audio_data \<Rightarrow> u16" where
  "audio_id (AudioC2S i _ _) = i"
| "audio_id (AudioC2SWhisper i _ _ _ _) = i"
| "audio_id (AudioC2SWhisperNew i _ _ _ _ _) = i"
| "audio_id (AudioS2C i _ _ _) = i"
| "audio_id (AudioS2CWhisper i _ _ _) = i"

fun audio_flags :: "audio_data \<Rightarrow> flags" where
  "audio_flags (AudioC2S _ _ _) = 0"
| "audio_flags (AudioC2SWhisper _ _ _ _ _) = 0"
| "audio_flags (AudioC2SWhisperNew _ _ _ _ _ _) = NEWPROTOCOL"
| "audio_flags (AudioS2C _ _ _ _) = 0"
| "audio_flags (AudioS2CWhisper _ _ _ _) = 0"

fun audio_payload :: "audio_data \<Rightarrow> bytes" where
  "audio_payload (AudioC2S _ _ d) = d"
| "audio_payload (AudioC2SWhisper _ _ _ _ d) = d"
| "audio_payload (AudioC2SWhisperNew _ _ _ _ _ d) = d"
| "audio_payload (AudioS2C _ _ _ d) = d"
| "audio_payload (AudioS2CWhisper _ _ _ d) = d"

definition into_audio :: "in_packet \<Rightarrow> (packet_error, in_packet \<times> audio_data) outcome" where
  "into_audio p =
     bind_out (unwrap (hdr_packet_type (pkt_header p))) (\<lambda>p_type.
       let newprotocol = has_flag (hdr_flags (pkt_header p)) NEWPROTOCOL in
       bind_out (audio_parse p_type newprotocol (hdr_direction (pkt_header p)) (pkt_content p))
         (\<lambda>d. Ok (p, d)))"

section \<open>Outgoing packets\<close>

record out_packet =
  out_dir :: direction
  out_data :: bytes

record out_udp_packet =
  udp_generation_id :: u32
  udp_data :: out_packet

text \<open>
  Writing \<open>new\<close> at an offset of the buffer (\<open>data[off..off + new.len()].copy_from_slice(new)\<close>).
  Every outgoing packet is at least as long as its header (\<open>wf_out\<close>), so the header writes are in
  range.
\<close>

definition splice :: "nat \<Rightarrow> 'a list \<Rightarrow> 'a list \<Rightarrow> 'a list" where
  "splice off new xs = take off xs @ new @ drop (off + length new) xs"

definition content_offset :: "out_packet \<Rightarrow> nat" where
  "content_offset p = (if out_dir p = S2C then S2C_HEADER_LEN else C2S_HEADER_LEN)"

definition wf_out :: "out_packet \<Rightarrow> bool" where
  "wf_out p \<longleftrightarrow> content_offset p \<le> length (out_data p)"

definition header_bytes :: "out_packet \<Rightarrow> bytes" where
  "header_bytes p = take (content_offset p) (out_data p)"

definition out_content :: "out_packet \<Rightarrow> bytes" where
  "out_content p = drop (content_offset p) (out_data p)"

definition out_header :: "out_packet \<Rightarrow> in_header" where
  "out_header p = \<lparr>hdr_direction = out_dir p, hdr_data = header_bytes p\<rparr>"

definition set_mac :: "bytes \<Rightarrow> out_packet \<Rightarrow> out_packet" where
  "set_mac mac p = p\<lparr>out_data := splice 0 mac (out_data p)\<rparr>"

definition set_packet_id :: "u16 \<Rightarrow> out_packet \<Rightarrow> out_packet" where
  "set_packet_id pid p = p\<lparr>out_data := splice 8 (write_be16 pid) (out_data p)\<rparr>"

text \<open>Only client-to-server packets have a client id; the setter asserts the direction.\<close>

definition set_client_id :: "u16 \<Rightarrow> out_packet \<Rightarrow> ('e, out_packet) outcome" where
  "set_client_id cid p =
     (if out_dir p \<noteq> C2S then Panic
      else Ok (p\<lparr>out_data := splice 10 (write_be16 cid) (out_data p)\<rparr>))"

definition set_flags :: "flags \<Rightarrow> out_packet \<Rightarrow> out_packet" where
  "set_flags f p =
     (let off = get_off (out_dir p) in
      p\<lparr>out_data := (out_data p)[off := (out_data p ! off AND 0xf) OR f]\<rparr>)"

definition set_packet_type :: "packet_type \<Rightarrow> out_packet \<Rightarrow> out_packet" where
  "set_packet_type t p =
     (let off = get_off (out_dir p) in
      p\<lparr>out_data := (out_data p)[off := (out_data p ! off AND 0xf0) OR packet_type_to_u8 t]\<rparr>)"

definition out_new_with_dir :: "direction \<Rightarrow> flags \<Rightarrow> packet_type \<Rightarrow> out_packet" where
  "out_new_with_dir dir f t =
     set_packet_type t (set_flags f
       \<lparr>out_dir = dir,
        out_data = replicate (if dir = S2C then S2C_HEADER_LEN else C2S_HEADER_LEN) 0\<rparr>)"

definition out_new :: "bytes \<Rightarrow> u16 \<Rightarrow> u16 option \<Rightarrow> flags \<Rightarrow> packet_type \<Rightarrow> out_packet" where
  "out_new mac pid client_id f t =
     (let dir = (if client_id \<noteq> None then C2S else S2C);
          res = set_packet_id pid (set_mac mac (out_new_with_dir dir f t))
      in case client_id of
           Some cid \<Rightarrow> res\<lparr>out_data := splice 10 (write_be16 cid) (out_data res)\<rparr>
         | None \<Rightarrow> res)"

definition out_new_from_data :: "direction \<Rightarrow> bytes \<Rightarrow> out_packet" where
  "out_new_from_data dir d = \<lparr>out_dir = dir, out_data = d\<rparr>"

definition out_extend :: "bytes \<Rightarrow> out_packet \<Rightarrow> out_packet" where
  "out_extend d p = p\<lparr>out_data := out_data p @ d\<rparr>"

text \<open>
  The packet type and id of an encoded packet. An init packet has no id of its own: its step byte
  is used. \<open>None\<close> is a panic (unknown type, or an init packet without a step byte).
\<close>

definition udp_packet_type :: "out_udp_packet \<Rightarrow> packet_type option" where
  "udp_packet_type u = hdr_packet_type (out_header (udp_data u))"

definition udp_packet_id :: "out_udp_packet \<Rightarrow> u16 option" where
  "udp_packet_id u =
     (case udp_packet_type u of
        None \<Rightarrow> None
      | Some t \<Rightarrow>
          if t = Init then
            (let i = (if out_dir (udp_data u) = S2C then 0 else 4);
                 c = out_content (udp_data u)
             in if i < length c then Some (ucast (c ! i)) else None)
          else Some (hdr_packet_id (out_header (udp_data u))))"

section \<open>Building init, ack and audio packets\<close>

definition init_packet :: "direction \<Rightarrow> bytes \<Rightarrow> out_packet" where
  "init_packet dir body =
     out_extend body (set_packet_id 0x65 (set_mac init_mac (out_new_with_dir dir 0 Init)))"

definition out_c2s_init0 :: "u32 \<Rightarrow> u32 \<Rightarrow> bytes \<Rightarrow> out_packet" where
  "out_c2s_init0 version timestamp random0 =
     init_packet C2S
       (write_be32 version @ [0] @ write_be32 timestamp @ random0 @ replicate 8 0)"

definition out_c2s_init2 :: "u32 \<Rightarrow> bytes \<Rightarrow> bytes \<Rightarrow> out_packet" where
  "out_c2s_init2 version random1 random0_r =
     init_packet C2S (write_be32 version @ [2] @ random1 @ random0_r)"

text \<open>\<open>b64\<close> is the base64 encoder of the \<open>base64\<close> crate.\<close>

definition out_c2s_init4 ::
  "(bytes \<Rightarrow> bytes) \<Rightarrow> u32 \<Rightarrow> bytes \<Rightarrow> bytes \<Rightarrow> u32 \<Rightarrow> bytes \<Rightarrow> bytes \<Rightarrow> bytes \<Rightarrow> bytes \<Rightarrow> bytes
     \<Rightarrow> out_packet" where
  "out_c2s_init4 b64 version x n level random2 y alpha omega ip =
     (let ip_arg = (if ip = [] then [] else bstr ''='' @ ip)
      in init_packet C2S
           (write_be32 version @ [4] @ x @ n @ write_be32 level @ random2 @ y @
            bstr ''clientinitiv alpha='' @ b64 alpha @ bstr '' omega='' @ b64 omega @
            bstr '' ot=1 ip'' @ ip_arg))"

definition out_s2c_init1 :: "bytes \<Rightarrow> bytes \<Rightarrow> out_packet" where
  "out_s2c_init1 random1 random0_r = init_packet S2C ([1] @ random1 @ random0_r)"

definition out_s2c_init3 :: "bytes \<Rightarrow> bytes \<Rightarrow> u32 \<Rightarrow> bytes \<Rightarrow> out_packet" where
  "out_s2c_init3 x n level random2 =
     init_packet S2C ([3] @ x @ n @ write_be32 level @ random2)"

text \<open>\<open>for_type\<close> is the acknowledged packet type; other types panic.\<close>

definition out_ack :: "direction \<Rightarrow> packet_type \<Rightarrow> u16 \<Rightarrow> ('e, out_packet) outcome" where
  "out_ack dir for_type pid =
     (let reply = (\<lambda>t. Ok (out_extend (write_be16 pid) (out_new_with_dir dir 0 t)))
      in if for_type = Command then reply Ack
         else if for_type = CommandLow then reply AckLow
         else if for_type = Ping then reply Pong
         else Panic)"

fun audio_body :: "audio_data \<Rightarrow> bytes" where
  "audio_body (AudioC2S _ codec d) = codec_to_u8 codec # d"
| "audio_body (AudioC2SWhisper _ codec channels clients d) =
     [codec_to_u8 codec, of_nat (length channels), of_nat (length clients)] @
     concat (map write_be64 channels) @ concat (map write_be16 clients) @ d"
| "audio_body (AudioC2SWhisperNew _ codec whisper_type target target_id d) =
     [codec_to_u8 codec, whisper_type, target] @ write_be64 target_id @ d"
| "audio_body (AudioS2C _ from codec d) = write_be16 from @ [codec_to_u8 codec] @ d"
| "audio_body (AudioS2CWhisper _ from codec d) = write_be16 from @ [codec_to_u8 codec] @ d"

definition out_audio :: "audio_data \<Rightarrow> out_packet" where
  "out_audio a =
     out_extend (write_be16 (audio_id a) @ audio_body a)
       (out_new_with_dir (audio_direction a) (audio_flags a) (audio_packet_type a))"

section \<open>The header byte and well-formedness\<close>

lemma type_byte_low [simp]:
  "((f AND 0xf0) OR packet_type_to_u8 t) AND 0xf = packet_type_to_u8 t"
  by (cases t) (simp_all add: bit.conj_disj_distrib2 and.assoc)

lemma type_byte_high [simp]:
  "((f AND 0xf0) OR packet_type_to_u8 t) AND 0xf0 = f AND 0xf0"
  by (cases t) (simp_all add: bit.conj_disj_distrib2 and.assoc)

lemma packet_type_to_u8_le [simp]: "packet_type_to_u8 t \<le> 8"
  by (cases t) simp_all

lemma packet_type_to_u8_not_less [simp]: "\<not> 8 < packet_type_to_u8 t"
  by (simp add: not_less)

lemma replicate_update_last: "(replicate (Suc n) a)[n := x] = replicate n a @ [x]"
  by (metis length_replicate list_update_length replicate_Suc replicate_app_Cons_same append_Nil2)

lemma header_len_Suc: "header_len dir = Suc (get_off dir)"
  by (cases dir) simp_all

lemma content_offset_eq [simp]: "content_offset p = header_len (out_dir p)"
  by (simp add: content_offset_def header_len_def)

lemma out_new_with_dir_eq:
  "out_new_with_dir dir f t =
     \<lparr>out_dir = dir,
      out_data = replicate (get_off dir) 0 @ [(f AND 0xf0) OR packet_type_to_u8 t]\<rparr>"
proof -
  have "(if dir = S2C then S2C_HEADER_LEN else C2S_HEADER_LEN) = Suc (get_off dir)"
    using header_len_Suc [of dir] by (simp add: header_len_def)
  then show ?thesis
    by (simp add: out_new_with_dir_def set_packet_type_def set_flags_def Let_def
        replicate_update_last nth_append list_update_append del: replicate.simps)
qed

text \<open>The setters keep the direction and the length of the buffer, hence well-formedness.\<close>

lemma length_splice: "off + length new \<le> length xs \<Longrightarrow> length (splice off new xs) = length xs"
  by (simp add: splice_def)

lemma out_dir_setters [simp]:
  "out_dir (set_mac m p) = out_dir p" "out_dir (set_packet_id i p) = out_dir p"
  "out_dir (set_flags f p) = out_dir p" "out_dir (set_packet_type t p) = out_dir p"
  "out_dir (out_extend d p) = out_dir p" "out_dir (out_new_with_dir dir f t) = dir"
  "out_dir (out_new_from_data dir d) = dir" "out_dir (init_packet dir body) = dir"
  by (simp_all add: set_mac_def set_packet_id_def set_flags_def set_packet_type_def Let_def
      out_extend_def out_new_with_dir_eq out_new_from_data_def init_packet_def)

lemma header_len_bounds: "11 \<le> header_len dir" "header_len dir \<le> 13"
  by (cases dir; simp)+

lemma wf_out_length: "wf_out p \<Longrightarrow> header_len (out_dir p) \<le> length (out_data p)"
  by (simp add: wf_out_def)

lemma wf_out_setters:
  assumes "wf_out p"
  shows "wf_out (set_flags f p)" and "wf_out (set_packet_type t p)"
    and "wf_out (set_packet_id i p)" and "length m = 8 \<Longrightarrow> wf_out (set_mac m p)"
    and "wf_out (out_extend d p)"
  using assms header_len_bounds [of "out_dir p"]
  by (simp_all add: wf_out_def set_flags_def set_packet_type_def set_packet_id_def set_mac_def
      out_extend_def Let_def length_splice)

lemma wf_out_new_with_dir [simp]: "wf_out (out_new_with_dir dir f t)"
  by (simp add: wf_out_def out_new_with_dir_eq header_len_Suc)

lemma wf_out_header: "wf_out p \<Longrightarrow> wf_header (out_header p)"
  by (simp add: wf_out_def wf_header_def out_header_def header_bytes_def)

lemma length_init_mac [simp]: "length init_mac = 8"
  by (simp add: init_mac_def)

lemma wf_out_init_packet [simp]: "wf_out (init_packet dir body)"
  by (simp add: init_packet_def wf_out_setters)

text \<open>A buffer made of the bytes before the type byte, the type byte and the content.\<close>

lemma in_packet_new_parts:
  assumes "length h = get_off dir"
  shows "in_packet_new dir (h @ tb # body) =
    Ok \<lparr>pkt_header = \<lparr>hdr_direction = dir, hdr_data = h @ [tb]\<rparr>, pkt_content = body\<rparr>"
  using assms by (simp add: in_packet_new_eq header_len_Suc)

lemma in_packet_try_new_parts:
  assumes "length h = get_off dir" and "\<not> 8 < tb AND 0xf"
  shows "in_packet_try_new dir (h @ tb # body) =
    Ok \<lparr>pkt_header = \<lparr>hdr_direction = dir, hdr_data = h @ [tb]\<rparr>, pkt_content = body\<rparr>"
  using assms
  by (simp add: in_packet_try_new_def in_packet_new_parts header_len_Suc nth_append Let_def)

lemma hdr_parts [simp]:
  assumes "length h = get_off dir"
  shows "hdr_packet_type \<lparr>hdr_direction = dir, hdr_data = h @ [tb]\<rparr> = packet_type_from_u8 (tb AND 0xf)"
    and "hdr_flags \<lparr>hdr_direction = dir, hdr_data = h @ [tb]\<rparr> = tb AND 0xf0"
  using assms by (simp_all add: hdr_packet_type_def hdr_flags_def nth_append)

text \<open>\<open>try_new\<close> accepts only buffers on which no later header access can panic.\<close>

lemma in_packet_try_new_safe:
  assumes "in_packet_try_new dir buf = Ok p"
  shows "wf_header (pkt_header p) \<and> hdr_direction (pkt_header p) = dir \<and>
    hdr_data (pkt_header p) @ pkt_content p = buf \<and> hdr_packet_type (pkt_header p) \<noteq> None"
  using assms
  by (auto simp: in_packet_try_new_Ok_iff in_packet_new_Ok_iff wf_header_def hdr_packet_type_def
      header_len_Suc dest: packet_type_from_u8_Some)

lemma in_packet_try_new_total: "in_packet_try_new dir buf \<noteq> Panic"
  by (simp add: in_packet_try_new_def Let_def in_packet_new_eq not_less)

section \<open>Round trips\<close>

lemma read_u64s_concat:
  "read_u64s (length cs) (concat (map write_be64 cs) @ rest) = cs"
  unfolding read_u64s_def by (rule read_seq_concat) simp_all

lemma read_u16s_concat:
  "read_u16s (length cs) (concat (map write_be16 cs) @ rest) = cs"
  unfolding read_u16s_def by (rule read_seq_concat) simp_all

lemma read_be_after [simp]:
  "length xs = n \<Longrightarrow> read_be16 (drop n (xs @ write_be16 v @ r)) = Some v"
  by simp

lemma write_be16_Cons: "\<exists>a b. write_be16 v = [a, b]"
  using length_write_be(1) [of v] by (metis length_0_conv length_Suc_conv numeral_2_eq_2)

lemma drop_write_be16 [simp]: "drop (Suc (Suc n)) (write_be16 v @ r) = drop n r"
  by simp

text \<open>
  The audio packets that survive the wire: a whisper carries its channel and client counts in one
  byte each, and a new-protocol whisper is only accepted with a non-empty payload.
\<close>

fun wf_audio :: "audio_data \<Rightarrow> bool" where
  "wf_audio (AudioC2SWhisper _ _ channels clients _) \<longleftrightarrow>
     length channels < 256 \<and> length clients < 256"
| "wf_audio (AudioC2SWhisperNew _ _ _ _ _ d) \<longleftrightarrow> d \<noteq> []"
| "wf_audio _ \<longleftrightarrow> True"

lemma has_flag_newprotocol: "has_flag (audio_flags a AND 0xf0) NEWPROTOCOL =
   (case a of AudioC2SWhisperNew _ _ _ _ _ _ \<Rightarrow> True | _ \<Rightarrow> False)"
  by (cases a) (simp_all add: has_flag_def flag_defs)

lemma unat_of_nat_u8_small: "n < 256 \<Longrightarrow> unat (of_nat n :: u8) = n"
  by (simp add: unat_of_nat_u8)

lemma codec_at_hit:
  assumes "length h = i" shows "codec_at (h @ codec_to_u8 codec # r) i = Ok codec"
  using assms by (simp add: codec_at_def outcome_simps nth_append)

lemma nth_write_be16 [simp]: "(write_be16 v @ r) ! (Suc (Suc n)) = r ! n"
  by (simp add: nth_append)

lemma audio_parse_body:
  assumes "wf_audio a"
  shows "audio_parse (audio_packet_type a)
    (case a of AudioC2SWhisperNew _ _ _ _ _ _ \<Rightarrow> True | _ \<Rightarrow> False)
    (audio_direction a) (write_be16 (audio_id a) @ audio_body a) = Ok a"
proof (cases a)
  case (AudioC2S i codec d)
  then show ?thesis
    using codec_at_hit [of "write_be16 i" 2 codec d] by (simp add: audio_parse_def outcome_simps)
next
  case (AudioC2SWhisper i codec channels clients d)
  let ?n = "length channels" and ?m = "length clients"
  let ?c = "write_be16 i @ codec_to_u8 codec # of_nat ?n # of_nat ?m #
    concat (map write_be64 channels) @ concat (map write_be16 clients) @ d"
  have len: "?n < 256" "?m < 256"
    using assms AudioC2SWhisper by simp_all
  have d5: "drop 5 ?c = concat (map write_be64 channels) @ concat (map write_be16 clients) @ d"
    by simp
  have dn: "drop (5 + k) ?c = drop k (drop 5 ?c)" for k
    by (simp only: drop_drop add.commute)
  have drops: "drop (5 + 8 * ?n) ?c = concat (map write_be16 clients) @ d"
    "drop (5 + (8 * ?n + 2 * ?m)) ?c = d"
    unfolding dn d5 by (simp_all add: wire_simps)
  have "codec_at ?c 2 = Ok codec"
    by (rule codec_at_hit) simp
  then show ?thesis
    using len d5 drops
    by (simp add: AudioC2SWhisper audio_parse_def outcome_simps Let_def unat_of_nat_u8_small
        read_u64s_concat read_u16s_concat wire_simps nth_append ac_simps)
next
  case (AudioC2SWhisperNew i codec wt t tid d)
  let ?c = "write_be16 i @ codec_to_u8 codec # wt # t # write_be64 tid @ d"
  have "codec_at ?c 2 = Ok codec"
    by (rule codec_at_hit) simp
  moreover have "\<not> length ?c < 14"
    using assms AudioC2SWhisperNew by (cases d) simp_all
  moreover have "drop 13 ?c = d" "drop 5 ?c = write_be64 tid @ d"
    by simp_all
  ultimately show ?thesis
    by (simp add: AudioC2SWhisperNew audio_parse_def outcome_simps nth_append)
next
  case (AudioS2C i src codec d)
  then show ?thesis
    using codec_at_hit [of "write_be16 i @ write_be16 src" 4 codec d]
    by (simp add: audio_parse_def outcome_simps)
next
  case (AudioS2CWhisper i src codec d)
  then show ?thesis
    using codec_at_hit [of "write_be16 i @ write_be16 src" 4 codec d]
    by (simp add: audio_parse_def outcome_simps)
qed

text \<open>
  C24: An audio packet of any of the five kinds that is written by \<open>OutAudio::new\<close> is accepted by
  \<open>InPacket::try_new\<close> and parsed by \<open>into_audio\<close> back to the same data, for whispers with fewer
  than 256 channels and clients and new-protocol whispers with a payload.
\<close>

theorem audio_roundtrip:
  assumes "wf_audio a"
  shows "\<exists>p. in_packet_try_new (audio_direction a) (out_data (out_audio a)) = Ok p \<and>
    into_audio p = Ok (p, a)"
proof -
  let ?h = "replicate (get_off (audio_direction a)) 0"
  let ?tb = "(audio_flags a AND 0xf0) OR packet_type_to_u8 (audio_packet_type a)"
  let ?body = "write_be16 (audio_id a) @ audio_body a"
  let ?p = "\<lparr>pkt_header = \<lparr>hdr_direction = audio_direction a, hdr_data = ?h @ [?tb]\<rparr>,
    pkt_content = ?body\<rparr>"
  have "out_data (out_audio a) = ?h @ ?tb # ?body"
    by (simp add: out_audio_def out_extend_def out_new_with_dir_eq)
  then have "in_packet_try_new (audio_direction a) (out_data (out_audio a)) = Ok ?p"
    by (simp add: in_packet_try_new_parts)
  moreover have "into_audio ?p = Ok (?p, a)"
    using audio_parse_body [OF assms]
    by (simp add: into_audio_def outcome_simps Let_def has_flag_newprotocol)
  ultimately show ?thesis by blast
qed

theorem audio_roundtrip_witness:
  "\<exists>p. in_packet_try_new C2S (out_data (out_audio (AudioC2SWhisper 0x1234 OpusVoice [4, 5, 6] [7, 8] [1, 2, 3])))
     = Ok p \<and> into_audio p = Ok (p, AudioC2SWhisper 0x1234 OpusVoice [4, 5, 6] [7, 8] [1, 2, 3])"
  using audio_roundtrip [of "AudioC2SWhisper 0x1234 OpusVoice [4, 5, 6] [7, 8] [1, 2, 3]"] by simp

lemma audio_parse_panics:
  "audio_parse p_type np dir c = Panic \<longleftrightarrow>
     dir = C2S \<and> (length c = 3 \<or> length c = 4) \<and> codec_from_u8 (c ! 2) = None"
proof -
  have codec_at_panic: "codec_at c i = Panic \<longleftrightarrow> length c \<le> i \<or> codec_from_u8 (c ! i) = None \<and> length c \<le> 4"
    for i by (auto simp: codec_at_def index_def split: option.splits)
  have io_panic: "io x \<noteq> Panic" for x :: "'x option"
    by (simp add: io_def)
  have len: "length c = 3 \<or> length c = 4 \<longleftrightarrow> \<not> length c < 3 \<and> length c \<le> 4"
    by auto
  have read: "io (read_be16 c) = Ok v \<Longrightarrow> \<not> length c < 2" for v
    by (auto simp: read_be16_def split: if_splits)
  show ?thesis
    unfolding len
    by (cases "read_be16 c"; cases dir)
      (auto simp: audio_parse_def bind_out_eq_Panic_iff codec_at_panic io_panic Let_def
        read_be16_def split: if_splits)
qed

text \<open>
  C37: Parsing audio data panics in exactly one situation: a client-to-server packet of three or
  four bytes whose codec byte is unknown (for a whisper too, whatever its protocol flag), because
  the error then quotes a byte that is not there.
\<close>

theorem audio_parse_panics_iff:
  "audio_parse p_type np dir c = Panic \<longleftrightarrow>
     dir = C2S \<and> (length c = 3 \<or> length c = 4) \<and> codec_from_u8 (c ! 2) = None"
  by (rule audio_parse_panics)

text \<open>
  Init packets: the buffer \<open>init_packet\<close> builds, and the header checks of the two parsers on it.
\<close>

definition init_header :: "direction \<Rightarrow> bytes" where
  "init_header dir = init_mac @ write_be16 0x65 @ replicate (get_off dir - 10) 0"

lemma length_init_header [simp]: "length (init_header dir) = get_off dir"
  by (cases dir) (simp_all add: init_header_def)

lemma init_packet_data: "out_data (init_packet dir body) = init_header dir @ 8 # body"
proof -
  have "splice 8 (write_be16 0x65) (splice 0 init_mac (replicate (get_off dir) 0 @ [8])) =
    init_header dir @ [8 :: u8]"
    by (cases dir) (simp_all add: splice_def init_header_def)
  then show ?thesis
    by (simp add: init_packet_def out_extend_def set_packet_id_def set_mac_def out_new_with_dir_eq)
qed

definition parsed_init :: "direction \<Rightarrow> bytes \<Rightarrow> in_packet" where
  "parsed_init dir body =
     \<lparr>pkt_header = \<lparr>hdr_direction = dir, hdr_data = init_header dir @ [8]\<rparr>, pkt_content = body\<rparr>"

lemma parsed_init_simps [simp]:
  "hdr_packet_type (pkt_header (parsed_init dir body)) = Some Init"
  "hdr_direction (pkt_header (parsed_init dir body)) = dir"
  "hdr_mac (pkt_header (parsed_init dir body)) = init_mac"
  "pkt_content (parsed_init dir body) = body"
  by (simp_all add: parsed_init_def packet_type_from_u8_def hdr_mac_def init_header_def
      hdr_packet_type_def nth_append split: if_splits)
    (cases dir; simp)+

lemma init_packet_parsed:
  "in_packet_try_new dir (out_data (init_packet dir body)) = Ok (parsed_init dir body)"
  by (simp add: init_packet_data in_packet_try_new_parts parsed_init_def)

definition init_fields_ok :: "bytes \<Rightarrow> bytes \<Rightarrow> bytes \<Rightarrow> bytes \<Rightarrow> bytes \<Rightarrow> bytes \<Rightarrow> bool" where
  "init_fields_ok r4 r16 x n r100 y \<longleftrightarrow>
     length r4 = 4 \<and> length r16 = 16 \<and> length x = 64 \<and> length n = 64 \<and> length r100 = 100 \<and>
     length y = 64"

lemma parse_init1:
  "length r16 = 16 \<Longrightarrow> length r4 = 4 \<Longrightarrow>
   into_s2cinit (parsed_init S2C (1 # r16 @ r4)) = Ok (parsed_init S2C (1 # r16 @ r4), Init1 r16 r4)"
  by (simp add: into_s2cinit_def outcome_simps Let_def)

lemma parse_init3:
  "length x = 64 \<Longrightarrow> length n = 64 \<Longrightarrow> length r100 = 100 \<Longrightarrow>
   into_s2cinit (parsed_init S2C (3 # x @ n @ write_be32 level @ r100)) =
     Ok (parsed_init S2C (3 # x @ n @ write_be32 level @ r100), Init3 x n level r100)"
  by (simp add: into_s2cinit_def outcome_simps Let_def)

lemma parse_init0:
  "length r4 = 4 \<Longrightarrow>
   into_c2sinit (parsed_init C2S (write_be32 v @ 0 # write_be32 ts @ r4 @ replicate 8 0)) =
     Ok (parsed_init C2S (write_be32 v @ 0 # write_be32 ts @ r4 @ replicate 8 0), Init0 v ts r4)"
  by (simp add: into_c2sinit_def outcome_simps Let_def nth_append)

lemma parse_init2:
  "length r16 = 16 \<Longrightarrow> length r4 = 4 \<Longrightarrow>
   into_c2sinit (parsed_init C2S (write_be32 v @ 2 # r16 @ r4)) =
     Ok (parsed_init C2S (write_be32 v @ 2 # r16 @ r4), Init2 v r16 r4)"
  by (simp add: into_c2sinit_def outcome_simps Let_def nth_append)

lemma parse_init4:
  "length x = 64 \<Longrightarrow> length n = 64 \<Longrightarrow> length r100 = 100 \<Longrightarrow> length y = 64 \<Longrightarrow> 20 \<le> length cmd \<Longrightarrow>
   into_c2sinit (parsed_init C2S (write_be32 v @ 4 # x @ n @ write_be32 level @ r100 @ y @ cmd)) =
     Ok (parsed_init C2S (write_be32 v @ 4 # x @ n @ write_be32 level @ r100 @ y @ cmd),
         Init4 v x n level r100 y cmd)"
  by (simp add: into_c2sinit_def outcome_simps Let_def nth_append)

lemmas parse_init_simps = parse_init1 parse_init3 parse_init0 parse_init2 parse_init4

definition parse_s2cinit :: "bytes \<Rightarrow> (packet_error, s2c_init_data) outcome" where
  "parse_s2cinit buf =
     bind_out (in_packet_try_new S2C buf) (\<lambda>p. bind_out (into_s2cinit p) (\<lambda>(_, d). Ok d))"

definition parse_c2sinit :: "bytes \<Rightarrow> (packet_error, c2s_init_data) outcome" where
  "parse_c2sinit buf =
     bind_out (in_packet_try_new C2S buf) (\<lambda>p. bind_out (into_c2sinit p) (\<lambda>(_, d). Ok d))"

lemma parse_init_packet:
  "parse_s2cinit (out_data (init_packet S2C b)) =
     bind_out (into_s2cinit (parsed_init S2C b)) (\<lambda>(_, d). Ok d)"
  "parse_c2sinit (out_data (init_packet C2S b)) =
     bind_out (into_c2sinit (parsed_init C2S b)) (\<lambda>(_, d). Ok d)"
  by (simp_all add: parse_s2cinit_def parse_c2sinit_def init_packet_parsed outcome_simps)

text \<open>
  C25: The messages of the init exchange survive the wire in both directions: what the constructors
  write, with buffers of the lengths their array types fix, is accepted by \<open>try_new\<close> and parsed
  back to the same fields. The last message carries the \<open>clientinitiv\<close> command after its fields.
\<close>

theorem init_roundtrip:
  assumes "init_fields_ok r4 r16 x n r100 y"
  shows "parse_s2cinit (out_data (out_s2c_init1 r16 r4)) = Ok (Init1 r16 r4) \<and>
    parse_s2cinit (out_data (out_s2c_init3 x n level r100)) = Ok (Init3 x n level r100) \<and>
    parse_c2sinit (out_data (out_c2s_init0 v ts r4)) = Ok (Init0 v ts r4) \<and>
    parse_c2sinit (out_data (out_c2s_init2 v r16 r4)) = Ok (Init2 v r16 r4) \<and>
    parse_c2sinit (out_data (out_c2s_init4 b64 v x n level r100 y alpha omega ip)) =
      Ok (Init4 v x n level r100 y
        (bstr ''clientinitiv alpha='' @ b64 alpha @ bstr '' omega='' @ b64 omega @
         bstr '' ot=1 ip'' @ (if ip = [] then [] else bstr ''='' @ ip)))"
  using assms unfolding init_fields_ok_def
  by (simp add: out_s2c_init1_def out_s2c_init3_def out_c2s_init0_def out_c2s_init2_def
      out_c2s_init4_def parse_init_packet parse_init_simps outcome_simps Let_def
      del: replicate.simps)

theorem init_roundtrip_witness:
  "parse_s2cinit (out_data (out_s2c_init1 (replicate 16 7) [1, 2, 3, 4])) =
     Ok (Init1 (replicate 16 7) [1, 2, 3, 4])"
  using init_roundtrip [of "[1, 2, 3, 4]" "replicate 16 7" "replicate 64 1" "replicate 64 2"
      "replicate 100 3" "replicate 64 4"]
  by (simp add: init_fields_ok_def)

text \<open>Only an unknown packet type makes these functions panic.\<close>

lemma checks_no_panic:
  assumes "hdr_packet_type (pkt_header p) = Some t"
  shows "ack_packet p \<noteq> Panic" "into_s2cinit p \<noteq> Panic" "into_c2sinit p \<noteq> Panic"
proof -
  have io: "io x \<noteq> Panic" for x :: "'x option"
    by (simp add: io_def)
  show "ack_packet p \<noteq> Panic"
    using assms by (simp add: ack_packet_def outcome_simps Let_def split: option.splits list.splits)
  show "into_s2cinit p \<noteq> Panic" "into_c2sinit p \<noteq> Panic"
    using assms io
    by (auto simp: into_s2cinit_def into_c2sinit_def outcome_simps Let_def bind_out_eq_Panic_iff
        split: if_splits)
qed



text \<open>
  A new-protocol whisper without a payload is a packet \<open>OutAudio::new\<close> can write and the parser
  refuses: the length check asks for 14 bytes although the payload starts at offset 13.
\<close>

theorem whisper_new_empty_rejected:
  "audio_parse VoiceWhisper True C2S
     (write_be16 i @ audio_body (AudioC2SWhisperNew i codec wt t tid [])) =
   Err (PacketContentTooShort 13)"
proof -
  have "codec_at (write_be16 i @ audio_body (AudioC2SWhisperNew i codec wt t tid [])) 2 = Ok codec"
    using codec_at_hit [of "write_be16 i" 2 codec "wt # t # write_be64 tid"] by simp
  then show ?thesis
    by (simp add: audio_parse_def outcome_simps)
qed

end
