(* ===== verification/Packet_Ids.thy ===== *)
theory Packet_Ids
  imports Packets
begin

text \<open>
  Packet numbering: \<open>PartialPacketId\<close>, \<open>PacketId\<close> and \<open>SendRecordId\<close> of
  \<open>tsproto/src/resend.rs\<close> with their orders and arithmetic, and the receive window
  (\<open>Connection::in_receive_window\<close>, \<open>tsproto/src/connection.rs\<close>). The 16-bit id of a packet and
  the 32-bit generation that counts its wrap-arounds together are one 48-bit packet number
  (\<open>ppid_val\<close>); the lemmas relate every operation to that number. Instants are nanosecond counts.
  Integer overflow is the wrap-around of the release profile.
\<close>

section \<open>Partial packet ids\<close>

datatype partial_packet_id = PartialPacketId (generation_id: u32) (packet_id: u16)

instantiation partial_packet_id :: linorder
begin

definition less_eq_partial_packet_id :: "partial_packet_id \<Rightarrow> partial_packet_id \<Rightarrow> bool" where
  "less_eq_partial_packet_id a b \<longleftrightarrow>
     generation_id a < generation_id b \<or>
     generation_id a = generation_id b \<and> packet_id a \<le> packet_id b"

definition less_partial_packet_id :: "partial_packet_id \<Rightarrow> partial_packet_id \<Rightarrow> bool" where
  "less_partial_packet_id a b \<longleftrightarrow>
     generation_id a < generation_id b \<or>
     generation_id a = generation_id b \<and> packet_id a < packet_id b"

instance
  by standard
    (auto simp: less_eq_partial_packet_id_def less_partial_packet_id_def
      intro: partial_packet_id.expand)

end

text \<open>\<open>Default\<close>: generation 0, id 0.\<close>

definition ppid_default :: partial_packet_id where
  "ppid_default = PartialPacketId 0 0"

definition ppid_add :: "partial_packet_id \<Rightarrow> u16 \<Rightarrow> partial_packet_id" where
  "ppid_add p rhs =
     (let (i, next_gen) = overflowing_add16 (packet_id p) rhs
      in PartialPacketId (if next_gen then generation_id p + 1 else generation_id p) i)"

definition ppid_sub :: "partial_packet_id \<Rightarrow> u16 \<Rightarrow> partial_packet_id" where
  "ppid_sub p rhs =
     (let (i, last_gen) = overflowing_sub16 (packet_id p) rhs
      in PartialPacketId (if last_gen then generation_id p - 1 else generation_id p) i)"

text \<open>
  The difference of two ids as an \<open>i64\<close>. The operands stay below 2 to the 48, so the 64-bit
  arithmetic does not overflow and is written on \<open>int\<close>. A generation counts for \<open>u16::MAX\<close>.
\<close>

definition ppid_diff :: "partial_packet_id \<Rightarrow> partial_packet_id \<Rightarrow> int" where
  "ppid_diff a b =
     (let gen_diff = int (unat (generation_id a)) - int (unat (generation_id b));
          id_diff = int (unat (packet_id a)) - int (unat (packet_id b))
      in gen_diff * 65535 + id_diff)"

text \<open>The packet number.\<close>

definition ppid_val :: "partial_packet_id \<Rightarrow> nat" where
  "ppid_val p = unat (generation_id p) * 65536 + unat (packet_id p)"

lemma ppid_val_div_mod:
  "ppid_val p div 65536 = unat (generation_id p)" "ppid_val p mod 65536 = unat (packet_id p)"
  using u16_bound [of "packet_id p"] by (simp_all add: ppid_val_def)

lemma ppid_val_inj: "ppid_val a = ppid_val b \<longleftrightarrow> a = b"
  by (metis ppid_val_div_mod partial_packet_id.expand word_unat_eq_iff)

lemma ppid_val_bound: "ppid_val p < 281474976710656"
  using u16_bound [of "packet_id p"] u32_bound [of "generation_id p"] by (simp add: ppid_val_def)

lemma ppid_le_iff: "a \<le> b \<longleftrightarrow> ppid_val a \<le> ppid_val b"
proof -
  have "ga * 65536 + ia \<le> gb * 65536 + ib \<longleftrightarrow> ga < gb \<or> ga = gb \<and> ia \<le> ib"
    if "ia < 65536" "ib < 65536" for ga gb ia ib :: nat
    using that by (cases ga gb rule: linorder_cases) auto
  from this [OF u16_bound u16_bound] show ?thesis
    by (simp add: less_eq_partial_packet_id_def ppid_val_def word_less_nat_alt word_le_nat_alt
        word_unat_eq_iff)
qed

lemma ppid_less_iff: "a < b \<longleftrightarrow> ppid_val a < ppid_val b"
  using ppid_le_iff [of b a] by (simp add: not_le [symmetric])

lemma unat_add_u32: "unat (a + b :: u32) = (unat a + unat b) mod 4294967296"
  by (simp add: unat_word_ariths)

lemma of_nat_unat_id: "of_nat (unat x) = x"
  by simp

lemma mod_2_48:
  "(m::nat) < 65536 \<Longrightarrow>
     (x * 65536 + m) mod 281474976710656 = x mod 4294967296 * 65536 + m"
  using mod_mult2_eq [of "x * 65536 + m" 65536 4294967296] by simp

lemma ppid_val_add: "ppid_val (ppid_add p n) = (ppid_val p + unat n) mod 281474976710656"
proof -
  let ?g = "unat (generation_id p)" and ?i = "unat (packet_id p)" and ?n = "unat n"
  have b: "?i < 65536" "?n < 65536" "?g < 4294967296"
    by (rule u16_bound u32_bound)+
  show ?thesis
  proof (cases "?i + ?n < 65536")
    case True
    then show ?thesis
      using b by (simp add: ppid_val_def ppid_add_def overflowing_add16_def unat_add_u16)
  next
    case False
    then have "(?i + ?n) mod 65536 = ?i + ?n - 65536"
      using b by (simp add: mod_if)
    then have "ppid_val (ppid_add p n) = (?g + 1) mod 4294967296 * 65536 + (?i + ?n - 65536)"
      using False
      by (simp add: ppid_val_def ppid_add_def overflowing_add16_def unat_add_u16 unat_add_u32)
    also have "\<dots> = ((?g + 1) * 65536 + (?i + ?n - 65536)) mod 281474976710656"
      by (rule mod_2_48 [symmetric]) (use b in simp)
    also have "(?g + 1) * 65536 + (?i + ?n - 65536) = ppid_val p + ?n"
      using False by (simp add: ppid_val_def)
    finally show ?thesis .
  qed
qed

lemma add_overflow_iff: "unat (a + b :: u16) < unat b \<longleftrightarrow> 65536 \<le> unat a + unat b"
  using u16_bound [of a] u16_bound [of b]
  by (cases "unat a + unat b < 65536") (auto simp: unat_add_u16 mod_if)

lemma sub_borrow_iff: "65536 \<le> unat (a - b :: u16) + unat b \<longleftrightarrow> unat a < unat b"
  using u16_bound [of a] u16_bound [of b] by (simp add: unat_sub_u16)

lemma ppid_add_sub: "ppid_sub (ppid_add p n) n = p"
  by (simp add: ppid_add_def ppid_sub_def overflowing_add16_def overflowing_sub16_def
      add_overflow_iff)

lemma ppid_sub_add: "ppid_add (ppid_sub p n) n = p"
  by (simp add: ppid_add_def ppid_sub_def overflowing_add16_def overflowing_sub16_def
      sub_borrow_iff)

lemma ppid_diff_val:
  "ppid_diff a b = int (ppid_val a) - int (ppid_val b)
     - (int (unat (generation_id a)) - int (unat (generation_id b)))"
  by (simp add: ppid_diff_def ppid_val_def Let_def algebra_simps)

section \<open>Packet ids and send records\<close>

datatype packet_ident = PacketId (pid_type: packet_type) (pid_part: partial_packet_id)

datatype ordering = Less | Equal | Greater

fun reverse_ordering :: "ordering \<Rightarrow> ordering" where
  "reverse_ordering Less = Greater"
| "reverse_ordering Equal = Equal"
| "reverse_ordering Greater = Less"

fun then_with :: "ordering \<Rightarrow> ordering \<Rightarrow> ordering" where
  "then_with Equal o2 = o2"
| "then_with o1 _ = o1"

definition cmp :: "'a::linorder \<Rightarrow> 'a \<Rightarrow> ordering" where
  "cmp a b = (if a < b then Less else if a = b then Equal else Greater)"

text \<open>\<open>Ord for PartialPacketId\<close>, which is the order of the type class instance above.\<close>

definition ppid_cmp :: "partial_packet_id \<Rightarrow> partial_packet_id \<Rightarrow> ordering" where
  "ppid_cmp a b =
     then_with (cmp (generation_id a) (generation_id b)) (cmp (packet_id a) (packet_id b))"

lemma ppid_cmp_eq: "ppid_cmp a b = cmp a b"
  by (auto simp: ppid_cmp_def cmp_def less_partial_packet_id_def intro: partial_packet_id.expand)

lemma cmp_ppid_val: "cmp a b = cmp (ppid_val a) (ppid_val b)"
  by (simp add: cmp_def ppid_less_iff ppid_val_inj)

text \<open>Ids of different packet types are not comparable.\<close>

definition pid_partial_cmp :: "packet_ident \<Rightarrow> packet_ident \<Rightarrow> ordering option" where
  "pid_partial_cmp a b =
     (if pid_type a = pid_type b then Some (ppid_cmp (pid_part a) (pid_part b)) else None)"

definition pid_le :: "packet_ident \<Rightarrow> packet_ident \<Rightarrow> bool" where
  "pid_le a b \<longleftrightarrow> pid_partial_cmp a b \<in> {Some Less, Some Equal}"

type_synonym instant = nat
type_synonym duration = nat

datatype send_record_id = SendRecordId (sr_last: instant) (sr_tries: nat) (sr_id: packet_ident)

text \<open>
  \<open>Ord for SendRecordId\<close>: the greater record is sent first. Unsent packets come before sent ones,
  then the one not sent for longest, then the lower packet id.
\<close>

definition srid_cmp :: "send_record_id \<Rightarrow> send_record_id \<Rightarrow> ordering" where
  "srid_cmp a b =
     (let rest = then_with (reverse_ordering (cmp (sr_last a) (sr_last b)))
                   (reverse_ordering (ppid_cmp (pid_part (sr_id a)) (pid_part (sr_id b))))
      in if sr_tries a = 0 then (if sr_tries b \<noteq> 0 then Greater else rest)
         else if sr_tries b = 0 then Less else rest)"

definition srid_key :: "send_record_id \<Rightarrow> nat \<times> instant \<times> nat" where
  "srid_key a = (if sr_tries a = 0 then 0 else 1, sr_last a, ppid_val (pid_part (sr_id a)))"

fun key_less :: "nat \<times> nat \<times> nat \<Rightarrow> nat \<times> nat \<times> nat \<Rightarrow> bool" where
  "key_less (a, b, c) (a', b', c') \<longleftrightarrow> a < a' \<or> a = a' \<and> (b < b' \<or> b = b' \<and> c < c')"

lemma srid_cmp_key:
  "srid_cmp a b =
     (if key_less (srid_key a) (srid_key b) then Greater
      else if srid_key a = srid_key b then Equal else Less)"
  by (cases "sr_tries a = 0"; cases "sr_tries b = 0")
    (auto simp: srid_cmp_def srid_key_def ppid_cmp_eq cmp_def ppid_less_iff ppid_val_inj Let_def)

section \<open>The receive window\<close>

text \<open>
  \<open>in_receive_window\<close> on the next expected id of the packet's type: whether the id is inside the
  window, the packet's generation, the next expected id and the end of the window.
\<close>

definition in_receive_window ::
  "partial_packet_id \<Rightarrow> packet_type \<Rightarrow> u16 \<Rightarrow> bool \<times> u32 \<times> u16 \<times> u16" where
  "in_receive_window expected p_type p_id =
     (if p_type = Init then (True, 0, 0, 0)
      else
        let cur_next = packet_id expected;
            (limit, next_gen) = overflowing_add16 cur_next 32767;
            gen = generation_id expected;
            in_recv_win = (\<not> next_gen \<and> cur_next \<le> p_id \<and> p_id < limit) \<or>
                          (next_gen \<and> (cur_next \<le> p_id \<or> p_id < limit));
            gen_id = (if in_recv_win then (if next_gen \<and> p_id < limit then gen + 1 else gen)
                      else if p_id < cur_next then gen
                      else gen - 1)
        in (in_recv_win, gen_id, cur_next, limit))"

text \<open>The window is the next 32767 ids after the expected one, across the wrap-around.\<close>

lemma in_receive_window_iff:
  assumes "t \<noteq> Init"
  shows "fst (in_receive_window e t i) \<longleftrightarrow> unat (i - packet_id e) < 32767"
proof -
  let ?c = "unat (packet_id e)" and ?i = "unat i"
  have b: "?c < 65536" "?i < 65536"
    by (rule u16_bound)+
  have l: "unat (packet_id e + 32767) = (if ?c + 32767 < 65536 then ?c + 32767 else ?c - 32769)"
    using b by (simp add: unat_add_u16 mod_if)
  show ?thesis
    using assms b l
    by (auto simp: in_receive_window_def overflowing_add16_def Let_def word_le_nat_alt
        word_less_nat_alt unat_sub_u16 split: if_splits)
qed

text \<open>The two halves of the numbers around the expected one, in terms of the distance to it.\<close>

lemma window_ahead:
  assumes t: "t \<noteq> Init" and d: "d < 32767" and i: "i = packet_id e + of_nat d"
  shows "in_receive_window e t i =
    (True, if 65536 \<le> unat (packet_id e) + d then generation_id e + 1 else generation_id e,
      packet_id e, packet_id e + 32767)"
proof -
  let ?c = "unat (packet_id e)"
  have c: "?c < 65536" by (rule u16_bound)
  have ui: "unat i = (if ?c + d < 65536 then ?c + d else ?c + d - 65536)"
    using c d by (simp add: i unat_add_u16 unat_of_nat mod_if)
  have l: "unat (packet_id e + 32767) = (if ?c + 32767 < 65536 then ?c + 32767 else ?c - 32769)"
    using c by (simp add: unat_add_u16 mod_if)
  show ?thesis
    using t d c ui l
    by (auto simp: in_receive_window_def overflowing_add16_def Let_def word_le_nat_alt
        word_less_nat_alt split: if_splits)
qed

lemma window_behind:
  assumes t: "t \<noteq> Init" and d: "0 < d" "d \<le> 32769" and i: "i = packet_id e - of_nat d"
  shows "in_receive_window e t i =
    (False, if unat (packet_id e) < d then generation_id e - 1 else generation_id e,
      packet_id e, packet_id e + 32767)"
proof -
  let ?c = "unat (packet_id e)"
  have c: "?c < 65536" by (rule u16_bound)
  have ui: "unat i = (if d \<le> ?c then ?c - d else 65536 + ?c - d)"
    using c d by (simp add: i unat_sub_u16 unat_of_nat)
  have l: "unat (packet_id e + 32767) = (if ?c + 32767 < 65536 then ?c + 32767 else ?c - 32769)"
    using c by (simp add: unat_add_u16 mod_if)
  show ?thesis
    using t d c ui l
    by (auto simp: in_receive_window_def overflowing_add16_def Let_def word_le_nat_alt
        word_less_nat_alt split: if_splits)
qed

lemma ppid_val_generation: "of_nat (ppid_val e div 65536) = generation_id e"
  by (simp add: ppid_val_div_mod)

lemma of_nat_ppid_val: "(of_nat (ppid_val e) :: u16) = packet_id e"
proof -
  have "(65536 :: u16) = 0" by simp
  then show ?thesis
    by (simp only: ppid_val_def of_nat_add of_nat_mult of_nat_numeral mult_zero_right
        of_nat_unat_id add_0)
qed

lemma generation_after:
  "(of_nat ((ppid_val e + d) div 65536) :: u32) =
     generation_id e + of_nat ((unat (packet_id e) + d) div 65536)"
proof -
  have "ppid_val e + d = (unat (packet_id e) + d) + unat (generation_id e) * 65536"
    by (simp add: ppid_val_def)
  then have "(ppid_val e + d) div 65536 = unat (generation_id e) + (unat (packet_id e) + d) div 65536"
    by (metis div_mult_self1 add.commute zero_neq_numeral)
  then show ?thesis by simp
qed

lemma generation_before:
  assumes "d \<le> ppid_val e" "d \<le> 65536"
  shows "(of_nat ((ppid_val e - d) div 65536) :: u32) =
    (if unat (packet_id e) < d then generation_id e - 1 else generation_id e)"
proof (cases "unat (packet_id e) < d")
  case True
  have c: "unat (packet_id e) < 65536" by (rule u16_bound)
  from True assms have "0 < unat (generation_id e)"
    by (auto simp: ppid_val_def intro: gr0I)
  then obtain g where g: "unat (generation_id e) = Suc g"
    using gr0_implies_Suc by blast
  have "ppid_val e - d = 65536 + unat (packet_id e) - d + g * 65536"
    using True assms by (simp add: ppid_val_def g)
  then have "(ppid_val e - d) div 65536 = g"
    using True c by simp
  moreover have "of_nat g = generation_id e - 1"
    by (metis g add_diff_cancel_left' of_nat_Suc of_nat_unat_id)
  ultimately show ?thesis using True by simp
next
  case False
  have c: "unat (packet_id e) < 65536" by (rule u16_bound)
  from False obtain k where k: "unat (packet_id e) = k + d"
    by (metis add.commute le_Suc_ex not_less)
  then have "ppid_val e - d = k + unat (generation_id e) * 65536"
    by (simp add: ppid_val_def)
  then have "(ppid_val e - d) div 65536 = unat (generation_id e)"
    using k c by simp
  then show ?thesis using False by simp
qed

section \<open>Properties\<close>

text \<open>
  C19: Packet ids count. The order of ids is the order of the 48-bit packet numbers, \<open>+ n\<close> adds to the
  number (wrapping after the last generation), and \<open>- n\<close> undoes \<open>+ n\<close> and the other way round.
\<close>

theorem packet_ids_count:
  "ppid_cmp a b = cmp (ppid_val a) (ppid_val b) \<and>
   (a \<le> b \<longleftrightarrow> ppid_val a \<le> ppid_val b) \<and> (a < b \<longleftrightarrow> ppid_val a < ppid_val b) \<and>
   ppid_val (ppid_add a n) = (ppid_val a + unat n) mod 2 ^ 48 \<and>
   ppid_sub (ppid_add a n) n = a \<and> ppid_add (ppid_sub a n) n = a"
  by (simp add: ppid_cmp_eq cmp_ppid_val ppid_le_iff ppid_less_iff ppid_val_add ppid_add_sub
      ppid_sub_add)

text \<open>
  C14: The receive window recovers the full number of a packet from its 16-bit id. When the packet
  number is among the 32767 from the expected one on, the id is in the window and the generation
  found is the packet's; when it is among the 32769 numbers before the expected one (a packet that
  was received already), the id is outside the window and the generation found is still the
  packet's, also across a wrap-around.
\<close>

theorem receive_window_recovers_number:
  assumes "t \<noteq> Init" and "N < 2 ^ 48" and "ppid_val e \<le> N + 32769" and "N < ppid_val e + 32767"
  shows "in_receive_window e t (of_nat N) =
    (ppid_val e \<le> N, of_nat (N div 65536), packet_id e, packet_id e + 32767)"
proof (cases "ppid_val e \<le> N")
  case True
  define d where "d = N - ppid_val e"
  have N: "N = ppid_val e + d" and d: "d < 32767"
    using True assms(4) by (auto simp: d_def)
  have "unat (packet_id e) < 65536" by (rule u16_bound)
  then have "(unat (packet_id e) + d) div 65536 = (if 65536 \<le> unat (packet_id e) + d then 1 else 0)"
    using d by (auto simp: div_if)
  then show ?thesis
    using window_ahead [OF assms(1) d, of "of_nat N" e] True
    by (simp add: N of_nat_ppid_val generation_after del: of_nat_add flip: of_nat_add)
      (simp add: of_nat_ppid_val)
next
  case False
  define d where "d = ppid_val e - N"
  have N: "N = ppid_val e - d" and d: "0 < d" "d \<le> 32769" "d \<le> ppid_val e"
    using False assms(3) by (auto simp: d_def)
  have "(of_nat N :: u16) = packet_id e - of_nat d"
    using d(3) by (simp add: N of_nat_diff of_nat_ppid_val)
  then show ?thesis
    using window_behind [OF assms(1) d(1,2), of "of_nat N" e] False generation_before [OF d(3)] d
    by (simp add: N)
qed

theorem receive_window_recovers_number_witness:
  "in_receive_window (PartialPacketId 7 0xfffe) Command (of_nat (8 * 65536 + 5)) =
     (True, 8, 0xfffe, 0x7ffd) \<and>
   in_receive_window (PartialPacketId 7 3) Command (of_nat (6 * 65536 + 0xfff0)) =
     (False, 6, 3, 0x8002)"
  using receive_window_recovers_number [of Command "8 * 65536 + 5" "PartialPacketId 7 0xfffe"]
    receive_window_recovers_number [of Command "6 * 65536 + 0xfff0" "PartialPacketId 7 3"]
  by (simp add: ppid_val_def)

text \<open>
  C35: The send queue's order is total and transitive: comparing the other way round reverses the
  result, a chain of ``sent before'' is transitive, and a record that was never sent goes before
  every record that was.
\<close>

theorem send_order_total:
  "srid_cmp b a = reverse_ordering (srid_cmp a b) \<and>
   (srid_cmp a b = Greater \<and> srid_cmp b c = Greater \<longrightarrow> srid_cmp a c = Greater) \<and>
   (sr_tries a = 0 \<and> sr_tries b \<noteq> 0 \<longrightarrow> srid_cmp a b = Greater)"
proof -
  obtain a1 a2 a3 b1 b2 b3 c1 c2 c3
    where k: "srid_key a = (a1, a2, a3)" "srid_key b = (b1, b2, b3)" "srid_key c = (c1, c2, c3)"
    by (metis prod_cases3)
  have "srid_cmp b a = reverse_ordering (srid_cmp a b)"
    by (auto simp: srid_cmp_key k)
  moreover have "srid_cmp a b = Greater \<and> srid_cmp b c = Greater \<longrightarrow> srid_cmp a c = Greater"
    by (auto simp: srid_cmp_key k split: if_splits)
  moreover have "sr_tries a = 0 \<and> sr_tries b \<noteq> 0 \<longrightarrow> srid_cmp a b = Greater"
    by (simp add: srid_cmp_def)
  ultimately show ?thesis by blast
qed

theorem send_order_total_witness:
  "srid_cmp (SendRecordId 9 0 (PacketId Command ppid_default))
     (SendRecordId 5 1 (PacketId Command ppid_default)) = Greater"
  using send_order_total [of "SendRecordId 5 1 (PacketId Command ppid_default)"
      "SendRecordId 9 0 (PacketId Command ppid_default)"]
  by simp

text \<open>
  The difference of two ids counts a generation as 65535 ids: consecutive ids differ by one,
  except at the wrap-around of the 16-bit id, where they differ by zero.
\<close>

theorem ppid_diff_successor:
  "ppid_diff (ppid_add p 1) p =
     (if packet_id p \<noteq> 0xffff then 1
      else if generation_id p \<noteq> 0xffffffff then 0 else - 281470681743360)"
proof -
  let ?i = "unat (packet_id p)" and ?g = "unat (generation_id p)"
  have b: "?i < 65536" "?g < 4294967296"
    by (rule u16_bound u32_bound)+
  have i: "packet_id p = 0xffff \<longleftrightarrow> ?i = 65535"
    by (simp add: word_unat_eq_iff)
  have g: "generation_id p = 0xffffffff \<longleftrightarrow> ?g = 4294967295"
    by (simp add: word_unat_eq_iff)
  have gs: "unat (generation_id (ppid_add p 1)) =
      (if ?i = 65535 then (if ?g = 4294967295 then 0 else ?g + 1) else ?g)"
    using b by (simp add: ppid_add_def overflowing_add16_def unat_add_u32 mod_if)
  have ix: "unat (packet_id (ppid_add p 1)) = (if ?i = 65535 then 0 else ?i + 1)"
    using b by (simp add: ppid_add_def overflowing_add16_def unat_add_u16 mod_if)
  have "(int (if m = 65535 then (if n = 4294967295 then 0 else n + 1) else n) - int n) * 65535 +
      (int (if m = 65535 then 0 else m + 1) - int m) =
      (if m \<noteq> 65535 then 1 else if n \<noteq> 4294967295 then 0 else - 281470681743360)"
    for m n :: nat
    by auto
  then show ?thesis
    unfolding ppid_diff_def Let_def gs ix i g by blast
qed

end
