(* ===== verification/Algorithms.thy ===== *)
theory Algorithms
  imports Packet_Ids
begin

text \<open>
  \<open>tsproto/src/algorithms.rs\<close> and the constants and error type of \<open>tsproto/src/lib.rs\<close>: which
  packets are encrypted, compression and splitting, the key and nonce of a packet with their cache,
  packet encryption and decryption, the shared iv and mac, and hash cash. The hash functions, the
  EAX cipher, the QuickLZ compressor and the curve arithmetic are crates outside the repository:
  they are arguments of the definitions.
\<close>

section \<open>Constants and errors of the crate\<close>

definition MAX_UDP_PACKET_LENGTH :: nat where "MAX_UDP_PACKET_LENGTH = 1500"
definition MAX_FRAGMENTS_LENGTH :: nat where "MAX_FRAGMENTS_LENGTH = 40960"
definition MAX_QUEUE_LEN :: u16 where "MAX_QUEUE_LEN = 200"
definition MAX_DECOMPRESSED_SIZE :: nat where "MAX_DECOMPRESSED_SIZE = 2 * 1024 * 1024"
definition FAKE_KEY :: bytes where "FAKE_KEY = bstr (''c:'' @ [CHR 0x5C] @ ''windows'' @ [CHR 0x5C] @ ''syste'')"
definition FAKE_NONCE :: bytes where "FAKE_NONCE = bstr (''m'' @ [CHR 0x5C] @ ''firewall32.cpl'')"
definition UDP_SINK_CAPACITY :: nat where "UDP_SINK_CAPACITY = 50"

text \<open>\<open>tsproto::Error\<close>; the wrapped errors of other crates are not represented.\<close>

datatype ts_error =
    CreateAck packet_error
  | DecompressPacket
  | IdentityCrypto
  | InvalidHex
  | MaxLengthExceeded string
  | Network
  | NotInReceiveWindow u16 u16 u16 packet_type
  | PacketParse string packet_error
  | Timeout string
  | UnallowedUnencryptedPacket
  | UnexpectedInitPacket
  | WrongClientId u16
  | WrongAddress
  | WrongMac packet_type u32 u16

section \<open>Which packets are encrypted\<close>

fun must_encrypt :: "packet_type \<Rightarrow> bool" where
  "must_encrypt Command = True"
| "must_encrypt CommandLow = True"
| "must_encrypt _ = False"

definition should_encrypt :: "packet_type \<Rightarrow> bool \<Rightarrow> bool" where
  "should_encrypt t voice_encryption \<longleftrightarrow>
     must_encrypt t \<or> t = Ack \<or> t = AckLow \<or> (voice_encryption \<and> is_voice t)"

section \<open>Compression and splitting\<close>

text \<open>
  The \<open>while data.len() > max_size\<close> loop with the rest after it. The maximum is at least 487 at the
  only call.
\<close>

function split_loop :: "nat \<Rightarrow> bytes \<Rightarrow> bytes list" where
  "split_loop max_size d =
     (if max_size < length d \<and> 0 < max_size
      then take max_size d # split_loop max_size (drop max_size d)
      else [d])"
  by auto
termination
  by (relation "measure (\<lambda>(_, d). length d)") auto

declare split_loop.simps [simp del]

text \<open>The header of the original packet before each piece, with the flags of its position.\<close>

definition make_fragment ::
  "direction \<Rightarrow> bytes \<Rightarrow> bool \<Rightarrow> nat \<Rightarrow> nat \<times> bytes \<Rightarrow> out_packet" where
  "make_fragment dir orig_header compressed len = (\<lambda>(i, d).
     let fragmented = 1 < len;
         p = out_new_from_data dir (splice 0 orig_header d);
         p = (if i = 0 \<and> compressed
              then set_flags (hdr_flags (out_header p) OR COMPRESSED) p else p)
     in if fragmented \<and> (i = 0 \<or> i = len - 1)
        then set_flags (hdr_flags (out_header p) OR FRAGMENTED) p else p)"

definition compress_and_split ::
  "(bytes \<Rightarrow> bytes) \<Rightarrow> bool \<Rightarrow> out_packet \<Rightarrow> ('e, out_packet list) outcome" where
  "compress_and_split compress is_client packet =
     (let header_size = (if is_client then C2S_HEADER_LEN else S2C_HEADER_LEN);
          data = out_content packet;
          max_size = 500 - header_size
      in if max_size < length data then
           let cdata = compress data;
               compressed = (\<not> length data < length cdata);
               data = (if compressed then cdata else data)
           in bind_out
                (if length data \<le> max_size then Ok [replicate header_size 0 @ data]
                 else bind_out (unwrap (hdr_packet_type (out_header packet))) (\<lambda>t.
                   if t = VoiceWhisper then Ok [replicate header_size 0 @ data]
                   else Ok (map (\<lambda>v. replicate header_size 0 @ v) (split_loop max_size data))))
                (\<lambda>datas.
                   if length (header_bytes packet) \<noteq> header_size then Panic
                   else Ok (map (make_fragment (out_dir packet) (header_bytes packet) compressed
                              (length datas)) (enumerate 0 datas)))
         else Ok [packet])"

section \<open>Key and nonce of a packet\<close>

record cached_key =
  ck_generation_id :: u32
  ck_key :: bytes
  ck_nonce :: bytes

definition cached_key_default :: cached_key where
  "cached_key_default =
     \<lparr>ck_generation_id = 0xffffffff, ck_key = replicate 16 0, ck_nonce = replicate 16 0\<rparr>"

text \<open>The cache is indexed by packet type and by whether the packet has a client id.\<close>

type_synonym key_cache = "cached_key list list"

definition key_cache_default :: key_cache where
  "key_cache_default = replicate 8 (replicate 2 cached_key_default)"

definition keynonce_input :: "packet_type \<Rightarrow> u16 option \<Rightarrow> u32 \<Rightarrow> bytes \<Rightarrow> bytes" where
  "keynonce_input p_type c_id gen iv =
     [if c_id \<noteq> None then 0x31 else 0x30, packet_type_to_u8 p_type] @ write_be32 gen @ iv"

definition create_key_nonce ::
  "(bytes \<Rightarrow> bytes) \<Rightarrow> packet_type \<Rightarrow> u16 option \<Rightarrow> u16 \<Rightarrow> u32 \<Rightarrow> bytes \<Rightarrow> key_cache
     \<Rightarrow> ('e, (bytes \<times> bytes) \<times> key_cache) outcome" where
  "create_key_nonce sha256 p_type c_id p_id gen iv cache =
     (let ti = type_index p_type; ci = (if c_id \<noteq> None then 1 else 0) in
      bind_out (index cache ti) (\<lambda>row.
      bind_out (index row ci) (\<lambda>entry.
        let entry = (if ck_generation_id entry \<noteq> gen then
                       let keynonce = sha256 (keynonce_input p_type c_id gen iv)
                       in \<lparr>ck_generation_id = gen, ck_key = take 16 keynonce,
                           ck_nonce = drop 16 keynonce\<rparr>
                     else entry);
            k = ck_key entry;
            k = k[0 := k ! 0 XOR ucast (drop_bit 8 p_id)];
            k = k[1 := k ! 1 XOR ucast (p_id AND 0xff)]
        in Ok ((k, ck_nonce entry), cache[ti := row[ci := entry]]))))"

section \<open>Encryption of packets\<close>

text \<open>
  \<open>enc key nonce meta content\<close> and \<open>dec key nonce meta content mac\<close> are EAX with AES-128 and an
  8-byte tag.
\<close>

type_synonym eax_enc = "bytes \<Rightarrow> bytes \<Rightarrow> bytes \<Rightarrow> bytes \<Rightarrow> (bytes \<times> bytes) option"
type_synonym eax_dec = "bytes \<Rightarrow> bytes \<Rightarrow> bytes \<Rightarrow> bytes \<Rightarrow> bytes \<Rightarrow> bytes option"

text \<open>The in-place update of a packet's content, of the same length.\<close>

definition set_content :: "bytes \<Rightarrow> out_packet \<Rightarrow> out_packet" where
  "set_content c p = p\<lparr>out_data := splice (content_offset p) c (out_data p)\<rparr>"

definition encrypt_key_nonce ::
  "eax_enc \<Rightarrow> out_packet \<Rightarrow> bytes \<times> bytes \<Rightarrow> (ts_error, out_packet) outcome" where
  "encrypt_key_nonce enc packet kn =
     (case enc (fst kn) (snd kn) (get_meta (out_header packet)) (out_content packet) of
        None \<Rightarrow> Err (MaxLengthExceeded ''encryption data'')
      | Some (c, mac) \<Rightarrow> Ok (set_mac mac (set_content c packet)))"

definition encrypt_fake :: "eax_enc \<Rightarrow> out_packet \<Rightarrow> (ts_error, out_packet) outcome" where
  "encrypt_fake enc packet = encrypt_key_nonce enc packet (FAKE_KEY, FAKE_NONCE)"

definition encrypt ::
  "(bytes \<Rightarrow> bytes) \<Rightarrow> eax_enc \<Rightarrow> out_packet \<Rightarrow> u32 \<Rightarrow> bytes \<Rightarrow> key_cache
     \<Rightarrow> (ts_error, out_packet \<times> key_cache) outcome" where
  "encrypt sha256 enc packet gen iv cache =
     (let h = out_header packet in
      bind_out (unwrap (hdr_packet_type h)) (\<lambda>t.
      bind_out (create_key_nonce sha256 t (hdr_client_id h) (hdr_packet_id h) gen iv cache)
        (\<lambda>(kn, cache). bind_out (encrypt_key_nonce enc packet kn) (\<lambda>p. Ok (p, cache)))))"

definition decrypt_key_nonce ::
  "eax_dec \<Rightarrow> in_packet \<Rightarrow> bytes \<times> bytes \<Rightarrow> (ts_error, bytes) outcome" where
  "decrypt_key_nonce dec packet kn =
     (let h = pkt_header packet in
      case dec (fst kn) (snd kn) (get_meta h) (pkt_content packet) (hdr_mac h) of
        Some content \<Rightarrow> Ok content
      | None \<Rightarrow> bind_out (unwrap (hdr_packet_type h)) (\<lambda>t. Err (WrongMac t 0 (hdr_packet_id h))))"

definition decrypt_fake :: "eax_dec \<Rightarrow> in_packet \<Rightarrow> (ts_error, bytes) outcome" where
  "decrypt_fake dec packet = decrypt_key_nonce dec packet (FAKE_KEY, FAKE_NONCE)"

fun with_generation :: "u32 \<Rightarrow> ts_error \<Rightarrow> ts_error" where
  "with_generation gen (WrongMac t _ pid) = WrongMac t gen pid"
| "with_generation gen e = e"

text \<open>The cache is updated also when the decryption fails.\<close>

definition decrypt ::
  "(bytes \<Rightarrow> bytes) \<Rightarrow> eax_dec \<Rightarrow> in_packet \<Rightarrow> u32 \<Rightarrow> bytes \<Rightarrow> key_cache
     \<Rightarrow> (ts_error, (ts_error, bytes) outcome \<times> key_cache) outcome" where
  "decrypt sha256 dec packet gen iv cache =
     (let h = pkt_header packet in
      bind_out (unwrap (hdr_packet_type h)) (\<lambda>t.
      bind_out (create_key_nonce sha256 t (hdr_client_id h) (hdr_packet_id h) gen iv cache)
        (\<lambda>(kn, cache). Ok (map_err (with_generation gen) (decrypt_key_nonce dec packet kn), cache))))"

section \<open>Shared iv and mac\<close>

text \<open>\<open>for i in 0..ys.len() { xs[i + off] ^= ys[i] }\<close>\<close>

definition xor_at :: "nat \<Rightarrow> bytes \<Rightarrow> bytes \<Rightarrow> bytes" where
  "xor_at off ys xs = fold (\<lambda>i xs. xs[i + off := xs ! (i + off) XOR ys ! i]) [0..<length ys] xs"

text \<open>\<open>shared_secret\<close> is the result of \<open>our_key.create_shared_secret(other_key)\<close>.\<close>

definition compute_iv_mac ::
  "(bytes \<Rightarrow> bytes) \<Rightarrow> (bytes \<Rightarrow> bytes) \<Rightarrow> bytes \<Rightarrow> bytes \<Rightarrow> bytes \<Rightarrow> bytes \<times> bytes" where
  "compute_iv_mac sha512 sha1 alpha beta shared_secret =
     (let shared_iv = xor_at 10 beta (xor_at 0 alpha (sha512 shared_secret))
      in (shared_iv, take 8 (sha1 shared_iv)))"

section \<open>Hash cash\<close>

text \<open>The decimal digits of \<open>format!\<close> for an integer.\<close>

fun dec_digits :: "nat \<Rightarrow> bytes" where
  "dec_digits n =
     (if n < 10 then [of_nat (48 + n)] else dec_digits (n div 10) @ [of_nat (48 + n mod 10)])"

declare dec_digits.simps [simp del]

fun trailing_zeros_loop :: "nat \<Rightarrow> u8 \<Rightarrow> nat" where
  "trailing_zeros_loop 0 d = 0"
| "trailing_zeros_loop (Suc n) d = (if bit d 0 then 0 else Suc (trailing_zeros_loop n (drop_bit 1 d)))"

definition trailing_zeros :: "u8 \<Rightarrow> u8" where
  "trailing_zeros d = of_nat (trailing_zeros_loop 8 d)"

text \<open>The loop over the digest; it stops at the first byte that is not zero.\<close>

fun level_loop :: "u8 \<Rightarrow> bytes \<Rightarrow> u8" where
  "level_loop res [] = res"
| "level_loop res (d # ds) = (if d = 0 then level_loop (res + 8) ds else res + trailing_zeros d)"

definition get_hash_cash_level :: "(bytes \<Rightarrow> bytes) \<Rightarrow> bytes \<Rightarrow> u64 \<Rightarrow> u8" where
  "get_hash_cash_level sha1 omega offset = level_loop 0 (sha1 (omega @ dec_digits (unat offset)))"

function hash_cash_loop :: "(bytes \<Rightarrow> bytes) \<Rightarrow> bytes \<Rightarrow> u8 \<Rightarrow> u64 \<Rightarrow> u64" where
  "hash_cash_loop sha1 omega level offset =
     (if offset < 0xffffffffffffffff \<and> get_hash_cash_level sha1 omega offset < level
      then hash_cash_loop sha1 omega level (offset + 1) else offset)"
  by auto
termination
proof (relation "measure (\<lambda>(_, _, _, offset). 2 ^ 64 - unat offset)")
  fix sha1 :: "bytes \<Rightarrow> bytes" and omega level and offset :: u64
  assume "offset < 0xffffffffffffffff \<and> get_hash_cash_level sha1 omega offset < level"
  then have "unat (offset + 1) = unat offset + 1"
    by (simp add: word_less_nat_alt unat_word_ariths)
  with u64_bound [of offset]
  show "((sha1, omega, level, offset + 1), (sha1, omega, level, offset))
      \<in> measure (\<lambda>(_, _, _, offset). 2 ^ 64 - unat offset)"
    by simp
qed auto

declare hash_cash_loop.simps [simp del]

text \<open>\<open>omega\<close> is \<open>key.to_ts()\<close>.\<close>

definition hash_cash :: "(bytes \<Rightarrow> bytes) \<Rightarrow> bytes \<Rightarrow> u8 \<Rightarrow> u64" where
  "hash_cash sha1 omega level = hash_cash_loop sha1 omega level 0"

section \<open>Big integers\<close>

text \<open>\<open>BigUint::to_bytes_le\<close>, which has one byte for zero.\<close>

fun to_bytes_le_loop :: "nat \<Rightarrow> bytes" where
  "to_bytes_le_loop n = (if n = 0 then [] else of_nat n # to_bytes_le_loop (n div 256))"

declare to_bytes_le_loop.simps [simp del]

definition to_bytes_le :: "nat \<Rightarrow> bytes" where
  "to_bytes_le n = (if n = 0 then [0] else to_bytes_le_loop n)"

definition biguint_to_array :: "nat \<Rightarrow> ('e, bytes) outcome" where
  "biguint_to_array i =
     (let v = to_bytes_le i in
      if 64 < length v then Panic else Ok (rev (v @ replicate (64 - length v) 0)))"

definition array_to_biguint :: "bytes \<Rightarrow> nat" where
  "array_to_biguint a = be_val a"

section \<open>Packets in parts\<close>

text \<open>
  A well-formed packet is the bytes before the type byte, the type byte and the content; the
  operations on packets are rewritten to operations on these parts.
\<close>

lemma wf_out_parts:
  assumes "wf_out p"
  obtains h tb c where "p = \<lparr>out_dir = out_dir p, out_data = h @ tb # c\<rparr>"
    and "length h = get_off (out_dir p)"
proof -
  let ?n = "get_off (out_dir p)"
  have n: "?n < length (out_data p)"
    using assms by (simp add: wf_out_def header_len_Suc)
  show ?thesis
  proof (rule that)
    show "p = \<lparr>out_dir = out_dir p,
        out_data = take ?n (out_data p) @ out_data p ! ?n # drop (Suc ?n) (out_data p)\<rparr>"
      using id_take_nth_drop [OF n] by simp
    show "length (take ?n (out_data p)) = ?n"
      using n by simp
  qed
qed

lemma out_parts [simp]:
  assumes "length h = get_off dir"
  shows "out_content \<lparr>out_dir = dir, out_data = h @ tb # c\<rparr> = c"
    and "header_bytes \<lparr>out_dir = dir, out_data = h @ tb # c\<rparr> = h @ [tb]"
    and "out_header \<lparr>out_dir = dir, out_data = h @ tb # c\<rparr> = \<lparr>hdr_direction = dir, hdr_data = h @ [tb]\<rparr>"
    and "set_flags f \<lparr>out_dir = dir, out_data = h @ tb # c\<rparr> =
      \<lparr>out_dir = dir, out_data = h @ ((tb AND 0xf) OR f) # c\<rparr>"
  using assms
  by (simp_all add: out_content_def header_bytes_def out_header_def set_flags_def Let_def
      header_len_Suc nth_append list_update_append)

lemma nibbles: "(b AND 0xf) OR (b AND 0xf0 OR f) = b OR (f :: u8)"
proof -
  have "(b AND 0xf) OR (b AND 0xf0) = b AND (0xf OR 0xf0)"
    by (simp only: bit.conj_disj_distrib)
  also have "(0xf OR 0xf0 :: u8) = - 1" by simp
  finally show ?thesis by (simp flip: or.assoc)
qed

lemma splice_header: "length h = n \<Longrightarrow> splice 0 h (replicate n 0 @ v) = h @ v"
  by (simp add: splice_def)

definition fragment_byte :: "u8 \<Rightarrow> bool \<Rightarrow> nat \<Rightarrow> nat \<Rightarrow> u8" where
  "fragment_byte tb compressed len i =
     (tb OR (if i = 0 \<and> compressed then COMPRESSED else 0))
       OR (if 1 < len \<and> (i = 0 \<or> i = len - 1) then FRAGMENTED else 0)"

lemma make_fragment_parts:
  assumes "length h = get_off dir" "n = header_len dir"
  shows "make_fragment dir (h @ [tb]) compressed len (i, replicate n 0 @ v) =
    \<lparr>out_dir = dir, out_data = h @ fragment_byte tb compressed len i # v\<rparr>"
proof -
  have "splice 0 (h @ [tb]) (replicate n 0 @ v) = h @ tb # v"
    using assms splice_header [of "h @ [tb]" n v] by (simp add: header_len_Suc)
  then show ?thesis
    using assms
    by (auto simp: make_fragment_def fragment_byte_def Let_def out_new_from_data_def nibbles)
qed

section \<open>Splitting\<close>

lemma concat_split_loop: "concat (split_loop m d) = d"
  by (induction m d rule: split_loop.induct) (subst split_loop.simps, simp)

lemma split_loop_nonempty [simp]: "split_loop m d \<noteq> []"
  by (subst split_loop.simps) simp

lemma split_loop_piece_length: "0 < m \<Longrightarrow> v \<in> set (split_loop m d) \<Longrightarrow> length v \<le> m"
proof (induction m d rule: split_loop.induct)
  case (1 m d)
  show ?case
  proof (cases "m < length d")
    case True
    then have "split_loop m d = take m d # split_loop m (drop m d)"
      using \<open>0 < m\<close> by (subst split_loop.simps) simp
    with 1 True show ?thesis by auto
  next
    case False
    then have "split_loop m d = [d]"
      by (subst split_loop.simps) simp
    with 1 False show ?thesis by simp
  qed
qed

lemma length_split_loop: "m < length d \<Longrightarrow> 0 < m \<Longrightarrow> 1 < length (split_loop m d)"
  by (subst split_loop.simps) simp

text \<open>The bytes that are sent for a packet, whether they are compressed, and their pieces.\<close>

definition max_content :: "direction \<Rightarrow> nat" where
  "max_content dir = 500 - header_len dir"

definition wire_compressed :: "(bytes \<Rightarrow> bytes) \<Rightarrow> out_packet \<Rightarrow> bool" where
  "wire_compressed compress p \<longleftrightarrow>
     max_content (out_dir p) < length (out_content p) \<and>
     length (compress (out_content p)) \<le> length (out_content p)"

definition wire_payload :: "(bytes \<Rightarrow> bytes) \<Rightarrow> out_packet \<Rightarrow> bytes" where
  "wire_payload compress p =
     (if wire_compressed compress p then compress (out_content p) else out_content p)"

definition wire_pieces :: "(bytes \<Rightarrow> bytes) \<Rightarrow> out_packet \<Rightarrow> bytes list" where
  "wire_pieces compress p = split_loop (max_content (out_dir p)) (wire_payload compress p)"

definition dir_of :: "bool \<Rightarrow> direction" where
  "dir_of is_client = (if is_client then C2S else S2C)"

lemma max_content_pos: "0 < max_content dir"
  by (cases dir) (simp_all add: max_content_def)

lemma split_loop_small: "length d \<le> m \<Longrightarrow> split_loop m d = [d]"
  by (subst split_loop.simps) simp

lemma fragment_byte_single [simp]: "fragment_byte tb False (Suc 0) 0 = tb"
  by (simp add: fragment_byte_def)

lemma map_enumerate_cong:
  assumes "\<And>i v. f (i, g v) = f' (i, v)"
  shows "map f (enumerate n (map g xs)) = map f' (enumerate n xs)"
  by (induction xs arbitrary: n) (simp_all add: assms)

lemma compress_and_split_parts:
  assumes p: "p = \<lparr>out_dir = dir, out_data = h @ tb # c\<rparr>" and h: "length h = get_off dir"
    and dir: "dir = dir_of is_client"
    and t: "packet_type_from_u8 (tb AND 0xf) = Some t" "t \<noteq> VoiceWhisper"
  shows "compress_and_split compress is_client p =
    Ok (map (\<lambda>(i, v). \<lparr>out_dir = dir, out_data = h @
               fragment_byte tb (wire_compressed compress p) (length (wire_pieces compress p)) i # v\<rparr>)
          (enumerate 0 (wire_pieces compress p)))"
proof -
  have hs: "(if is_client then C2S_HEADER_LEN else S2C_HEADER_LEN) = header_len dir"
    by (simp add: dir dir_of_def header_len_def)
  have lh: "length (h @ [tb]) = header_len dir"
    using h by (simp add: header_len_Suc)
  have hb: "header_bytes p = h @ [tb]"
    "out_content p = c" "out_dir p = dir"
    "hdr_packet_type (out_header p) = Some t"
    using h t by (simp_all add: p)
  let ?m = "max_content dir"
  show ?thesis
  proof (cases "?m < length c")
    case False
    then show ?thesis
      by (simp add: compress_and_split_def Let_def hs hb wire_pieces_def wire_payload_def
          wire_compressed_def max_content_def split_loop_small not_less p [symmetric])
  next
    case True
    define comp where "comp = (\<not> length c < length (compress c))"
    define d where "d = (if comp then compress c else c)"
    have w: "wire_compressed compress p = comp" "wire_payload compress p = d"
      using True by (auto simp: wire_compressed_def wire_payload_def hb comp_def d_def)
    have pieces: "wire_pieces compress p = split_loop ?m d"
      by (simp add: wire_pieces_def w hb)
    have datas: "(if length d \<le> ?m then Ok [replicate (header_len dir) 0 @ d]
        else bind_out (unwrap (Some t)) (\<lambda>t.
          if t = VoiceWhisper then Ok [replicate (header_len dir) 0 @ d]
          else Ok (map (\<lambda>v. replicate (header_len dir) 0 @ v) (split_loop ?m d)))) =
      Ok (map (\<lambda>v. replicate (header_len dir) 0 @ v) (split_loop ?m d))"
      using t by (simp add: split_loop_small)
    have "compress_and_split compress is_client p =
      Ok (map (make_fragment dir (h @ [tb]) comp (length (split_loop ?m d)))
           (enumerate 0 (map (\<lambda>v. replicate (header_len dir) 0 @ v) (split_loop ?m d))))"
      unfolding compress_and_split_def Let_def hs hb max_content_def [symmetric]
        comp_def [symmetric] d_def [symmetric]
      by (simp only: True if_True datas bind_out.simps lh HOL.simp_thms if_False length_map)
    note eq = this
    show ?thesis
      unfolding pieces w eq outcome.inject
      by (rule map_enumerate_cong) (simp only: make_fragment_parts [OF h refl] prod.case)
  qed
qed

section \<open>The key cache\<close>

text \<open>Key and nonce without a cache, and the caches that only hold values derived that way.\<close>

definition fresh_key_nonce ::
  "(bytes \<Rightarrow> bytes) \<Rightarrow> packet_type \<Rightarrow> u16 option \<Rightarrow> u16 \<Rightarrow> u32 \<Rightarrow> bytes \<Rightarrow> bytes \<times> bytes" where
  "fresh_key_nonce sha256 t c_id p_id gen iv =
     (let d = sha256 (keynonce_input t c_id gen iv); k = take 16 d
      in (k[0 := k ! 0 XOR ucast (drop_bit 8 p_id), 1 := k ! 1 XOR ucast (p_id AND 0xff)], drop 16 d))"

definition entry_ok ::
  "(bytes \<Rightarrow> bytes) \<Rightarrow> bytes \<Rightarrow> packet_type \<Rightarrow> u16 option \<Rightarrow> cached_key \<Rightarrow> bool" where
  "entry_ok sha256 iv t c_id e \<longleftrightarrow>
     e = cached_key_default \<or>
     ck_key e = take 16 (sha256 (keynonce_input t c_id (ck_generation_id e) iv)) \<and>
     ck_nonce e = drop 16 (sha256 (keynonce_input t c_id (ck_generation_id e) iv))"

definition cache_ok :: "(bytes \<Rightarrow> bytes) \<Rightarrow> bytes \<Rightarrow> key_cache \<Rightarrow> bool" where
  "cache_ok sha256 iv cache \<longleftrightarrow>
     length cache = 8 \<and> (\<forall>row \<in> set cache. length row = 2) \<and>
     (\<forall>t c_id. t \<noteq> Init \<longrightarrow>
        entry_ok sha256 iv t c_id (cache ! type_index t ! (if c_id \<noteq> None then 1 else 0)))"

lemma keynonce_input_cong:
  "(c = None \<longleftrightarrow> c' = None) \<Longrightarrow> keynonce_input t c gen iv = keynonce_input t c' gen iv"
  by (simp add: keynonce_input_def)

lemma type_index_less: "t \<noteq> Init \<Longrightarrow> type_index t < 8"
  by (cases t) (simp_all add: type_index_def)

lemma type_index_inj: "type_index t = type_index t' \<longleftrightarrow> t = t'"
  by (cases t; cases t') (simp_all add: type_index_def)

lemma cache_ok_default: "cache_ok sha256 iv key_cache_default"
  by (auto simp: cache_ok_def key_cache_default_def entry_ok_def type_index_less
      simp del: replicate.simps)

lemma create_key_nonce_cached:
  assumes "cache_ok sha256 iv cache" "t \<noteq> Init" "gen \<noteq> 0xffffffff"
  shows "\<exists>cache'. create_key_nonce sha256 t c_id p_id gen iv cache =
      Ok (fresh_key_nonce sha256 t c_id p_id gen iv, cache') \<and> cache_ok sha256 iv cache'"
proof -
  let ?i = "type_index t" and ?j = "if c_id \<noteq> None then 1 else 0 :: nat"
  let ?e = "cache ! ?i ! ?j"
  let ?d = "sha256 (keynonce_input t c_id gen iv)"
  define e where "e = (if ck_generation_id ?e \<noteq> gen
    then \<lparr>ck_generation_id = gen, ck_key = take 16 ?d, ck_nonce = drop 16 ?d\<rparr> else ?e)"
  have len: "?i < length cache" "?j < length (cache ! ?i)"
    using assms type_index_less [of t] by (auto simp: cache_ok_def)
  have "entry_ok sha256 iv t c_id ?e"
    using assms by (simp add: cache_ok_def)
  then have e: "ck_key e = take 16 ?d" "ck_nonce e = drop 16 ?d" "ck_generation_id e = gen"
    using assms(3) by (auto simp: e_def entry_ok_def cached_key_default_def)
  have i: "index cache ?i = Ok (cache ! ?i)" "index (cache ! ?i) ?j = Ok ?e"
    using len by (simp_all only: index_def if_True)
  have "create_key_nonce sha256 t c_id p_id gen iv cache =
    Ok (fresh_key_nonce sha256 t c_id p_id gen iv, cache[?i := (cache ! ?i)[?j := e]])"
    unfolding create_key_nonce_def fresh_key_nonce_def Let_def i bind_out.simps e_def [symmetric] e
    by simp
  moreover have "cache_ok sha256 iv (cache[?i := (cache ! ?i)[?j := e]])"
    unfolding cache_ok_def
  proof (intro conjI ballI allI impI)
    show "length (cache[?i := (cache ! ?i)[?j := e]]) = 8"
      using assms by (simp add: cache_ok_def)
    fix row assume "row \<in> set (cache[?i := (cache ! ?i)[?j := e]])"
    then show "length row = 2"
      using assms len set_update_subset_insert by (fastforce simp: cache_ok_def)
  next
    fix t' and c' :: "u16 option" assume "t' \<noteq> Init"
    let ?j' = "if c' \<noteq> None then 1 else 0 :: nat"
    have old: "entry_ok sha256 iv t' c' (cache ! type_index t' ! ?j')"
      using assms \<open>t' \<noteq> Init\<close> by (simp add: cache_ok_def)
    show "entry_ok sha256 iv t' c'
        (cache[?i := (cache ! ?i)[?j := e]] ! type_index t' ! ?j')"
    proof (cases "t' = t \<and> ?j' = ?j")
      case True
      then have "entry_ok sha256 iv t' c' e"
        using keynonce_input_cong [of c_id c' t gen iv]
        by (auto simp: entry_ok_def e split: if_splits)
      then show ?thesis using True len by simp
    next
      case False
      then have "cache[?i := (cache ! ?i)[?j := e]] ! type_index t' ! ?j' = cache ! type_index t' ! ?j'"
        using len by (cases "t' = t") (auto simp: nth_list_update type_index_inj)
      then show ?thesis using old by simp
    qed
  qed
  ultimately show ?thesis by blast
qed

section \<open>Encryption in parts\<close>

text \<open>
  What the code relies on of EAX: decryption inverts encryption, the content keeps its length and
  the tag has 8 bytes.
\<close>

definition eax_contract :: "eax_enc \<Rightarrow> eax_dec \<Rightarrow> bool" where
  "eax_contract enc dec \<longleftrightarrow>
     (\<forall>k n a m c t. enc k n a m = Some (c, t) \<longrightarrow>
        length c = length m \<and> length t = 8 \<and> dec k n a c t = Some m)"

lemma eax_contractD:
  assumes "eax_contract enc dec" "enc k n a m = Some (c, t)"
  shows "length c = length m" "length t = 8" "dec k n a c t = Some m"
  using assms by (auto simp: eax_contract_def)

lemma packet_mac_parts:
  assumes "wf_out p"
  obtains m r tb c where "p = \<lparr>out_dir = out_dir p, out_data = (m @ r) @ tb # c\<rparr>"
    and "length m = 8" and "length (m @ r) = get_off (out_dir p)"
proof -
  from assms obtain h tb c where p: "p = \<lparr>out_dir = out_dir p, out_data = h @ tb # c\<rparr>"
    and h: "length h = get_off (out_dir p)"
    by (rule wf_out_parts)
  have l: "8 \<le> length h"
    using h by (cases "out_dir p") simp_all
  show ?thesis
  proof (rule that)
    show "p = \<lparr>out_dir = out_dir p, out_data = (take 8 h @ drop 8 h) @ tb # c\<rparr>"
      using p by simp
    show "length (take 8 h) = 8" using l by simp
    show "length (take 8 h @ drop 8 h) = get_off (out_dir p)" using h by simp
  qed
qed

lemma encrypt_key_nonce_parts:
  assumes "length m = 8" "length (m @ r) = get_off dir"
    and "enc (fst kn) (snd kn) (r @ [tb]) c = Some (c', mac)" "length c' = length c" "length mac = 8"
  shows "encrypt_key_nonce enc \<lparr>out_dir = dir, out_data = (m @ r) @ tb # c\<rparr> kn =
    Ok \<lparr>out_dir = dir, out_data = (mac @ r) @ tb # c'\<rparr>"
proof -
  let ?p = "\<lparr>out_dir = dir, out_data = (m @ r) @ tb # c\<rparr>"
  have meta: "get_meta (out_header ?p) = r @ [tb]" "out_content ?p = c"
    using out_parts(1,3) [of "m @ r" dir tb c] assms(1,2) by (simp_all add: get_meta_def)
  have "set_content c' ?p = \<lparr>out_dir = dir, out_data = (m @ r @ [tb]) @ c'\<rparr>"
    using assms(2,4) by (simp add: set_content_def splice_def header_len_Suc)
  then have "set_mac mac (set_content c' ?p) = \<lparr>out_dir = dir, out_data = (mac @ r) @ tb # c'\<rparr>"
    using assms(1,5) by (simp add: set_mac_def splice_def)
  then show ?thesis
    unfolding encrypt_key_nonce_def meta assms(3) by simp
qed

lemma decrypt_key_nonce_parts:
  assumes "length mac = 8" "dec (fst kn) (snd kn) (r @ [tb]) c mac = Some m"
  shows "decrypt_key_nonce dec
      \<lparr>pkt_header = \<lparr>hdr_direction = dir, hdr_data = (mac @ r) @ [tb]\<rparr>, pkt_content = c\<rparr> kn = Ok m"
  using assms by (simp add: decrypt_key_nonce_def get_meta_def hdr_mac_def Let_def)

text \<open>The id fields of a header do not depend on its mac.\<close>

lemma header_ids_mac:
  assumes "length m = length m'" "length m = 8"
  shows "hdr_packet_id \<lparr>hdr_direction = dir, hdr_data = (m @ r) @ [tb]\<rparr> =
      hdr_packet_id \<lparr>hdr_direction = dir, hdr_data = (m' @ r) @ [tb]\<rparr>"
    and "hdr_client_id \<lparr>hdr_direction = dir, hdr_data = (m @ r) @ [tb]\<rparr> =
      hdr_client_id \<lparr>hdr_direction = dir, hdr_data = (m' @ r) @ [tb]\<rparr>"
  using assms by (simp_all add: hdr_packet_id_def hdr_client_id_def)

section \<open>Properties\<close>





text \<open>
  C8: Encryption round trip. What \<open>encrypt\<close> makes of a well-formed packet is accepted by
  \<open>InPacket::try_new\<close>, and \<open>decrypt\<close> with the same generation and iv gives back the content,
  whatever the two sides have cached; both caches stay valid.
\<close>

theorem encrypt_decrypt:
  assumes eax: "eax_contract enc dec" and p: "wf_out p"
    and t: "hdr_packet_type (out_header p) = Some t" "t \<noteq> Init" and gen: "gen \<noteq> 0xffffffff"
    and caches: "cache_ok sha256 iv cache" "cache_ok sha256 iv cache2"
    and enc: "encrypt sha256 enc p gen iv cache = Ok (q, cache1)"
  shows "\<exists>r cache3. in_packet_try_new (out_dir p) (out_data q) = Ok r \<and>
    decrypt sha256 dec r gen iv cache2 = Ok (Ok (out_content p), cache3) \<and>
    cache_ok sha256 iv cache1 \<and> cache_ok sha256 iv cache3"
proof -
  from p obtain m r tb c where pe: "p = \<lparr>out_dir = out_dir p, out_data = (m @ r) @ tb # c\<rparr>"
    and l: "length m = 8" "length (m @ r) = get_off (out_dir p)"
    by (rule packet_mac_parts)
  define dir where "dir = out_dir p"
  let ?hdr = "\<lambda>x. \<lparr>hdr_direction = dir, hdr_data = (x @ r) @ [tb]\<rparr>"
  have h: "out_header p = ?hdr m" "out_content p = c"
    using out_parts(1,3) [OF l(2), of tb c] unfolding pe [symmetric] dir_def by blast+
  let ?kn = "fresh_key_nonce sha256 t (hdr_client_id (?hdr m)) (hdr_packet_id (?hdr m)) gen iv"
  obtain d1 where d1: "create_key_nonce sha256 t (hdr_client_id (?hdr m)) (hdr_packet_id (?hdr m))
      gen iv cache = (Ok (?kn, d1) :: (ts_error, _) outcome)" "cache_ok sha256 iv d1"
    using create_key_nonce_cached [OF caches(1) t(2) gen] by blast
  obtain d2 where d2: "create_key_nonce sha256 t (hdr_client_id (?hdr m)) (hdr_packet_id (?hdr m))
      gen iv cache2 = (Ok (?kn, d2) :: (ts_error, _) outcome)" "cache_ok sha256 iv d2"
    using create_key_nonce_cached [OF caches(2) t(2) gen] by blast
  have e: "encrypt_key_nonce enc p ?kn = Ok q" and [simp]: "cache1 = d1"
    using enc t(1) d1(1) by (auto simp: encrypt_def Let_def h bind_out_eq_Ok_iff)
  have "get_meta (out_header p) = r @ [tb]"
    using l by (simp add: h get_meta_def)
  then obtain c' mac where cm: "enc (fst ?kn) (snd ?kn) (r @ [tb]) c = Some (c', mac)"
    using e by (auto simp: encrypt_key_nonce_def h split: option.splits)
  note con = eax_contractD [OF eax, OF cm]
  have q: "q = \<lparr>out_dir = dir, out_data = (mac @ r) @ tb # c'\<rparr>"
    using encrypt_key_nonce_parts [where enc = enc and kn = ?kn, OF l cm con(1,2)] e unfolding dir_def [symmetric]
    using pe by (simp add: dir_def)
  have ty: "packet_type_from_u8 (tb AND 0xf) = Some t"
    using t(1) hdr_parts(1) [OF l(2), of tb] by (simp add: h dir_def)
  then have nt: "\<not> 8 < tb AND 0xf"
    by (auto simp: packet_type_from_u8_def word_less_nat_alt split: if_splits)
  have ml: "length (mac @ r) = get_off dir" "length m = length mac"
    using l con(2) by (simp_all add: dir_def)
  let ?r = "\<lparr>pkt_header = ?hdr mac, pkt_content = c'\<rparr>"
  have "in_packet_try_new dir (out_data q) = Ok ?r"
    using in_packet_try_new_parts [OF ml(1) nt] by (simp add: q)
  moreover have "decrypt sha256 dec ?r gen iv cache2 = Ok (Ok c, d2)"
    using d2(1) ty decrypt_key_nonce_parts [where dec = dec and kn = ?kn, OF con(2,3)] ml(1)
    by (simp add: decrypt_def Let_def header_ids_mac [OF ml(2) l(1), symmetric] hdr_parts
        del: append_assoc)
  ultimately show ?thesis
    using d1(2) d2(2) by (auto simp: h dir_def)
qed

text \<open>A cipher that masks the content with a byte of the key and the nonce, for the witnesses.\<close>

definition mask_enc :: eax_enc where
  "mask_enc k n a m = Some (map (\<lambda>b. b XOR (hd k XOR hd n)) m, replicate 8 (last a))"

definition mask_dec :: eax_dec where
  "mask_dec k n a c t =
     (if t = replicate 8 (last a) then Some (map (\<lambda>b. b XOR (hd k XOR hd n)) c) else None)"

lemma mask_contract: "eax_contract mask_enc mask_dec"
  by (auto simp: eax_contract_def mask_enc_def mask_dec_def xor.assoc map_idI simp del: replicate.simps)

definition witness_packet :: out_packet where
  "witness_packet = \<lparr>out_dir = C2S, out_data = [0,0,0,0,0,0,0,0, 1,2, 0,7, 2, 99,100]\<rparr>"

theorem encrypt_decrypt_witness:
  "\<exists>q cache1 r cache3.
     encrypt (\<lambda>d. take 32 d) mask_enc witness_packet 3 (replicate 64 9) key_cache_default = Ok (q, cache1) \<and>
     in_packet_try_new C2S (out_data q) = Ok r \<and>
     decrypt (\<lambda>d. take 32 d) mask_dec r 3 (replicate 64 9) key_cache_default = Ok (Ok [99, 100], cache3)"
proof -
  let ?sha = "\<lambda>d :: bytes. take 32 d"
  have t: "hdr_packet_type (out_header witness_packet) = Some Command"
    by code_simp
  have wf: "wf_out witness_packet" by code_simp
  have c: "out_content witness_packet = [99, 100]" "out_dir witness_packet = C2S" by code_simp+
  have ok: "cache_ok ?sha (replicate 64 9) key_cache_default" by (rule cache_ok_default)
  obtain q cache1 where e:
    "encrypt ?sha mask_enc witness_packet 3 (replicate 64 9) key_cache_default = Ok (q, cache1)"
  proof -
    obtain cache' where "create_key_nonce ?sha Command (hdr_client_id (out_header witness_packet))
        (hdr_packet_id (out_header witness_packet)) 3 (replicate 64 9) key_cache_default =
      (Ok (fresh_key_nonce ?sha Command (hdr_client_id (out_header witness_packet))
        (hdr_packet_id (out_header witness_packet)) 3 (replicate 64 9), cache') :: (ts_error, _) outcome)"
      using create_key_nonce_cached [OF ok, of Command 3] by fastforce
    then show ?thesis
      by (intro that) (simp add: encrypt_def Let_def t encrypt_key_nonce_def mask_enc_def)
  qed
  show ?thesis
    using encrypt_decrypt [OF mask_contract wf t _ _ ok ok e] e
    by (auto simp: c)
qed

text \<open>
  C39: A packet far behind in the first generation is opened with a constant key. The generation of
  such an id is 0 minus one, which is the generation of the never filled cache entries: no key is
  derived, and \<open>create_key_nonce\<close> returns the all-zero key (with the packet id mixed in) and nonce,
  whatever the shared iv is.
\<close>

theorem zero_key_before_first_generation:
  assumes "t \<noteq> Init" and "generation_id e = 0" and "packet_id e \<le> i"
    and "32767 \<le> unat (i - packet_id e)"
  shows "fst (snd (in_receive_window e t i)) = 0xffffffff \<and>
    create_key_nonce sha256 t c_id i 0xffffffff iv key_cache_default =
      (Ok (((replicate 16 0)[0 := ucast (drop_bit 8 i), 1 := ucast (i AND 0xff)], replicate 16 0),
        key_cache_default) :: (ts_error, _) outcome)"
proof -
  have "\<not> fst (in_receive_window e t i)"
    using assms by (simp add: in_receive_window_iff)
  then have "fst (snd (in_receive_window e t i)) = 0xffffffff"
    using assms by (auto simp: in_receive_window_def Let_def split: prod.splits)
  moreover have i: "index key_cache_default (type_index t) = Ok (replicate 2 cached_key_default)"
    "index (replicate 2 cached_key_default) (if c_id \<noteq> None then 1 else 0) = Ok cached_key_default"
    using type_index_less [OF assms(1)] by (auto simp: index_def key_cache_default_def)
  have r: "(replicate 2 cached_key_default)[if c_id \<noteq> None then 1 else 0 := cached_key_default] =
      replicate 2 cached_key_default"
    by (simp add: numeral_2_eq_2)
  have c: "key_cache_default[type_index t := replicate 2 cached_key_default] = key_cache_default"
    using type_index_less [OF assms(1)]
    by (simp add: key_cache_default_def list_update_same_conv del: replicate.simps)
  have d: "(ck_generation_id cached_key_default \<noteq> 0xffffffff) = False"
    "ck_key cached_key_default = replicate 16 0" "ck_nonce cached_key_default = replicate 16 0"
    by (simp_all add: cached_key_default_def)
  have "create_key_nonce sha256 t c_id i 0xffffffff iv key_cache_default =
      (Ok (((replicate 16 0)[0 := ucast (drop_bit 8 i), 1 := ucast (i AND 0xff)], replicate 16 0),
        key_cache_default) :: (ts_error, _) outcome)"
    unfolding create_key_nonce_def Let_def i bind_out.simps d if_False r c by simp
  ultimately show ?thesis by blast
qed

theorem zero_key_before_first_generation_witness:
  "create_key_nonce (\<lambda>d. take 32 d) Voice None 0x9003 0xffffffff (replicate 64 9) key_cache_default =
     (Ok (((replicate 16 0)[0 := 0x90, 1 := 3], replicate 16 0), key_cache_default) :: (ts_error, _) outcome)"
  using zero_key_before_first_generation
    [where t = Voice and e = "PartialPacketId 0 5" and i = "0x9003" and c_id = None
      and ?sha256.0 = "\<lambda>d. take 32 d" and iv = "replicate 64 9"]
  by (simp del: replicate.simps)

text \<open>
  C36: The hash cash search returns the first counter from the start on that reaches the level: it
  is not below the start, no counter before it reaches the level, and it reaches the level itself
  unless the counters are exhausted.
\<close>

theorem hash_cash_first:
  "start \<le> hash_cash_loop sha1 omega level start \<and>
   (\<forall>n. start \<le> n \<and> n < hash_cash_loop sha1 omega level start \<longrightarrow>
      get_hash_cash_level sha1 omega n < level) \<and>
   (hash_cash_loop sha1 omega level start = 0xffffffffffffffff \<or>
    level \<le> get_hash_cash_level sha1 omega (hash_cash_loop sha1 omega level start))"
proof (induction sha1 omega level start rule: hash_cash_loop.induct)
  case (1 sha1 omega level start)
  let ?r = "hash_cash_loop sha1 omega level start"
  show ?case
  proof (cases "start < 0xffffffffffffffff \<and> get_hash_cash_level sha1 omega start < level")
    case True
    then have r: "?r = hash_cash_loop sha1 omega level (start + 1)"
      by (subst hash_cash_loop.simps) simp
    have le: "start \<le> start + 1" "n = start \<or> start + 1 \<le> n" if "start \<le> n" for n
      using True that by (auto simp: word_le_nat_alt word_less_nat_alt unat_word_ariths
          word_unat_eq_iff)
    from le(1) [of start] have "start \<le> start + 1" by simp
    with "1.IH" [OF True] have "start \<le> hash_cash_loop sha1 omega level (start + 1)"
      by (blast intro: order.trans)
    moreover have "get_hash_cash_level sha1 omega n < level"
      if "start \<le> n" "n < hash_cash_loop sha1 omega level (start + 1)" for n
      using le(2) [OF that(1)] that(2) "1.IH" [OF True] True by blast
    ultimately show ?thesis
      unfolding r using "1.IH" [OF True] by blast
  next
    case False
    have r: "?r = start"
      by (subst hash_cash_loop.simps) (simp only: False if_False)
    have "start = 0xffffffffffffffff" if "\<not> start < 0xffffffffffffffff"
      using that u64_bound [of start] by (simp add: word_less_nat_alt word_unat_eq_iff)
    then show ?thesis
      unfolding r using False by auto
  qed
qed

theorem hash_cash_first_witness:
  "get_hash_cash_level (\<lambda>d. [last d - 48 - 3]) [] 2 < 4 \<and>
   hash_cash_loop (\<lambda>d. [last d - 48 - 3]) [] 4 0 = 3"
proof -
  let ?sha = "\<lambda>d :: bytes. [last d - 48 - 3]"
  have r: "hash_cash_loop ?sha [] 4 0 = 3" by code_simp
  show ?thesis
    using hash_cash_first [of 0 ?sha "[]" 4] unfolding r by (simp add: word_less_nat_alt)
qed

text \<open>The least significant byte first representation, reversed and padded.\<close>

lemma to_bytes_le_loop_be: "n < 256 ^ k \<Longrightarrow>
  length (to_bytes_le_loop n) \<le> k \<and>
  rev (to_bytes_le_loop n @ replicate (k - length (to_bytes_le_loop n)) 0) = be_bytes k n"
proof (induction k arbitrary: n)
  case 0
  then show ?case by (simp add: to_bytes_le_loop.simps)
next
  case (Suc k)
  show ?case
  proof (cases "n = 0")
    case True
    then have "be_bytes k 0 = replicate k 0" using Suc.IH [of 0]
      by (simp add: to_bytes_le_loop.simps)
    then show ?thesis
      using True by (simp add: to_bytes_le_loop.simps replicate_append_same)
  next
    case False
    have "n div 256 < 256 ^ k"
      using Suc.prems by (simp add: less_mult_imp_div_less mult.commute)
    from Suc.IH [OF this] False show ?thesis
      by (subst (1 2 3) to_bytes_le_loop.simps) simp
  qed
qed

lemma to_bytes_le_loop_bound: "n < 256 ^ length (to_bytes_le_loop n)"
proof (induction n rule: to_bytes_le_loop.induct)
  case (1 n)
  show ?case
  proof (cases "n = 0")
    case False
    then have "n div 256 < 256 ^ length (to_bytes_le_loop (n div 256))"
      using 1 by simp
    then have "n < 256 * 256 ^ length (to_bytes_le_loop (n div 256))"
      by (simp add: div_less_iff_less_mult mult.commute)
    then show ?thesis using False by (subst to_bytes_le_loop.simps) simp
  qed (simp add: to_bytes_le_loop.simps)
qed

lemma biguint_to_array_eq:
  "biguint_to_array m = (if m < 256 ^ 64 then Ok (be_bytes 64 m) else Panic)"
proof (cases "m < 256 ^ 64")
  case True
  show ?thesis
  proof (cases "m = 0")
    case True
    have "be_bytes 64 0 = replicate 64 0"
      using to_bytes_le_loop_be [of 0 64] by (simp add: to_bytes_le_loop.simps del: replicate.simps)
    moreover have "replicate 63 (0 :: u8) @ [0] = replicate 64 0"
    proof -
      have "replicate 63 (0 :: u8) @ [0] = replicate (Suc 63) 0"
        by (simp only: replicate_append_same replicate_Suc)
      also have "Suc 63 = 64" by simp
      finally show ?thesis .
    qed
    ultimately show ?thesis
      using True by (simp add: biguint_to_array_def to_bytes_le_def del: replicate.simps)
  next
    case False
    then show ?thesis
      using True to_bytes_le_loop_be [OF True]
      by (simp add: biguint_to_array_def to_bytes_le_def not_less)
  qed
next
  case False
  then have "m \<noteq> 0" by auto
  have "64 < length (to_bytes_le_loop m)"
  proof (rule ccontr)
    assume "\<not> 64 < length (to_bytes_le_loop m)"
    then have "(256 :: nat) ^ length (to_bytes_le_loop m) \<le> 256 ^ 64"
      by (intro power_increasing) simp_all
    with to_bytes_le_loop_bound [of m] False show False by linarith
  qed
  then show ?thesis
    using False \<open>m \<noteq> 0\<close> by (simp add: biguint_to_array_def to_bytes_le_def)
qed

text \<open>
  \<open>biguint_to_array\<close> is the 64-byte big-endian representation for every integer of at most 64
  bytes, read back by \<open>array_to_biguint\<close>, and panics for every larger one.
\<close>

theorem biguint_array_roundtrip:
  "(biguint_to_array n :: (ts_error, bytes) outcome) = (if n < 256 ^ 64 then Ok (be_bytes 64 n) else Panic) \<and>
   (n < 256 ^ 64 \<longrightarrow> array_to_biguint (be_bytes 64 n) = n) \<and>
   (length a = 64 \<longrightarrow> (biguint_to_array (array_to_biguint a) :: (ts_error, bytes) outcome) = Ok a)"
  using biguint_to_array_eq [where 'a = ts_error] be_val_bound [of a] be_bytes_be_val [of a]
  by (auto simp: array_to_biguint_def be_val_be_bytes simp del: be_bytes.simps)

theorem biguint_array_roundtrip_witness:
  "array_to_biguint (be_bytes 64 (2 ^ 200 + 7)) = 2 ^ 200 + 7"
  using biguint_array_roundtrip [of "2 ^ 200 + 7" "[]"] by (simp del: be_bytes.simps)

end
