(* ===== verification/Collections.thy ===== *)
theory Collections
  imports Packet_Ids
begin

text \<open>
  The two collections of the standard library that the resender keeps its packets in, as interfaces
  with the laws their clients use and as lists that satisfy the laws: \<open>BTreeMap\<close> is a map with its
  entries in key order (\<open>ordered_map\<close>), \<open>BinaryHeap\<close> a multiset whose greatest element can be seen,
  changed and removed (\<open>max_heap\<close>). The lemmas of the two locales are proved from the laws alone, so
  they hold for every order in which a heap may keep elements of the same priority.
\<close>

section \<open>Ordered maps\<close>

locale ordered_map =
  fixes insert :: "'k::linorder \<Rightarrow> 'v \<Rightarrow> 'm \<Rightarrow> 'm"
    and remove :: "'k \<Rightarrow> 'm \<Rightarrow> 'm"
    and get :: "'m \<Rightarrow> 'k \<Rightarrow> 'v option"
    and entries :: "'m \<Rightarrow> ('k \<times> 'v) list"
    and empty :: 'm
    and ok :: "'m \<Rightarrow> bool"
  assumes ok_empty: "ok empty"
    and ok_insert: "ok m \<Longrightarrow> ok (insert k v m)"
    and ok_remove: "ok m \<Longrightarrow> ok (remove k m)"
    and get_empty: "get empty k = None"
    and get_insert: "ok m \<Longrightarrow> get (insert k v m) = (get m)(k \<mapsto> v)"
    and get_remove: "ok m \<Longrightarrow> get (remove k m) = (get m)(k := None)"
    and entries_sorted: "ok m \<Longrightarrow> sorted_wrt (<) (map fst (entries m))"
    and entries_get: "ok m \<Longrightarrow> (k, v) \<in> set (entries m) \<longleftrightarrow> get m k = Some v"
begin

lemma entries_Nil_iff: "ok m \<Longrightarrow> entries m = [] \<longleftrightarrow> (\<forall>k. get m k = None)"
  using entries_get [of m] by (cases "entries m") (auto, metis option.exhaust)

lemma first_least:
  assumes "ok m" "entries m = (k, v) # es" "get m k' = Some v'"
  shows "k \<le> k'"
  using assms entries_sorted [of m] entries_get [of m k' v'] by fastforce

lemma first_get: "ok m \<Longrightarrow> entries m = (k, v) # es \<Longrightarrow> get m k = Some v"
  using entries_get [of m k v] by simp

lemma second_bounds_rest:
  assumes "ok m" "entries m = (k, v) # (k2, v2) # es" "get (remove k m) k' = Some v'"
  shows "k2 \<le> k'"
proof -
  have "k' \<noteq> k" "get m k' = Some v'"
    using assms(1,3) by (auto simp: get_remove split: if_splits)
  with assms(1,2) entries_sorted [of m] entries_get [of m k' v'] show ?thesis
    by fastforce
qed

lemma remove_only:
  assumes "ok m" "entries m = [(k, v)]"
  shows "get (remove k m) k' = None"
  using assms entries_get [of m] by (auto simp: get_remove) (metis not_None_eq prod.inject)

lemma insert_shadows: "ok m \<Longrightarrow> get (insert k v' (insert k v m)) = get (insert k v' m)"
  by (simp add: get_insert ok_insert)

lemma entries_insert_set:
  "ok m \<Longrightarrow> set (entries (insert k v m)) =
     Set.insert (k, v) {e \<in> set (entries m). fst e \<noteq> k}"
  by (auto simp: entries_get ok_insert get_insert split: if_splits)

lemma entries_remove_set:
  "ok m \<Longrightarrow> set (entries (remove k m)) = {e \<in> set (entries m). fst e \<noteq> k}"
  by (auto simp: entries_get ok_remove get_remove split: if_splits)

end

text \<open>\<open>BTreeMap\<close> as the list of its entries in key order.\<close>

type_synonym ('k, 'v) btree_map = "('k \<times> 'v) list"

fun bt_insert :: "'k::linorder \<Rightarrow> 'v \<Rightarrow> ('k, 'v) btree_map \<Rightarrow> ('k, 'v) btree_map" where
  "bt_insert k v [] = [(k, v)]"
| "bt_insert k v ((k', v') # m) =
     (if k < k' then (k, v) # (k', v') # m
      else if k = k' then (k, v) # m
      else (k', v') # bt_insert k v m)"

definition bt_remove :: "'k \<Rightarrow> ('k, 'v) btree_map \<Rightarrow> ('k, 'v) btree_map" where
  "bt_remove k m = filter (\<lambda>e. fst e \<noteq> k) m"

definition bt_get :: "('k, 'v) btree_map \<Rightarrow> 'k \<Rightarrow> 'v option" where
  "bt_get m k = map_of m k"

definition bt_entries :: "('k, 'v) btree_map \<Rightarrow> ('k \<times> 'v) list" where
  "bt_entries m = m"

definition bt_values :: "('k, 'v) btree_map \<Rightarrow> 'v list" where
  "bt_values m = map snd m"

definition bt_ok :: "('k::linorder, 'v) btree_map \<Rightarrow> bool" where
  "bt_ok m \<longleftrightarrow> sorted_wrt (<) (map fst m)"

lemma bt_insert_keys: "fst ` set (bt_insert k v m) = insert k (fst ` set m)"
  by (induction m rule: bt_insert.induct) auto

lemma bt_ok_insert: "bt_ok m \<Longrightarrow> bt_ok (bt_insert k v m)"
proof (induction m rule: bt_insert.induct)
  case (2 k v k' v' m)
  have "\<forall>x \<in> fst ` set (bt_insert k v m). k' < x" if "k' < k"
    using that 2(2) unfolding bt_insert_keys by (auto simp: bt_ok_def)
  with 2 show ?case by (auto simp: bt_ok_def)
qed (simp add: bt_ok_def)

lemma bt_get_insert: "bt_ok m \<Longrightarrow> bt_get (bt_insert k v m) = (bt_get m)(k \<mapsto> v)"
proof (induction m rule: bt_insert.induct)
  case (2 k v k' v' m)
  then show ?case by (auto simp: bt_get_def bt_ok_def fun_eq_iff)
qed (auto simp: bt_get_def fun_eq_iff)

lemma bt_ok_remove: "bt_ok m \<Longrightarrow> bt_ok (bt_remove k m)"
  by (auto simp: bt_ok_def bt_remove_def sorted_wrt_map sorted_wrt_filter)

lemma bt_get_remove: "bt_get (bt_remove k m) = (bt_get m)(k := None)"
  by (induction m) (auto simp: bt_get_def bt_remove_def fun_eq_iff)

lemma bt_ok_distinct: "bt_ok m \<Longrightarrow> distinct (map fst m)"
  by (simp add: bt_ok_def strict_sorted_iff)

interpretation bt: ordered_map bt_insert bt_remove bt_get bt_entries "[]" bt_ok
proof unfold_locales
  show "\<And>m k v. bt_ok m \<Longrightarrow> ((k, v) \<in> set (bt_entries m)) = (bt_get m k = Some v)"
    by (simp add: bt_entries_def bt_get_def bt_ok_distinct)
qed (simp_all add: bt_ok_insert bt_get_insert bt_ok_remove bt_get_remove,
    simp_all add: bt_ok_def bt_get_def bt_entries_def)

section \<open>Heaps\<close>

locale max_heap =
  fixes push :: "'a \<Rightarrow> 'h \<Rightarrow> 'h"
    and peek :: "'h \<Rightarrow> 'a option"
    and pop :: "'h \<Rightarrow> 'h"
    and replace_top :: "'a \<Rightarrow> 'h \<Rightarrow> 'h"
    and elems :: "'h \<Rightarrow> 'a multiset"
    and better :: "'a \<Rightarrow> 'a \<Rightarrow> bool"
  assumes peek_None: "peek h = None \<longleftrightarrow> elems h = {#}"
    and peek_in: "peek h = Some x \<Longrightarrow> x \<in># elems h"
    and peek_best: "peek h = Some x \<Longrightarrow> y \<in># elems h \<Longrightarrow> \<not> better y x"
    and elems_push: "elems (push x h) = add_mset x (elems h)"
    and elems_pop: "peek h = Some x \<Longrightarrow> elems (pop h) = elems h - {#x#}"
    and elems_replace: "peek h = Some x \<Longrightarrow> elems (replace_top y h) = add_mset y (elems h - {#x#})"
begin

lemma size_pop: "peek h = Some x \<Longrightarrow> size (elems h) = Suc (size (elems (pop h)))"
  using peek_in [of h x] by (simp add: elems_pop size_Suc_Diff1)

lemma size_replace: "peek h = Some x \<Longrightarrow> size (elems (replace_top y h)) = size (elems h)"
  using peek_in [of h x] by (simp add: elems_replace size_Suc_Diff1)

lemma pop_subset: "peek h = Some x \<Longrightarrow> y \<in># elems (pop h) \<Longrightarrow> y \<in># elems h"
  by (simp add: elems_pop in_diffD)

lemma pop_keeps: "peek h = Some x \<Longrightarrow> y \<in># elems h \<Longrightarrow> y \<noteq> x \<Longrightarrow> y \<in># elems (pop h)"
  by (simp add: elems_pop in_diff_count)

lemma replace_cases:
  "peek h = Some x \<Longrightarrow> z \<in># elems (replace_top y h) \<Longrightarrow> z = y \<or> z \<in># elems h"
  by (auto simp: elems_replace dest: in_diffD)

end

text \<open>
  \<open>BinaryHeap\<close> of send records: a list, of which the greatest element is taken (the first of
  several that compare equal). \<open>heap_replace_top\<close> is a change through \<open>peek_mut\<close>.
\<close>

type_synonym send_heap = "send_record_id list"

fun heap_peek :: "send_heap \<Rightarrow> send_record_id option" where
  "heap_peek [] = None"
| "heap_peek (x # h) =
     (case heap_peek h of
        None \<Rightarrow> Some x
      | Some y \<Rightarrow> if srid_cmp y x = Greater then Some y else Some x)"

definition heap_push :: "send_record_id \<Rightarrow> send_heap \<Rightarrow> send_heap" where
  "heap_push x h = h @ [x]"

definition heap_pop :: "send_heap \<Rightarrow> send_heap" where
  "heap_pop h = (case heap_peek h of None \<Rightarrow> h | Some x \<Rightarrow> remove1 x h)"

definition heap_replace_top :: "send_record_id \<Rightarrow> send_heap \<Rightarrow> send_heap" where
  "heap_replace_top y h = (case heap_peek h of None \<Rightarrow> h | Some x \<Rightarrow> y # remove1 x h)"

lemma heap_peek_None: "heap_peek h = None \<longleftrightarrow> h = []"
  by (cases h) (auto split: option.splits)

lemma heap_peek_in: "heap_peek h = Some x \<Longrightarrow> x \<in> set h"
  by (induction h arbitrary: x) (auto split: option.splits if_splits)

lemma srid_cmp_Greater_iff: "srid_cmp a b = Greater \<longleftrightarrow> key_less (srid_key a) (srid_key b)"
  by (simp add: srid_cmp_key)

lemma key_less_trans: "key_less a b \<Longrightarrow> key_less b c \<Longrightarrow> key_less a c"
  by (cases a; cases b; cases c) auto

lemma key_less_neg_trans: "\<not> key_less a b \<Longrightarrow> \<not> key_less b c \<Longrightarrow> \<not> key_less a c"
  by (cases a; cases b; cases c) auto

lemma key_less_irrefl: "\<not> key_less a a"
  by (cases a) auto

lemma heap_peek_best:
  "heap_peek h = Some x \<Longrightarrow> y \<in> set h \<Longrightarrow> srid_cmp y x \<noteq> Greater"
proof (induction h arbitrary: x y)
  case (Cons z h)
  show ?case
  proof (cases "heap_peek h")
    case None
    then show ?thesis
      using Cons.prems by (auto simp: heap_peek_None srid_cmp_Greater_iff key_less_irrefl)
  next
    case (Some w)
    have w: "srid_cmp y' w \<noteq> Greater" if "y' \<in> set h" for y'
      by (rule Cons.IH [OF Some that])
    show ?thesis
    proof (cases "srid_cmp w z = Greater")
      case True
      with Cons.prems Some have "x = w" by simp
      have "srid_cmp z w \<noteq> Greater"
        using True key_less_trans key_less_irrefl by (metis srid_cmp_Greater_iff)
      with \<open>x = w\<close> w Cons.prems show ?thesis by auto
    next
      case False
      with Cons.prems Some have "x = z" by simp
      then have "srid_cmp y z \<noteq> Greater" if "y \<in> set h"
        using w [OF that] False key_less_neg_trans by (metis srid_cmp_Greater_iff)
      with \<open>x = z\<close> Cons.prems show ?thesis
        by (auto simp: srid_cmp_Greater_iff key_less_irrefl)
    qed
  qed
qed simp

interpretation heap: max_heap heap_push heap_peek heap_pop heap_replace_top mset
  "\<lambda>y x. srid_cmp y x = Greater"
  by unfold_locales
    (auto simp: heap_peek_None heap_peek_in heap_peek_best heap_push_def heap_pop_def
      heap_replace_top_def)

end
