(* ===== verification/Resend_State.thy ===== *)
theory Resend_State
  imports Complex_Main Algorithms Collections
begin

text \<open>
  The state of the resender and the operations of \<open>tsproto/src/resend.rs\<close> that touch only that
  state: network statistics, timeouts and states, the congestion window, the send queue that is
  filled from the queue of unacknowledged packets, and the smoothed round trip time. Instants and
  durations are nanoseconds; an operation reads the clock once (\<open>now\<close>). The floating point value
  of the CUBIC formula is an argument (\<open>cubic\<close>), rounded down to an integer; the loss rates are the
  exact quotients.
\<close>

section \<open>Statistics\<close>

datatype packet_stat = InControl | InKeepalive | InSpeech | OutControl | OutKeepalive | OutSpeech

fun stat_index :: "packet_stat \<Rightarrow> nat" where
  "stat_index InControl = 0"
| "stat_index InKeepalive = 1"
| "stat_index InSpeech = 2"
| "stat_index OutControl = 3"
| "stat_index OutKeepalive = 4"
| "stat_index OutSpeech = 5"

datatype packet_loss_stat =
    VoiceInCount | VoiceInLost | AckOutCount | AckOutLost | AckInCount | AckInLost
  | AckInOrCommandOutLost | CommandOutCount | PongInCount | PongInLost | PingOutCount
  | PingInCount | PingInLost

fun loss_index :: "packet_loss_stat \<Rightarrow> nat" where
  "loss_index VoiceInCount = 0"
| "loss_index VoiceInLost = 1"
| "loss_index AckOutCount = 2"
| "loss_index AckOutLost = 3"
| "loss_index AckInCount = 4"
| "loss_index AckInLost = 5"
| "loss_index AckInOrCommandOutLost = 6"
| "loss_index CommandOutCount = 7"
| "loss_index PongInCount = 8"
| "loss_index PongInLost = 9"
| "loss_index PingOutCount = 10"
| "loss_index PingInCount = 11"
| "loss_index PingInLost = 12"

definition packet_stat_from :: "packet_type \<Rightarrow> bool \<Rightarrow> packet_stat" where
  "packet_stat_from t incoming =
     (if t = Voice \<or> t = VoiceWhisper then (if incoming then InSpeech else OutSpeech)
      else if t = Ping \<or> t = Pong then (if incoming then InKeepalive else OutKeepalive)
      else (if incoming then InControl else OutControl))"

record connection_stats =
  rtt :: duration
  rtt_dev :: duration
  total_packets :: "u64 list"
  total_bytes :: "u64 list"
  stat_loss :: "u32 list"
  last_second_bytes :: "u32 list list"
  next_second_index :: u8

record stats_counter =
  cnt_bytes :: "u32 list"
  cnt_loss :: "u32 list"

definition connection_stats_default :: connection_stats where
  "connection_stats_default =
     \<lparr>rtt = 0, rtt_dev = 0, total_packets = replicate 6 0, total_bytes = replicate 6 0,
      stat_loss = replicate 13 0, last_second_bytes = replicate 60 (replicate 6 0),
      next_second_index = 0\<rparr>"

definition stats_counter_default :: stats_counter where
  "stats_counter_default = \<lparr>cnt_bytes = replicate 6 0, cnt_loss = replicate 13 0\<rparr>"

text \<open>\<open>a[i] += v\<close> on an array.\<close>

definition add_at :: "nat \<Rightarrow> 'w::len word \<Rightarrow> 'w word list \<Rightarrow> 'w word list" where
  "add_at i v a = a[i := a ! i + v]"

definition counter_loss_add :: "packet_loss_stat \<Rightarrow> u32 \<Rightarrow> stats_counter \<Rightarrow> stats_counter" where
  "counter_loss_add st v c = c\<lparr>cnt_loss := add_at (loss_index st) v (cnt_loss c)\<rparr>"

definition counter_loss_outgoing :: "packet_type \<Rightarrow> packet_stat \<Rightarrow> u32 \<Rightarrow> stats_counter \<Rightarrow> stats_counter" where
  "counter_loss_outgoing p_type st len c =
     (let c = c\<lparr>cnt_bytes := add_at (stat_index st) len (cnt_bytes c)\<rparr>
      in if is_ack p_type then counter_loss_add AckOutCount 1 c
         else if p_type = Ping then counter_loss_add PingOutCount 1 c
         else if is_command p_type then counter_loss_add CommandOutCount 1 c
         else c)"

definition handle_loss_resend_command :: "stats_counter \<Rightarrow> stats_counter" where
  "handle_loss_resend_command = counter_loss_add AckInOrCommandOutLost 1"

definition stats_loss_outgoing :: "packet_stat \<Rightarrow> u64 \<Rightarrow> connection_stats \<Rightarrow> connection_stats" where
  "stats_loss_outgoing st len s =
     s\<lparr>total_packets := add_at (stat_index st) 1 (total_packets s),
       total_bytes := add_at (stat_index st) len (total_bytes s)\<rparr>"

definition get_last_second_bytes :: "connection_stats \<Rightarrow> u32 list" where
  "get_last_second_bytes s = last_second_bytes s ! unat ((next_second_index s + 60 - 1) mod 60)"

definition get_last_minute_bytes :: "connection_stats \<Rightarrow> u64 list" where
  "get_last_minute_bytes s =
     fold (\<lambda>bs bytes. fold (\<lambda>i bytes. add_at i (ucast (bs ! i)) bytes) [0..<length bs] bytes)
       (last_second_bytes s) (replicate 6 0)"

text \<open>The loss rates, as exact quotients of the counts.\<close>

definition loss_of :: "connection_stats \<Rightarrow> packet_loss_stat \<Rightarrow> u32" where
  "loss_of s st = stat_loss s ! loss_index st"

definition ratio :: "u32 \<Rightarrow> nat \<Rightarrow> rat" where
  "ratio n lost = (if n = 0 then 0 else of_nat lost / of_nat (unat n))"

definition get_packetloss_s2c_speech :: "connection_stats \<Rightarrow> rat" where
  "get_packetloss_s2c_speech s = ratio (loss_of s VoiceInCount) (unat (loss_of s VoiceInLost))"

definition get_packetloss_s2c_keepalive :: "connection_stats \<Rightarrow> rat" where
  "get_packetloss_s2c_keepalive s =
     ratio (loss_of s PingInCount + loss_of s PongInCount)
       (unat (loss_of s PingInLost) + unat (loss_of s PongInLost))"

definition get_packetloss_s2c_control :: "connection_stats \<Rightarrow> rat" where
  "get_packetloss_s2c_control s = ratio (loss_of s AckInCount) (unat (loss_of s AckInLost))"

definition get_packetloss_s2c_total :: "connection_stats \<Rightarrow> rat" where
  "get_packetloss_s2c_total s =
     ratio (loss_of s VoiceInCount + loss_of s PingInCount + loss_of s PongInCount
         + loss_of s AckInCount)
       (unat (loss_of s VoiceInLost) + unat (loss_of s PingInLost) + unat (loss_of s PongInLost)
         + unat (loss_of s AckInLost))"

definition saturating_sub :: "'w::len word \<Rightarrow> 'w word \<Rightarrow> 'w word" where
  "saturating_sub a b = (if b \<le> a then a - b else 0)"

definition get_packetloss :: "connection_stats \<Rightarrow> rat" where
  "get_packetloss s =
     (let command_out_lost =
            min (saturating_sub (loss_of s AckInOrCommandOutLost) (loss_of s AckInLost))
              (loss_of s CommandOutCount)
      in ratio (loss_of s VoiceInCount + loss_of s PingInCount + loss_of s PongInCount
             + loss_of s AckInCount + loss_of s AckOutCount + loss_of s CommandOutCount)
           (unat (loss_of s VoiceInLost) + unat (loss_of s PingInLost)
             + unat (loss_of s PongInLost) + unat (loss_of s AckInLost)
             + unat (loss_of s AckOutLost) + unat command_out_lost))"

section \<open>The resender\<close>

datatype resender_state = Connecting | Connected | Disconnecting | Disconnected

record send_record =
  rec_sent :: instant
  rec_id :: send_record_id
  rec_packet :: out_udp_packet

record ping =
  ping_id :: partial_packet_id
  ping_sent :: instant

record resend_config =
  connecting_timeout :: duration
  normal_timeout :: duration
  disconnect_timeout :: duration
  srtt :: duration
  srtt_dev :: duration

text \<open>The deadlines of the four timers.\<close>

record timers =
  tm_timeout :: instant
  tm_ping_timeout :: instant
  tm_state_timeout :: instant
  tm_stats_timeout :: instant

record resender =
  send_queue :: send_heap
  full_send_queue :: "(partial_packet_id, send_record) btree_map list"
  send_queue_indices :: "partial_packet_id list"
  rs_config :: resend_config
  rs_state :: resender_state
  last_pings :: "ping list"
  rs_counter :: stats_counter
  rs_stats :: connection_stats
  w_max :: u16
  last_loss :: instant
  no_congestion_since :: "instant option"
  last_receive :: instant
  last_send :: instant
  last_stat :: instant
  rs_timers :: timers

definition from_secs :: "nat \<Rightarrow> duration" where "from_secs n = n * 1000000000"
definition from_millis :: "nat \<Rightarrow> duration" where "from_millis n = n * 1000000"

definition PING_COUNT :: nat where "PING_COUNT = 30"
definition PING_SECONDS :: nat where "PING_SECONDS = 1"
definition STAT_SECONDS :: nat where "STAT_SECONDS = 1"
definition UDP_HEADER_SIZE :: u32 where "UDP_HEADER_SIZE = 8"
definition IPV4_HEADER_SIZE :: u32 where "IPV4_HEADER_SIZE = 20"

definition resend_config_default :: resend_config where
  "resend_config_default =
     \<lparr>connecting_timeout = from_secs 5, normal_timeout = from_secs 30,
      disconnect_timeout = from_secs 5, srtt = from_millis 500, srtt_dev = from_millis 0\<rparr>"

definition resender_default :: "instant \<Rightarrow> resender" where
  "resender_default now =
     \<lparr>send_queue = [], full_send_queue = replicate 3 [],
      send_queue_indices = replicate 3 ppid_default, rs_config = resend_config_default,
      rs_state = Connecting, last_pings = [], rs_counter = stats_counter_default,
      rs_stats = connection_stats_default, w_max = of_nat UDP_SINK_CAPACITY, last_loss = now,
      no_congestion_since = Some now, last_receive = now, last_send = now, last_stat = now,
      rs_timers = \<lparr>tm_timeout = now + from_secs 1, tm_ping_timeout = now + from_secs PING_SECONDS,
        tm_state_timeout = now + from_secs 1, tm_stats_timeout = now + from_secs STAT_SECONDS\<rparr>\<rparr>"

text \<open>The resender handles three packet types and panics on the others.\<close>

fun packet_type_to_index :: "packet_type \<Rightarrow> nat option" where
  "packet_type_to_index Init = Some 0"
| "packet_type_to_index Command = Some 1"
| "packet_type_to_index CommandLow = Some 2"
| "packet_type_to_index _ = None"

definition get_timeout :: "resender \<Rightarrow> duration" where
  "get_timeout r =
     (case rs_state r of
        Connecting \<Rightarrow> connecting_timeout (rs_config r)
      | Disconnecting \<Rightarrow> disconnect_timeout (rs_config r)
      | Disconnected \<Rightarrow> disconnect_timeout (rs_config r)
      | Connected \<Rightarrow> normal_timeout (rs_config r))"

definition set_state :: "instant \<Rightarrow> resender_state \<Rightarrow> resender \<Rightarrow> resender" where
  "set_state now st r =
     (let r = r\<lparr>rs_state := st, last_send := now\<rparr>
      in r\<lparr>rs_timers := rs_timers r \<lparr>tm_state_timeout := last_send r + get_timeout r\<rparr>\<rparr>)"

definition received_packet :: "instant \<Rightarrow> resender \<Rightarrow> resender" where
  "received_packet now r = r\<lparr>last_receive := now\<rparr>"

definition update_srtt :: "duration \<Rightarrow> resender \<Rightarrow> resender" where
  "update_srtt d r =
     (let c = rs_config r;
          diff = (if d > srtt c then d - srtt c else srtt c - d);
          c = c\<lparr>srtt_dev := srtt_dev c * 3 div 4 + diff div 4\<rparr>;
          c = c\<lparr>srtt := srtt c * 7 div 8 + d div 8\<rparr>;
          s = rs_stats r;
          diff = (if d > rtt s then d - rtt s else rtt s - d);
          s = s\<lparr>rtt_dev := rtt_dev s * 3 div 4 + diff div 4\<rparr>;
          s = s\<lparr>rtt := rtt s div 2 + d div 2\<rparr>
      in r\<lparr>rs_config := c, rs_stats := s\<rparr>)"

section \<open>Packet loss bookkeeping\<close>

definition handle_loss_incoming ::
  "in_packet \<Rightarrow> bool \<Rightarrow> u16 \<Rightarrow> resender \<Rightarrow> (ts_error, resender) outcome" where
  "handle_loss_incoming packet in_recv_win cur_next r =
     bind_out (unwrap (hdr_packet_type (pkt_header packet))) (\<lambda>p_type.
       let id_diff = (ucast (hdr_packet_id (pkt_header packet) - cur_next) :: u32);
           i = stat_index (packet_stat_from p_type True);
           len = of_nat (length (hdr_data (pkt_header packet)) + length (pkt_content packet))
             + UDP_HEADER_SIZE + IPV4_HEADER_SIZE;
           c = rs_counter r;
           c = c\<lparr>cnt_bytes := add_at i len (cnt_bytes c)\<rparr>;
           s = rs_stats r;
           s = s\<lparr>total_packets := add_at i 1 (total_packets s),
                 total_bytes := add_at i (ucast len) (total_bytes s)\<rparr>;
           stats = (if is_voice p_type then Some (VoiceInCount, VoiceInLost)
                    else if is_ack p_type then Some (AckInCount, AckInLost)
                    else if p_type = Pong then Some (PongInCount, PongInLost)
                    else if p_type = Ping then Some (PingInCount, PingInLost)
                    else None);
           c = (case stats of
                  None \<Rightarrow> c
                | Some (counted, lost) \<Rightarrow>
                    if in_recv_win then
                      counter_loss_add lost id_diff (counter_loss_add counted (id_diff + 1) c)
                    else
                      c\<lparr>cnt_loss := (cnt_loss c)[loss_index lost :=
                          saturating_sub (cnt_loss c ! loss_index lost) 1]\<rparr>)
       in Ok (r\<lparr>rs_counter := c, rs_stats := s\<rparr>))"

definition udp_len :: "out_udp_packet \<Rightarrow> u32" where
  "udp_len p = of_nat (length (out_data (udp_data p))) + UDP_HEADER_SIZE + IPV4_HEADER_SIZE"

definition handle_loss_outgoing :: "out_udp_packet \<Rightarrow> resender \<Rightarrow> (ts_error, resender) outcome" where
  "handle_loss_outgoing packet r =
     bind_out (unwrap (udp_packet_type packet)) (\<lambda>p_type.
       let p_stat = packet_stat_from p_type False; len = udp_len packet
       in Ok (r\<lparr>rs_counter := counter_loss_outgoing p_type p_stat len (rs_counter r),
               rs_stats := stats_loss_outgoing p_stat (ucast len) (rs_stats r)\<rparr>))"

definition handle_loss_resend_ack :: "resender \<Rightarrow> resender" where
  "handle_loss_resend_ack r = r\<lparr>rs_counter := counter_loss_add AckOutLost 1 (rs_counter r)\<rparr>"

section \<open>The congestion window and the send queue\<close>

definition get_window :: "(duration \<Rightarrow> u16 \<Rightarrow> int) \<Rightarrow> instant \<Rightarrow> resender \<Rightarrow> u16" where
  "get_window cubic now r =
     (let time = (case no_congestion_since r of Some t \<Rightarrow> t | None \<Rightarrow> now) - last_loss r;
          res = cubic time (w_max r)
      in if res > 32767 then 32767 else if res < 1 then 1 else of_int res)"

text \<open>\<open>self.full_send_queue.len()\<close> is the length of the array of the three queues.\<close>

definition is_full :: "(duration \<Rightarrow> u16 \<Rightarrow> int) \<Rightarrow> instant \<Rightarrow> resender \<Rightarrow> bool" where
  "is_full cubic now r \<longleftrightarrow> unat (get_window cubic now r) \<le> length (full_send_queue r)"

definition is_empty :: "resender \<Rightarrow> bool" where
  "is_empty r \<longleftrightarrow> (\<forall>q \<in> set (full_send_queue r). q = [])"

text \<open>
  The choice between the first records of the three iterators: a record replaces the best one so
  far when that one's time is smaller than its own.
\<close>

fun pick_head :: "nat \<Rightarrow> send_record list list \<Rightarrow> (nat \<times> instant) option \<Rightarrow> (nat \<times> instant) option" where
  "pick_head i [] best = best"
| "pick_head i ([] # its) best = pick_head (Suc i) its best"
| "pick_head i ((r # rs) # its) best =
     pick_head (Suc i) its
       (case best of
          None \<Rightarrow> Some (i, rec_sent r)
        | Some (j, t) \<Rightarrow> if t < rec_sent r then Some (i, rec_sent r) else Some (j, t))"

text \<open>
  The loop of \<open>fill_up_send_queue\<close>. It returns early when no record is left; when it was not left
  early the send queue is full and the pause without congestion ends.
\<close>

fun fill_loop :: "nat \<Rightarrow> send_record list list \<Rightarrow> instant \<Rightarrow> resender \<Rightarrow> resender" where
  "fill_loop 0 iters now r =
     (case no_congestion_since r of
        None \<Rightarrow> r
      | Some until \<Rightarrow> r\<lparr>no_congestion_since := None, last_loss := now - (until - last_loss r)\<rparr>)"
| "fill_loop (Suc n) iters now r =
     (case pick_head 0 iters None of
        None \<Rightarrow> (if no_congestion_since r = None then r\<lparr>no_congestion_since := Some now\<rparr> else r)
      | Some (i, _) \<Rightarrow>
          let max = rec_id (hd (iters ! i))
          in fill_loop n (iters[i := tl (iters ! i)]) now
               (r\<lparr>send_queue_indices := (send_queue_indices r)[i := ppid_add (pid_part (sr_id max)) 1],
                  send_queue := heap_push max (send_queue r)\<rparr>))"

definition queue_iters :: "resender \<Rightarrow> send_record list list" where
  "queue_iters r =
     map (\<lambda>(q, start). dropWhile (\<lambda>rec. pid_part (sr_id (rec_id rec)) < start) (bt_values q))
       (zip (full_send_queue r) (send_queue_indices r))"

definition fill_up_send_queue :: "(duration \<Rightarrow> u16 \<Rightarrow> int) \<Rightarrow> instant \<Rightarrow> resender \<Rightarrow> resender" where
  "fill_up_send_queue cubic now r =
     fill_loop (unat (get_window cubic now r) - length (send_queue r)) (queue_iters r) now r"

definition rebuild_send_queue :: "(duration \<Rightarrow> u16 \<Rightarrow> int) \<Rightarrow> instant \<Rightarrow> resender \<Rightarrow> resender" where
  "rebuild_send_queue cubic now r =
     fill_up_send_queue cubic now
       (r\<lparr>send_queue := [], send_queue_indices := replicate 3 ppid_default\<rparr>)"

section \<open>The choice of the next record\<close>

lemma pick_head_cases:
  "pick_head n its best = Some (i, t) \<Longrightarrow>
     best = Some (i, t) \<or>
     (n \<le> i \<and> i < n + length its \<and> its ! (i - n) \<noteq> [] \<and> t = rec_sent (hd (its ! (i - n))))"
proof (induction n its best rule: pick_head.induct)
  case (2 n its best)
  then show ?case by (cases "i = n") (auto simp: nth_Cons' Suc_diff_le)
next
  case (3 n r rs its best)
  then show ?case
    by (cases "i = n") (auto simp: nth_Cons' Suc_diff_le split: option.splits if_splits)
qed simp

lemma pick_head_None: "pick_head n its best = None \<longleftrightarrow> best = None \<and> (\<forall>it \<in> set its. it = [])"
  by (induction n its best rule: pick_head.induct) (auto split: option.splits)

lemma pick_head_latest:
  "pick_head n its best = Some (i, t) \<Longrightarrow>
     (\<forall>j s. best = Some (j, s) \<longrightarrow> s \<le> t) \<and> (\<forall>it \<in> set its. it \<noteq> [] \<longrightarrow> rec_sent (hd it) \<le> t)"
proof (induction n its best rule: pick_head.induct)
  case (3 n r rs its best)
  show ?case
  proof (cases best)
    case None
    with 3 show ?thesis by fastforce
  next
    case (Some b)
    obtain j s where b: "b = (j, s)" by (cases b)
    with 3 Some show ?thesis
      by (cases "s < rec_sent r") (fastforce split: if_splits)+
  qed
qed auto

section \<open>The invariant of the queues\<close>

abbreviation rec_part :: "send_record \<Rightarrow> partial_packet_id" where
  "rec_part rec \<equiv> pid_part (sr_id (rec_id rec))"

definition queued :: "send_heap \<Rightarrow> send_record \<Rightarrow> bool" where
  "queued h rec \<longleftrightarrow> (\<exists>x \<in># mset h. sr_id x = sr_id (rec_id rec))"

text \<open>
  Each of the three queues is an ordered map whose keys are the ids of its records, of the packet
  type of the queue.
\<close>

definition queues_ok :: "resender \<Rightarrow> bool" where
  "queues_ok r \<longleftrightarrow> length (full_send_queue r) = 3 \<and> length (send_queue_indices r) = 3 \<and>
     (\<forall>i < 3. bt_ok (full_send_queue r ! i) \<and>
        (\<forall>(k, rec) \<in> set (bt_entries (full_send_queue r ! i)).
           rec_part rec = k \<and> packet_type_to_index (pid_type (sr_id (rec_id rec))) = Some i))"

text \<open>
  What the comment on \<open>send_queue_indices\<close> promises: an unacknowledged packet below the index is in
  the send queue.
\<close>

definition queue_complete :: "resender \<Rightarrow> bool" where
  "queue_complete r \<longleftrightarrow>
     (\<forall>i < 3. \<forall>(k, rec) \<in> set (bt_entries (full_send_queue r ! i)).
        k < send_queue_indices r ! i \<longrightarrow> queued (send_queue r) rec)"

text \<open>The records an iterator still has to give, against the queue it runs over.\<close>

definition iters_ok :: "send_record list list \<Rightarrow> resender \<Rightarrow> bool" where
  "iters_ok iters r \<longleftrightarrow> length iters = 3 \<and>
     (\<forall>i < 3. sorted_wrt (\<lambda>a b. rec_part a < rec_part b) (iters ! i) \<and>
        (\<forall>rec \<in> set (iters ! i). send_queue_indices r ! i \<le> rec_part rec) \<and>
        (\<forall>rec \<in> set (bt_values (full_send_queue r ! i)).
           rec \<in> set (iters ! i) \<or> queued (send_queue r) rec))"

lemma queued_push: "queued (heap_push x h) rec \<longleftrightarrow> sr_id x = sr_id (rec_id rec) \<or> queued h rec"
  by (auto simp: queued_def heap.elems_push)

lemma ppid_successor_le: "a < b \<Longrightarrow> ppid_add a 1 \<le> b"
proof -
  assume "a < b"
  then have "ppid_val a + 1 \<le> ppid_val b" by (simp add: ppid_less_iff)
  with ppid_val_bound [of b] show ?thesis
    by (simp add: ppid_le_iff ppid_val_add)
qed

lemma bt_values_set: "rec \<in> set (bt_values q) \<longleftrightarrow> (\<exists>k. (k, rec) \<in> set (bt_entries q))"
  by (force simp: bt_values_def bt_entries_def)

lemma queues_okD:
  assumes "queues_ok r" "i < 3"
  shows "bt_ok (full_send_queue r ! i)"
    and "(k, rec) \<in> set (bt_entries (full_send_queue r ! i)) \<Longrightarrow>
      rec_part rec = k \<and> packet_type_to_index (pid_type (sr_id (rec_id rec))) = Some i"
  using assms by (auto simp: queues_ok_def)

lemma iters_ok_complete:
  assumes "queues_ok r" "iters_ok iters r"
  shows "queue_complete r"
  unfolding queue_complete_def
proof (intro allI impI ballI, clarify)
  fix i k rec
  assume "i < 3" "(k, rec) \<in> set (bt_entries (full_send_queue r ! i))" "k < send_queue_indices r ! i"
  moreover from this assms(1) have "rec_part rec = k"
    by (auto simp: queues_ok_def)
  ultimately show "queued (send_queue r) rec"
    using assms(2) by (force simp: iters_ok_def bt_values_set)
qed

lemma queue_iters_ok:
  assumes "queues_ok r" "queue_complete r"
  shows "iters_ok (queue_iters r) r"
proof -
  have len: "length (full_send_queue r) = 3" "length (send_queue_indices r) = 3"
    using assms(1) by (simp_all add: queues_ok_def)
  have nth: "queue_iters r ! i = dropWhile (\<lambda>rec. rec_part rec < send_queue_indices r ! i)
      (bt_values (full_send_queue r ! i))" if "i < 3" for i
    using that len by (simp add: queue_iters_def)
  have parts: "map rec_part (bt_values (full_send_queue r ! i)) = map fst (full_send_queue r ! i)"
    if "i < 3" for i
    using queues_okD(2) [OF assms(1) that] by (auto simp: bt_values_def bt_entries_def)
  have sorted: "sorted_wrt (\<lambda>a b. rec_part a < rec_part b) (bt_values (full_send_queue r ! i))"
    if "i < 3" for i
  proof -
    have "sorted_wrt (<) (map rec_part (bt_values (full_send_queue r ! i)))"
      using queues_okD(1) [OF assms(1) that] unfolding parts [OF that] by (simp add: bt_ok_def)
    then show ?thesis by (simp add: sorted_wrt_map)
  qed
  show ?thesis
    unfolding iters_ok_def
  proof (intro conjI allI impI)
    show "length (queue_iters r) = 3" using len by (simp add: queue_iters_def)
    fix i :: nat assume i: "i < 3"
    let ?vs = "bt_values (full_send_queue r ! i)" and ?ix = "send_queue_indices r ! i"
    have split: "?vs = takeWhile (\<lambda>rec. rec_part rec < ?ix) ?vs @ queue_iters r ! i"
      by (simp add: nth [OF i])
    show s: "sorted_wrt (\<lambda>a b. rec_part a < rec_part b) (queue_iters r ! i)"
      using sorted [OF i] split by (metis sorted_wrt_append)
    show "\<forall>rec \<in> set (queue_iters r ! i). ?ix \<le> rec_part rec"
    proof (cases "queue_iters r ! i")
      case (Cons a as)
      then have "\<not> rec_part a < ?ix"
        using hd_dropWhile [of "\<lambda>rec. rec_part rec < ?ix" ?vs] by (simp add: nth [OF i])
      with s Cons show ?thesis by fastforce
    qed simp
    show "\<forall>rec \<in> set ?vs. rec \<in> set (queue_iters r ! i) \<or> queued (send_queue r) rec"
    proof
      fix rec assume rec: "rec \<in> set ?vs"
      show "rec \<in> set (queue_iters r ! i) \<or> queued (send_queue r) rec"
      proof (cases "rec \<in> set (queue_iters r ! i)")
        case False
        then have "rec_part rec < ?ix"
          using rec split by (metis Un_iff set_append set_takeWhileD)
        moreover obtain k where "(k, rec) \<in> set (bt_entries (full_send_queue r ! i))"
          using rec by (auto simp: bt_values_set)
        moreover from this assms(1) i have "rec_part rec = k"
          by (auto simp: queues_ok_def)
        ultimately show ?thesis
          using assms(2) i by (auto simp: queue_complete_def)
      qed simp
    qed
  qed
qed

text \<open>One step of the loop: the first record of one iterator moves to the send queue.\<close>

lemma iters_ok_step:
  assumes q: "queues_ok r" and it: "iters_ok iters r" and i: "i < 3" and hd: "iters ! i = rec # its"
  defines "r' \<equiv> r\<lparr>send_queue_indices := (send_queue_indices r)[i := ppid_add (rec_part rec) 1],
                  send_queue := heap_push (rec_id rec) (send_queue r)\<rparr>"
  shows "queues_ok r'" and "iters_ok (iters[i := its]) r'"
proof -
  have len: "length (send_queue_indices r) = 3" "length iters = 3"
    using q it by (simp_all add: queues_ok_def iters_ok_def)
  show "queues_ok r'"
    using q by (simp add: queues_ok_def r'_def)
  have same: "full_send_queue r' = full_send_queue r" by (simp add: r'_def)
  show "iters_ok (iters[i := its]) r'"
    unfolding iters_ok_def same
  proof (intro conjI allI impI)
    show "length (iters[i := its]) = 3" using len by simp
    fix j :: nat assume j: "j < 3"
    have old: "sorted_wrt (\<lambda>a b. rec_part a < rec_part b) (iters ! j)"
      "\<forall>rec \<in> set (iters ! j). send_queue_indices r ! j \<le> rec_part rec"
      "\<forall>rec \<in> set (bt_values (full_send_queue r ! j)).
         rec \<in> set (iters ! j) \<or> queued (send_queue r) rec"
      using it j by (auto simp: iters_ok_def)
    show "sorted_wrt (\<lambda>a b. rec_part a < rec_part b) (iters[i := its] ! j)"
      using old(1) hd j len by (cases "j = i") auto
    show "\<forall>rec \<in> set (iters[i := its] ! j). send_queue_indices r' ! j \<le> rec_part rec"
      using old(1,2) hd i j len by (cases "j = i") (auto simp: r'_def ppid_successor_le)
    show "\<forall>rec \<in> set (bt_values (full_send_queue r ! j)).
        rec \<in> set (iters[i := its] ! j) \<or> queued (send_queue r') rec"
      using old(3) hd i j len by (cases "j = i") (auto simp: r'_def queued_push)
  qed
qed

text \<open>The loop keeps the invariant, never drops an entry and stops for one of two reasons.\<close>

lemma fill_loop_ok:
  "queues_ok r \<Longrightarrow> iters_ok iters r \<Longrightarrow>
   queues_ok (fill_loop n iters now r) \<and> queue_complete (fill_loop n iters now r) \<and>
   full_send_queue (fill_loop n iters now r) = full_send_queue r \<and>
   mset (send_queue r) \<subseteq># mset (send_queue (fill_loop n iters now r)) \<and>
   length (send_queue (fill_loop n iters now r)) \<le> length (send_queue r) + n \<and>
   (length (send_queue (fill_loop n iters now r)) = length (send_queue r) + n \<or>
    (\<forall>i < 3. \<forall>(k, rec) \<in> set (bt_entries (full_send_queue r ! i)).
       queued (send_queue (fill_loop n iters now r)) rec))"
proof (induction n arbitrary: iters r)
  case 0
  then show ?case
    using iters_ok_complete [OF 0]
    by (auto simp: queues_ok_def queue_complete_def split: option.splits)
next
  case (Suc n)
  note ok = Suc.prems
  show ?case
  proof (cases "pick_head 0 iters None")
    case None
    then have "\<forall>it \<in> set iters. it = []" by (simp add: pick_head_None)
    then have "iters ! i = []" if "i < 3" for i
      using that ok(2) by (simp add: iters_ok_def)
    then have all: "\<forall>i < 3. \<forall>(k, rec) \<in> set (bt_entries (full_send_queue r ! i)).
        queued (send_queue r) rec"
      using ok(2) by (fastforce simp: iters_ok_def bt_values_set)
    show ?thesis
      using None all ok(1) iters_ok_complete [OF ok]
      by (simp add: queues_ok_def queue_complete_def)
  next
    case (Some it)
    obtain i t where it: "it = (i, t)" by (cases it)
    have i: "i < 3" "iters ! i \<noteq> []"
      using pick_head_cases [of 0 iters None i t] Some it ok(2) by (auto simp: iters_ok_def)
    then obtain rec its where hd: "iters ! i = rec # its" by (cases "iters ! i") auto
    define r' where "r' = r\<lparr>send_queue_indices := (send_queue_indices r)[i := ppid_add (rec_part rec) 1],
                  send_queue := heap_push (rec_id rec) (send_queue r)\<rparr>"
    have step: "fill_loop (Suc n) iters now r = fill_loop n (iters[i := its]) now r'"
      using Some by (simp add: it hd r'_def Let_def)
    have IH: "queues_ok r'" "iters_ok (iters[i := its]) r'"
      using iters_ok_step [OF ok i(1) hd] by (simp_all add: r'_def)
    have r': "full_send_queue r' = full_send_queue r"
      "mset (send_queue r') = add_mset (rec_id rec) (mset (send_queue r))"
      "length (send_queue r') = Suc (length (send_queue r))"
      by (simp_all add: r'_def heap_push_def)
    show ?thesis
      using Suc.IH [OF IH] unfolding step hd list.sel r'_def [symmetric]
      using r' by (auto dest!: mset_subset_eq_insertD intro: subset_mset.less_imp_le)
  qed
qed

lemma fill_up_ok:
  assumes "queues_ok r" "queue_complete r"
  shows "queues_ok (fill_up_send_queue cubic now r)"
    and "queue_complete (fill_up_send_queue cubic now r)"
    and "full_send_queue (fill_up_send_queue cubic now r) = full_send_queue r"
  using fill_loop_ok [OF assms(1) queue_iters_ok [OF assms]] by (simp_all add: fill_up_send_queue_def)

lemma rebuild_ok:
  assumes "queues_ok r"
  shows "queues_ok (rebuild_send_queue cubic now r)"
    and "queue_complete (rebuild_send_queue cubic now r)"
    and "full_send_queue (rebuild_send_queue cubic now r) = full_send_queue r"
proof -
  let ?r = "r\<lparr>send_queue := [], send_queue_indices := replicate 3 ppid_default\<rparr>"
  have "\<not> k < ppid_default" for k
    by (simp add: ppid_less_iff ppid_default_def ppid_val_def)
  then have "queues_ok ?r" "queue_complete ?r"
    using assms by (auto simp: queues_ok_def queue_complete_def)
  from fill_up_ok [OF this] show "queues_ok (rebuild_send_queue cubic now r)"
    "queue_complete (rebuild_send_queue cubic now r)"
    "full_send_queue (rebuild_send_queue cubic now r) = full_send_queue r"
    by (simp_all add: rebuild_send_queue_def)
qed

end
