(* ===== verification/Connection_State.thy ===== *)
theory Connection_State
  imports Resend_State
begin

text \<open>
  The state of a connection (\<open>tsproto/src/connection.rs\<close>) with the part of the packet codec
  (\<open>packet_codec.rs\<close>), and the results of operations on it. The calls of event listeners and the
  datagrams handed to the socket are kept as logs. What is outside the repository comes in as one
  record argument, \<open>env\<close>: the cipher, hash functions and compressor, the reaction of the socket to a
  datagram, the value of the CUBIC formula and the clock.
\<close>

section \<open>The environment\<close>

datatype send_poll = SendPending | SendFailed | SendReady nat

record env =
  env_sha256 :: "bytes \<Rightarrow> bytes"
  env_enc :: eax_enc
  env_dec :: eax_dec
  env_compress :: "bytes \<Rightarrow> bytes"
  env_decompress :: "bytes \<Rightarrow> nat \<Rightarrow> bytes option"
  env_send_to :: "bytes list \<Rightarrow> bytes \<Rightarrow> send_poll"
  env_cubic :: "duration \<Rightarrow> u16 \<Rightarrow> int"
  env_now :: instant

section \<open>A concrete environment\<close>

text \<open>
  An environment for examples: a cipher that leaves the content as it is, a socket that takes every
  datagram, and a constant congestion window.
\<close>

definition plain_env :: "instant \<Rightarrow> env" where
  "plain_env now =
     \<lparr>env_sha256 = (\<lambda>d. take 32 (d @ replicate 32 0)),
      env_enc = (\<lambda>k n a m. Some (m, replicate 8 0)), env_dec = (\<lambda>k n a c t. Some c),
      env_compress = (\<lambda>d. d), env_decompress = (\<lambda>d n. Some d),
      env_send_to = (\<lambda>sent d. SendReady (length d)), env_cubic = (\<lambda>t w. 10), env_now = now\<rparr>"

section \<open>State\<close>

record connected_params =
  par_c_id :: u16
  par_voice_encryption :: bool
  par_public_key :: bytes
  par_shared_iv :: bytes
  par_shared_mac :: bytes
  par_key_cache :: key_cache

definition connected_params_new :: "bytes \<Rightarrow> bytes \<Rightarrow> bytes \<Rightarrow> connected_params" where
  "connected_params_new public_key shared_iv shared_mac =
     \<lparr>par_c_id = 0, par_voice_encryption = True, par_public_key = public_key,
      par_shared_iv = shared_iv, par_shared_mac = shared_mac, par_key_cache = key_cache_default\<rparr>"

datatype event =
    ReceiveUdpPacket in_packet
  | ReceivePacket in_packet
  | SendUdpPacket out_udp_packet
  | SendPacket out_packet

datatype stream_item =
    ItemCommand in_packet
  | ItemAudio in_packet audio_data
  | ItemC2SInit in_packet c2s_init_data
  | ItemS2CInit in_packet s2c_init_data
  | ItemAckPacket packet_ident
  | ItemNetworkStatsUpdated
  | ItemError ts_error

text \<open>The per-type tables are indexed by packet type, the queues by \<open>Command\<close> and \<open>CommandLow\<close>.\<close>

record packet_codec =
  outgoing_p_ids :: "partial_packet_id list"
  receive_queue :: "bytes list list"
  fragmented_queue :: "bytes option list"
  incoming_p_ids :: "partial_packet_id list"

definition packet_codec_default :: packet_codec where
  "packet_codec_default =
     \<lparr>outgoing_p_ids = replicate 8 ppid_default, receive_queue = replicate 2 [],
      fragmented_queue = replicate 2 None, incoming_p_ids = replicate 8 ppid_default\<rparr>"

record connection =
  is_client :: bool
  con_params :: "connected_params option"
  con_address :: nat
  con_resender :: resender
  con_codec :: packet_codec
  stream_items :: "stream_item list"
  acks_to_send :: "out_udp_packet list"
  con_events :: "event list"
  con_sent :: "bytes list"

text \<open>
  A new connection. The first command of a client is part of its last init packet, so its command
  ids start at 1 on both sides.
\<close>

definition connection_new :: "bool \<Rightarrow> nat \<Rightarrow> instant \<Rightarrow> connection" where
  "connection_new client address now =
     (let c = packet_codec_default;
          i = type_index Command;
          c = (if client
               then c\<lparr>outgoing_p_ids := (outgoing_p_ids c)[i := PartialPacketId 0 1]\<rparr>
               else c\<lparr>incoming_p_ids := (incoming_p_ids c)[i := PartialPacketId 0 1]\<rparr>)
      in \<lparr>is_client = client, con_params = None, con_address = address,
          con_resender = resender_default now, con_codec = c, stream_items = [],
          acks_to_send = [], con_events = [], con_sent = []\<rparr>)"

text \<open>The directions of incoming and outgoing packets.\<close>

definition in_dir :: "connection \<Rightarrow> direction" where
  "in_dir con = (if is_client con then S2C else C2S)"

definition push_item :: "stream_item \<Rightarrow> connection \<Rightarrow> connection" where
  "push_item it con = con\<lparr>stream_items := stream_items con @ [it]\<rparr>"

definition send_event :: "event \<Rightarrow> connection \<Rightarrow> connection" where
  "send_event e con = con\<lparr>con_events := con_events con @ [e]\<rparr>"

section \<open>Results\<close>

text \<open>An operation returns its outcome and the connection, which it may have changed before an error.\<close>

type_synonym 'a con_result = "(ts_error, 'a) outcome \<times> connection"

fun bind_con :: "'a con_result \<Rightarrow> ('a \<Rightarrow> connection \<Rightarrow> 'b con_result) \<Rightarrow> 'b con_result" where
  "bind_con (Ok x, con) f = f x con"
| "bind_con (Err e, con) f = (Err e, con)"
| "bind_con (Panic, con) f = (Panic, con)"

lemmas [outcome_simps] = bind_con.simps

lemma bind_con_cases:
  "bind_con (m, con) f =
     (case m of Ok x \<Rightarrow> f x con | Err e \<Rightarrow> (Err e, con) | Panic \<Rightarrow> (Panic, con))"
  by (cases m) simp_all

lemma bind_con_eq_iff:
  "bind_con m f = (res, con') \<longleftrightarrow>
     (\<exists>x con1. m = (Ok x, con1) \<and> f x con1 = (res, con')) \<or>
     (\<exists>e. m = (Err e, con') \<and> res = Err e) \<or> (m = (Panic, con') \<and> res = Panic)"
  by (cases m; cases "fst m") auto

text \<open>A step that changes only the resender.\<close>

definition on_resender ::
  "(resender \<Rightarrow> (ts_error, resender) outcome) \<Rightarrow> connection \<Rightarrow> unit con_result" where
  "on_resender f con =
     (case f (con_resender con) of
        Ok r \<Rightarrow> (Ok (), con\<lparr>con_resender := r\<rparr>)
      | Err e \<Rightarrow> (Err e, con)
      | Panic \<Rightarrow> (Panic, con))"

end
