(* ===== verification/Resender.thy ===== *)
theory Resender
  imports Connection_State
begin

text \<open>
  The operations of \<open>tsproto/src/resend.rs\<close> on a connection: acknowledgements, adding a packet to
  the send queue, and the resend loop with the call that hands a datagram to the socket
  (\<open>Connection::static_poll_send_udp_packet\<close>). Polling happens at one instant of the clock
  (\<open>env_now\<close>).
\<close>

section \<open>Acknowledgements\<close>

text \<open>
  \<open>slice::binary_search_by_key\<close> of the standard library: the middle of the range is compared until
  it is equal or the range is empty.
\<close>

function binary_search_loop :: "u16 list \<Rightarrow> u16 \<Rightarrow> nat \<Rightarrow> nat \<Rightarrow> nat option" where
  "binary_search_loop ks k lo hi =
     (if lo < hi then
        let mid = lo + (hi - lo) div 2
        in if ks ! mid < k then binary_search_loop ks k (mid + 1) hi
           else if k < ks ! mid then binary_search_loop ks k lo mid
           else Some mid
      else None)"
  by auto
termination
  by (relation "measure (\<lambda>(_, _, lo, hi). hi - lo)") auto

declare binary_search_loop.simps [simp del]

definition binary_search :: "u16 list \<Rightarrow> u16 \<Rightarrow> nat option" where
  "binary_search ks k = binary_search_loop ks k 0 (length ks)"

definition ack_ping :: "instant \<Rightarrow> u16 \<Rightarrow> connection \<Rightarrow> connection" where
  "ack_ping now p_id con =
     (let r = con_resender con in
      case binary_search (map (packet_id \<circ> ping_id) (last_pings r)) p_id of
        Some i \<Rightarrow>
          let p = last_pings r ! i;
              r = r\<lparr>last_pings := remove_at i (last_pings r)\<rparr>
          in con\<lparr>con_resender := update_srtt (now - ping_sent p) r\<rparr>
      | None \<Rightarrow> con)"

definition resend_ack_packet ::
  "instant \<Rightarrow> packet_type \<Rightarrow> u16 \<Rightarrow> connection \<Rightarrow> unit con_result" where
  "resend_ack_packet now p_type p_id con =
     (if p_type = Ping then (Ok (), ack_ping now p_id con)
      else case packet_type_to_index p_type of
        None \<Rightarrow> (Panic, con)
      | Some qi \<Rightarrow>
          let queue = full_send_queue (con_resender con) ! qi in
          (case bt_entries queue of
             [] \<Rightarrow> (Ok (), con)
           | (first, _) # rest \<Rightarrow>
               let (ident, con) =
                 (if packet_id first = p_id then
                    let p_id = (case rest of
                          (_, rec2) # _ \<Rightarrow> rec_part rec2
                        | [] \<Rightarrow> if p_type = Init then PartialPacketId 0 (p_id + 1)
                               else outgoing_p_ids (con_codec con) ! type_index p_type)
                    in (first, push_item (ItemAckPacket (PacketId p_type (ppid_sub p_id 1))) con)
                  else
                    (PartialPacketId
                       (if p_id < packet_id first then generation_id first + 1
                        else generation_id first) p_id, con))
               in (case bt_get queue ident of
                     None \<Rightarrow> (Ok (), con)
                   | Some rec \<Rightarrow>
                       let r = con_resender con;
                           r = r\<lparr>full_send_queue := (full_send_queue r)[qi := bt_remove ident queue]\<rparr>;
                           r = (if sr_tries (rec_id rec) = 1
                                then update_srtt (now - rec_sent rec) r else r)
                       in (Ok (), con\<lparr>con_resender := r\<rparr>))))"

section \<open>Adding a packet\<close>

text \<open>\<open>From<&OutUdpPacket> for PacketId\<close>\<close>

definition udp_ident :: "out_udp_packet \<Rightarrow> (ts_error, packet_ident) outcome" where
  "udp_ident p =
     bind_out (unwrap (udp_packet_type p)) (\<lambda>t.
     bind_out (unwrap (udp_packet_id p)) (\<lambda>i.
       Ok (PacketId t (PartialPacketId (udp_generation_id p) i))))"

definition resend_add ::
  "(duration \<Rightarrow> u16 \<Rightarrow> int) \<Rightarrow> instant \<Rightarrow> out_udp_packet \<Rightarrow> resender \<Rightarrow> (ts_error, resender) outcome" where
  "resend_add cubic now packet r =
     bind_out (udp_ident packet) (\<lambda>ident.
     bind_out (unwrap (packet_type_to_index (pid_type ident))) (\<lambda>i.
       let part = pid_part ident;
           rec = \<lparr>rec_sent = now, rec_id = SendRecordId now 0 ident, rec_packet = packet\<rparr>;
           r = r\<lparr>last_send := now\<rparr>;
           r = (if send_queue_indices r ! i > part
                then r\<lparr>send_queue_indices := (send_queue_indices r)[i := part]\<rparr> else r);
           r = r\<lparr>full_send_queue :=
                   (full_send_queue r)[i := bt_insert part rec (full_send_queue r ! i)]\<rparr>
       in Ok (fill_up_send_queue cubic now r)))"

definition resend_send_packet :: "env \<Rightarrow> out_udp_packet \<Rightarrow> connection \<Rightarrow> unit con_result" where
  "resend_send_packet env packet =
     on_resender (resend_add (env_cubic env) (env_now env) packet)"

section \<open>Handing a datagram to the socket\<close>

text \<open>\<open>None\<close> is \<open>Poll::Pending\<close>. The listeners see every datagram the socket took.\<close>

definition static_poll_send_udp_packet ::
  "env \<Rightarrow> out_udp_packet \<Rightarrow> connection \<Rightarrow> (ts_error, unit) outcome option \<times> connection" where
  "static_poll_send_udp_packet env packet con =
     (let data = out_data (udp_data packet) in
      case env_send_to env (con_sent con) data of
        SendFailed \<Rightarrow> (Some (Err Network), con)
      | SendPending \<Rightarrow> (None, con)
      | SendReady sz \<Rightarrow>
          let con = send_event (SendUdpPacket packet) (con\<lparr>con_sent := con_sent con @ [data]\<rparr>)
          in (Some (if sz \<noteq> length data then Err Network else Ok ()), con))"

section \<open>The resend loop\<close>

definition retransmission_timeout :: "resender \<Rightarrow> duration" where
  "retransmission_timeout r =
     (let rto = srtt (rs_config r) + srtt_dev (rs_config r) * 4
      in if rto > from_secs 1 then from_secs 1 else rto)"

text \<open>
  What happens after the top record of the send queue was sent: the records and statistics are
  updated; on a repeated send the timeout doubles, the window shrinks and the send queue is rebuilt.
\<close>

definition count_send ::
  "env \<Rightarrow> send_record_id \<Rightarrow> nat \<Rightarrow> send_record \<Rightarrow> packet_type \<Rightarrow> resender \<Rightarrow> resender" where
  "count_send env rec qi full_rec p_type r =
     (let r = (if sr_tries rec \<noteq> 0
               then r\<lparr>rs_counter := handle_loss_resend_command (rs_counter r)\<rparr> else r);
          rec' = SendRecordId (env_now env) (sr_tries rec + 1) (sr_id rec);
          r = r\<lparr>full_send_queue := (full_send_queue r)[qi := bt_insert (pid_part (sr_id rec))
                  (full_rec\<lparr>rec_id := rec'\<rparr>) (full_send_queue r ! qi)],
                send_queue := heap_replace_top rec' (send_queue r)\<rparr>;
          p_stat = packet_stat_from p_type False;
          len = udp_len (rec_packet full_rec)
      in r\<lparr>rs_counter := counter_loss_outgoing p_type p_stat len (rs_counter r),
           rs_stats := stats_loss_outgoing p_stat (ucast len) (rs_stats r)\<rparr>)"

definition on_loss :: "env \<Rightarrow> duration \<Rightarrow> resender \<Rightarrow> resender" where
  "on_loss env timeout r =
     (let c = rs_config r;
          c = c\<lparr>srtt := srtt c * 2\<rparr>;
          c = (if srtt c > timeout then c\<lparr>srtt := timeout\<rparr> else c);
          r = r\<lparr>rs_config := c\<rparr>
      in r\<lparr>w_max := get_window (env_cubic env) (env_now env) r, last_loss := env_now env,
           no_congestion_since := None\<rparr>)"

definition after_send ::
  "env \<Rightarrow> duration \<Rightarrow> send_record_id \<Rightarrow> nat \<Rightarrow> send_record \<Rightarrow> packet_type \<Rightarrow> resender \<Rightarrow> resender" where
  "after_send env timeout rec qi full_rec p_type r =
     (let r = count_send env rec qi full_rec p_type r
      in if sr_tries rec + 1 \<noteq> 1
         then rebuild_send_queue (env_cubic env) (env_now env) (on_loss env timeout r)
         else r)"

text \<open>One iteration; the result says whether the loop continues.\<close>

definition poll_resend_step :: "env \<Rightarrow> duration \<Rightarrow> connection \<Rightarrow> bool con_result" where
  "poll_resend_step env timeout con =
     (let now = env_now env;
          r = con_resender con;
          last_threshold = now - retransmission_timeout r
      in case heap_peek (send_queue r) of
           None \<Rightarrow> (Ok False, con)
         | Some rec \<Rightarrow>
         (case packet_type_to_index (pid_type (sr_id rec)) of
            None \<Rightarrow> (Panic, con)
          | Some qi \<Rightarrow>
         (case bt_get (full_send_queue r ! qi) (pid_part (sr_id rec)) of
            None \<Rightarrow>
              (Ok True, con\<lparr>con_resender :=
                 fill_up_send_queue (env_cubic env) now (r\<lparr>send_queue := heap_pop (send_queue r)\<rparr>)\<rparr>)
          | Some full_rec \<Rightarrow>
              if sr_tries rec \<noteq> 0 \<and> sr_last rec > last_threshold then
                let deadline = now + (sr_last rec - last_threshold)
                in (Ok (deadline \<le> now), con\<lparr>con_resender :=
                      r\<lparr>rs_timers := rs_timers r\<lparr>tm_timeout := deadline\<rparr>\<rparr>\<rparr>)
              else if now - rec_sent full_rec > timeout then
                (Err (Timeout ''Packet was not acked''), con)
              else
                (case static_poll_send_udp_packet env (rec_packet full_rec) con of
                   (None, con) \<Rightarrow> (Ok False, con)
                 | (Some res, con) \<Rightarrow>
                     bind_con (res, con) (\<lambda>_ con.
                     bind_con (unwrap (udp_packet_type (rec_packet full_rec)), con) (\<lambda>p_type con.
                       (Ok True, con\<lparr>con_resender :=
                          after_send env timeout rec qi full_rec p_type (con_resender con)\<rparr>)))))))"

text \<open>The loop; \<open>None\<close> when the fuel does not suffice.\<close>

fun poll_resend_loop :: "nat \<Rightarrow> env \<Rightarrow> duration \<Rightarrow> connection \<Rightarrow> unit con_result option" where
  "poll_resend_loop 0 env timeout con = None"
| "poll_resend_loop (Suc n) env timeout con =
     (case poll_resend_step env timeout con of
        (Ok True, con) \<Rightarrow> poll_resend_loop n env timeout con
      | (Ok False, con) \<Rightarrow> Some (Ok (), con)
      | (Err e, con) \<Rightarrow> Some (Err e, con)
      | (Panic, con) \<Rightarrow> Some (Panic, con))"

definition poll_resend :: "nat \<Rightarrow> env \<Rightarrow> connection \<Rightarrow> unit con_result option" where
  "poll_resend fuel env con = poll_resend_loop fuel env (get_timeout (con_resender con)) con"

section \<open>The invariant of the resender\<close>

definition resender_ok :: "resender \<Rightarrow> bool" where
  "resender_ok r \<longleftrightarrow> queues_ok r \<and> queue_complete r"

lemma resender_okI:
  assumes "full_send_queue r' = full_send_queue r" "send_queue_indices r' = send_queue_indices r"
    "send_queue r' = send_queue r"
  shows "resender_ok r' \<longleftrightarrow> resender_ok r" "queues_ok r' \<longleftrightarrow> queues_ok r"
  using assms by (simp_all add: resender_ok_def queues_ok_def queue_complete_def)

lemma resender_ok_default: "resender_ok (resender_default now)"
  by (auto simp: resender_ok_def queues_ok_def queue_complete_def resender_default_def bt_ok_def
      bt_entries_def)

lemma resender_ok_fill: "resender_ok r \<Longrightarrow> resender_ok (fill_up_send_queue cubic now r)"
  by (simp add: resender_ok_def fill_up_ok)

lemma resender_ok_rebuild: "queues_ok r \<Longrightarrow> resender_ok (rebuild_send_queue cubic now r)"
  by (simp add: resender_ok_def rebuild_ok)

lemma update_srtt_queues [simp]:
  "full_send_queue (update_srtt d r) = full_send_queue r"
  "send_queue_indices (update_srtt d r) = send_queue_indices r"
  "send_queue (update_srtt d r) = send_queue r"
  by (simp_all add: update_srtt_def Let_def)

lemma packet_type_index_less: "packet_type_to_index t = Some i \<Longrightarrow> i < 3"
  by (cases t) auto

lemma packet_type_index_inj:
  "packet_type_to_index t = Some i \<Longrightarrow> packet_type_to_index t' = Some i \<Longrightarrow> t = t'"
  by (cases t; cases t') auto

text \<open>Taking a record out of a queue.\<close>

lemma resender_ok_remove:
  assumes "resender_ok r" "i < 3"
  shows "resender_ok (r\<lparr>full_send_queue := (full_send_queue r)[i := bt_remove k (full_send_queue r ! i)]\<rparr>)"
proof -
  have ok: "bt_ok (full_send_queue r ! i)" "length (full_send_queue r) = 3"
    using assms by (simp_all add: resender_ok_def queues_ok_def)
  then show ?thesis
    using assms bt.entries_remove_set [OF ok(1), of k] bt.ok_remove [OF ok(1), of k]
    by (fastforce simp: resender_ok_def queues_ok_def queue_complete_def nth_list_update)
qed

text \<open>Putting a record in: it has to be at or above the index, or in the send queue.\<close>

lemma resender_ok_insert:
  assumes "queues_ok r" "i < 3" "rec_part rec = k" "packet_type_to_index (pid_type (sr_id (rec_id rec))) = Some i"
    and indices: "length ixs = 3" "\<forall>j < 3. ixs ! j \<le> send_queue_indices r ! j"
    and new: "k < ixs ! i \<Longrightarrow> queued h rec"
    and old: "\<forall>j < 3. \<forall>(k', rec') \<in> set (bt_entries (full_send_queue r ! j)).
      k' < ixs ! j \<longrightarrow> queued h rec'"
  shows "resender_ok (r\<lparr>send_queue_indices := ixs, send_queue := h,
      full_send_queue := (full_send_queue r)[i := bt_insert k rec (full_send_queue r ! i)]\<rparr>)"
proof -
  let ?r = "r\<lparr>send_queue_indices := ixs, send_queue := h,
      full_send_queue := (full_send_queue r)[i := bt_insert k rec (full_send_queue r ! i)]\<rparr>"
  have ok: "bt_ok (full_send_queue r ! i)" "length (full_send_queue r) = 3"
    using assms(1,2) by (simp_all add: queues_ok_def)
  note ent = bt.entries_insert_set [OF ok(1), of k rec]
  have nth: "full_send_queue ?r ! j =
      (if j = i then bt_insert k rec (full_send_queue r ! i) else full_send_queue r ! j)" if "j < 3" for j
    using ok(2) that by simp
  have "queues_ok ?r"
    unfolding queues_ok_def
  proof (intro conjI allI impI)
    show "length (full_send_queue ?r) = 3" "length (send_queue_indices ?r) = 3"
      using ok(2) indices(1) by simp_all
    fix j :: nat assume j: "j < 3"
    show "bt_ok (full_send_queue ?r ! j)"
      unfolding nth [OF j] using queues_okD(1) [OF assms(1) j] bt.ok_insert [OF ok(1)] by simp
    show "\<forall>(k, rec) \<in> set (bt_entries (full_send_queue ?r ! j)).
        rec_part rec = k \<and> packet_type_to_index (pid_type (sr_id (rec_id rec))) = Some j"
      unfolding nth [OF j] using queues_okD(2) [OF assms(1) j] assms(3,4) ent by (auto split: if_splits)
  qed
  moreover have "queue_complete ?r"
    unfolding queue_complete_def
  proof (intro allI impI)
    fix j :: nat assume j: "j < 3"
    show "\<forall>(k, rec) \<in> set (bt_entries (full_send_queue ?r ! j)).
        k < send_queue_indices ?r ! j \<longrightarrow> queued (send_queue ?r) rec"
      unfolding nth [OF j] using old j new ent by (auto split: if_splits)
  qed
  ultimately show ?thesis by (simp add: resender_ok_def)
qed

section \<open>Every operation keeps the invariant\<close>

lemma resender_ok_add:
  assumes "resender_ok r" "resend_add cubic now packet r = Ok r'"
  shows "resender_ok r'"
proof -
  obtain ident i where i: "packet_type_to_index (pid_type ident) = Some i" "i < 3"
    and id: "udp_ident packet = Ok ident"
    using assms(2) packet_type_index_less
    by (fastforce simp: resend_add_def bind_out_eq_Ok_iff elim: unwrap.elims)
  let ?k = "pid_part ident"
  define ixs where "ixs = (if send_queue_indices r ! i > ?k
    then (send_queue_indices r)[i := ?k] else send_queue_indices r)"
  define rec where "rec = \<lparr>rec_sent = now, rec_id = SendRecordId now 0 ident, rec_packet = packet\<rparr>"
  let ?r = "r\<lparr>last_send := now\<rparr>"
  have q: "queues_ok ?r" using assms(1) resender_okI(2) [of ?r r] by (simp add: resender_ok_def)
  have len: "length (send_queue_indices r) = 3"
    using assms(1) by (simp add: resender_ok_def queues_ok_def)
  have "resender_ok (?r\<lparr>send_queue_indices := ixs, send_queue := send_queue r,
      full_send_queue := (full_send_queue ?r)[i := bt_insert ?k rec (full_send_queue ?r ! i)]\<rparr>)"
  proof (rule resender_ok_insert [OF q i(2)])
    show "rec_part rec = ?k" "packet_type_to_index (pid_type (sr_id (rec_id rec))) = Some i"
      by (simp_all add: rec_def i)
    show "length ixs = 3" using len by (simp add: ixs_def)
    show le: "\<forall>j < 3. ixs ! j \<le> send_queue_indices ?r ! j"
      using len i(2) by (auto simp: ixs_def nth_list_update less_imp_le)
    show "queued (send_queue r) rec" if "?k < ixs ! i"
      using that len i(2) by (auto simp: ixs_def split: if_splits)
    show "\<forall>j < 3. \<forall>(k', rec') \<in> set (bt_entries (full_send_queue ?r ! j)).
        k' < ixs ! j \<longrightarrow> queued (send_queue r) rec'"
    proof (intro allI impI)
      fix j :: nat assume j: "j < 3"
      then have "\<forall>(k', rec') \<in> set (bt_entries (full_send_queue r ! j)).
          k' < send_queue_indices r ! j \<longrightarrow> queued (send_queue r) rec'"
        using assms(1) unfolding resender_ok_def queue_complete_def by blast
      moreover have "ixs ! j \<le> send_queue_indices r ! j" using le j by simp
      ultimately show "\<forall>(k', rec') \<in> set (bt_entries (full_send_queue ?r ! j)).
          k' < ixs ! j \<longrightarrow> queued (send_queue r) rec'"
        by (auto dest: order.strict_trans2)
    qed
  qed
  moreover have "r' = fill_up_send_queue cubic now (?r\<lparr>send_queue_indices := ixs, send_queue := send_queue r,
      full_send_queue := (full_send_queue ?r)[i := bt_insert ?k rec (full_send_queue ?r ! i)]\<rparr>)"
    using assms(2) by (auto simp: resend_add_def id i Let_def rec_def ixs_def)
  ultimately show ?thesis by (simp add: resender_ok_fill)
qed

lemma ack_ping_ok: "resender_ok (con_resender con) \<Longrightarrow> resender_ok (con_resender (ack_ping now i con))"
proof -
  have "full_send_queue (con_resender (ack_ping now i con)) = full_send_queue (con_resender con)"
    "send_queue_indices (con_resender (ack_ping now i con)) = send_queue_indices (con_resender con)"
    "send_queue (con_resender (ack_ping now i con)) = send_queue (con_resender con)"
    by (simp_all add: ack_ping_def Let_def split: option.split)
  from resender_okI(1) [OF this]
  show "resender_ok (con_resender con) \<Longrightarrow> resender_ok (con_resender (ack_ping now i con))"
    by (rule iffD2)
qed

lemma push_item_resender [simp]: "con_resender (push_item it con) = con_resender con"
  by (simp add: push_item_def)

text \<open>Acknowledging: what is removed, and what is announced.\<close>

definition acked_ident :: "partial_packet_id \<Rightarrow> u16 \<Rightarrow> partial_packet_id" where
  "acked_ident first p_id =
     (if packet_id first = p_id then first
      else PartialPacketId
             (if p_id < packet_id first then generation_id first + 1 else generation_id first) p_id)"

lemma ack_result:
  assumes qi: "packet_type_to_index t = Some qi"
    and e: "bt_entries (full_send_queue (con_resender con) ! qi) = (first, rec1) # rest"
  shows "\<exists>r' items. resend_ack_packet now t i con = (Ok (), con\<lparr>con_resender := r',
      stream_items := stream_items con @ items\<rparr>) \<and>
    full_send_queue r' = (full_send_queue (con_resender con))[qi :=
      bt_remove (acked_ident first i) (full_send_queue (con_resender con) ! qi)] \<and>
    send_queue r' = send_queue (con_resender con) \<and>
    send_queue_indices r' = send_queue_indices (con_resender con) \<and>
    items = (if packet_id first = i then [ItemAckPacket (PacketId t (ppid_sub
        (case rest of (_, rec2) # _ \<Rightarrow> rec_part rec2
         | [] \<Rightarrow> if t = Init then PartialPacketId 0 (i + 1)
                else outgoing_p_ids (con_codec con) ! type_index t) 1))] else [])"
proof -
  let ?r = "con_resender con" and ?id = "acked_ident first i"
  let ?q = "full_send_queue ?r ! qi"
  have t: "t \<noteq> Ping" using qi by auto
  have none: "bt_remove ?id ?q = ?q" if "bt_get ?q ?id = None"
  proof -
    have "\<forall>e \<in> set ?q. fst e \<noteq> ?id"
      using that by (force simp: bt_get_def map_of_eq_None_iff)
    then show ?thesis by (simp add: bt_remove_def filter_id_conv)
  qed
  show ?thesis
  proof (cases "bt_get ?q ?id")
    case None
    then show ?thesis
      using t
      by (auto simp: resend_ack_packet_def qi Let_def e acked_ident_def none [OF None, unfolded acked_ident_def]
          push_item_def split: prod.splits if_splits intro!: exI [of _ ?r])
  next
    case (Some rec)
    then show ?thesis
      using t
      by (auto simp: resend_ack_packet_def qi Let_def e acked_ident_def push_item_def
          split: prod.splits if_splits
          intro!: exI [of _ "(if sr_tries (rec_id rec) = 1 then update_srtt (now - rec_sent rec) else (\<lambda>r. r))
            (?r\<lparr>full_send_queue := (full_send_queue ?r)[qi := bt_remove ?id ?q]\<rparr>)"])
  qed
qed

lemma ack_packet_ok:
  assumes "resender_ok (con_resender con)" "resend_ack_packet now t i con = (res, con')"
  shows "resender_ok (con_resender con')"
proof (cases "t = Ping")
  case True
  then show ?thesis using assms by (auto simp: resend_ack_packet_def ack_ping_ok)
next
  case False
  show ?thesis
  proof (cases "packet_type_to_index t")
    case None
    then show ?thesis using assms False by (auto simp: resend_ack_packet_def)
  next
    case (Some qi)
    show ?thesis
    proof (cases "bt_entries (full_send_queue (con_resender con) ! qi)")
      case Nil
      then show ?thesis using assms False Some by (auto simp: resend_ack_packet_def Let_def)
    next
      case (Cons e rest)
      obtain first rec1 where e: "e = (first, rec1)" by (cases e)
      let ?r = "con_resender con"
      from ack_result [OF Some Cons [unfolded e], of now i] assms(2)
      have q: "full_send_queue (con_resender con') = (full_send_queue ?r)[qi :=
          bt_remove (acked_ident first i) (full_send_queue ?r ! qi)]"
        "send_queue (con_resender con') = send_queue ?r"
        "send_queue_indices (con_resender con') = send_queue_indices ?r"
        by auto
      show ?thesis
        using resender_ok_remove [OF assms(1) packet_type_index_less [OF Some], of "acked_ident first i"]
        by (subst resender_okI(1)) (simp_all add: q)
    qed
  qed
qed

lemma static_poll_resender:
  "static_poll_send_udp_packet env packet con = (res, con') \<Longrightarrow> con_resender con' = con_resender con"
  by (auto simp: static_poll_send_udp_packet_def Let_def send_event_def split: send_poll.splits)

text \<open>After a record was sent, its queue entry and the top of the send queue hold the new record id.\<close>

lemma queued_replace:
  assumes "heap_peek h = Some x" "sr_id y = sr_id x" "queued h rec"
  shows "queued (heap_replace_top y h) rec"
  using assms heap.elems_replace [OF assms(1), of y]
  by (cases "sr_id x = sr_id (rec_id rec)") (auto simp: queued_def in_diff_count)

lemma queued_replaced:
  "heap_peek h = Some x \<Longrightarrow> sr_id y = sr_id (rec_id rec) \<Longrightarrow> queued (heap_replace_top y h) rec"
  using heap.elems_replace [of h x y] by (auto simp: queued_def)

text \<open>The state between the update of the record and the treatment of a repeated loss.\<close>

definition sent_record :: "env \<Rightarrow> send_record_id \<Rightarrow> send_record_id" where
  "sent_record env rec = SendRecordId (env_now env) (sr_tries rec + 1) (sr_id rec)"

definition record_sent ::
  "env \<Rightarrow> send_record_id \<Rightarrow> nat \<Rightarrow> send_record \<Rightarrow> resender \<Rightarrow> resender" where
  "record_sent env rec qi full_rec r =
     r\<lparr>send_queue_indices := send_queue_indices r,
       send_queue := heap_replace_top (sent_record env rec) (send_queue r),
       full_send_queue := (full_send_queue r)[qi := bt_insert (pid_part (sr_id rec))
         (full_rec\<lparr>rec_id := sent_record env rec\<rparr>) (full_send_queue r ! qi)]\<rparr>"

lemma record_sent_ok:
  assumes ok: "resender_ok r" and top: "heap_peek (send_queue r) = Some rec"
    and qi: "packet_type_to_index (pid_type (sr_id rec)) = Some qi"
  shows "resender_ok (record_sent env rec qi full_rec r)"
proof -
  have q: "queues_ok r" "length (send_queue_indices r) = 3"
    using ok by (simp_all add: resender_ok_def queues_ok_def)
  have new: "queued (heap_replace_top (sent_record env rec) (send_queue r))
      (full_rec\<lparr>rec_id := sent_record env rec\<rparr>)"
    by (rule queued_replaced [OF top]) simp
  have old: "queued (heap_replace_top (sent_record env rec) (send_queue r)) rec'"
    if "queued (send_queue r) rec'" for rec'
    by (rule queued_replace [OF top _ that]) (simp add: sent_record_def)
  show ?thesis
    unfolding record_sent_def
  proof (rule resender_ok_insert [OF q(1) packet_type_index_less [OF qi]])
    show "\<forall>j < 3. \<forall>(k', rec') \<in> set (bt_entries (full_send_queue r ! j)).
        k' < send_queue_indices r ! j \<longrightarrow>
        queued (heap_replace_top (sent_record env rec) (send_queue r)) rec'"
      using ok old unfolding resender_ok_def queue_complete_def by fast
  qed (use new q qi in \<open>simp_all add: sent_record_def\<close>)
qed

lemma count_send_queues [simp]:
  "full_send_queue (count_send env rec qi full_rec t r) = full_send_queue (record_sent env rec qi full_rec r)"
  "send_queue (count_send env rec qi full_rec t r) = send_queue (record_sent env rec qi full_rec r)"
  "send_queue_indices (count_send env rec qi full_rec t r) =
     send_queue_indices (record_sent env rec qi full_rec r)"
  by (simp_all add: count_send_def record_sent_def sent_record_def Let_def)

lemma on_loss_queues [simp]:
  "full_send_queue (on_loss env timeout r) = full_send_queue r"
  "send_queue (on_loss env timeout r) = send_queue r"
  "send_queue_indices (on_loss env timeout r) = send_queue_indices r"
  by (simp_all add: on_loss_def Let_def)

lemma after_send_ok:
  assumes "resender_ok r" "heap_peek (send_queue r) = Some rec"
    "packet_type_to_index (pid_type (sr_id rec)) = Some qi"
  shows "resender_ok (after_send env timeout rec qi full_rec t r)"
proof -
  let ?r = "count_send env rec qi full_rec t r"
  have "resender_ok ?r"
    using resender_okI(1) [of ?r "record_sent env rec qi full_rec r"] record_sent_ok [OF assms] by simp
  moreover from this have "queues_ok (on_loss env timeout ?r)"
    using resender_okI(2) [of "on_loss env timeout ?r" ?r] by (simp add: resender_ok_def)
  ultimately show ?thesis
    by (auto simp: after_send_def Let_def intro: resender_ok_rebuild)
qed

lemma heap_pop_ok:
  assumes "resender_ok r" "heap_peek (send_queue r) = Some rec"
    "packet_type_to_index (pid_type (sr_id rec)) = Some qi"
    "bt_get (full_send_queue r ! qi) (pid_part (sr_id rec)) = None"
  shows "resender_ok (r\<lparr>send_queue := heap_pop (send_queue r)\<rparr>)"
proof -
  have q: "queues_ok r" using assms(1) by (simp add: resender_ok_def)
  have "queued (heap_pop (send_queue r)) rec'"
    if "i < 3" "(k, rec') \<in> set (bt_entries (full_send_queue r ! i))" "queued (send_queue r) rec'"
    for i k rec'
  proof -
    have "sr_id rec \<noteq> sr_id (rec_id rec')"
    proof
      assume eq: "sr_id rec = sr_id (rec_id rec')"
      from queues_okD(2) [OF q that(1,2)] eq assms(3) have "i = qi" "k = pid_part (sr_id rec)"
        by auto
      moreover have "bt_get (full_send_queue r ! i) k = Some rec'"
        using that(2) bt.entries_get [OF queues_okD(1) [OF q that(1)]] by blast
      ultimately show False using assms(4) by simp
    qed
    with that(3) show ?thesis
      unfolding queued_def using heap.pop_keeps [OF assms(2)] by metis
  qed
  then show ?thesis
    using assms(1) by (fastforce simp: resender_ok_def queues_ok_def queue_complete_def)
qed

lemma poll_resend_step_ok:
  assumes "resender_ok (con_resender con)" "poll_resend_step env timeout con = (res, con')"
  shows "resender_ok (con_resender con')"
proof (cases "heap_peek (send_queue (con_resender con))")
  case None
  then show ?thesis using assms by (simp add: poll_resend_step_def Let_def)
next
  case (Some rec)
  note top = this
  let ?r = "con_resender con"
  show ?thesis
  proof (cases "packet_type_to_index (pid_type (sr_id rec))")
    case None
    then show ?thesis using assms top by (simp add: poll_resend_step_def Let_def)
  next
    case (Some qi)
    note qi = this
    show ?thesis
    proof (cases "bt_get (full_send_queue ?r ! qi) (pid_part (sr_id rec))")
      case None
      then show ?thesis
        using assms(2) top qi heap_pop_ok [OF assms(1) top qi None]
        by (auto simp: poll_resend_step_def Let_def resender_ok_fill)
    next
      case (Some full_rec)
      have timer: "resender_ok (?r\<lparr>rs_timers := ts\<rparr>)" for ts
        using resender_okI(1) [of "?r\<lparr>rs_timers := ts\<rparr>" ?r] assms(1) by simp
      obtain sent con1 where s: "static_poll_send_udp_packet env (rec_packet full_rec) con = (sent, con1)"
        by (cases "static_poll_send_udp_packet env (rec_packet full_rec) con")
      have r1: "con_resender con1 = ?r" by (rule static_poll_resender [OF s])
      have "resender_ok (after_send env timeout rec qi full_rec t ?r)" for t
        by (rule after_send_ok [OF assms(1) top qi])
      with assms timer r1 show ?thesis
        unfolding poll_resend_step_def Let_def top option.case qi Some s
        by (cases sent; cases "the sent"; cases "udp_packet_type (rec_packet full_rec)")
          (auto split: if_splits)
    qed
  qed
qed

end
