(* ===== verification/Packet_Codec.thy ===== *)
theory Packet_Codec
  imports Resender
begin

text \<open>
  \<open>tsproto/src/packet_codec.rs\<close>: reordering, defragmentation and decompression of command packets
  (\<open>handle_command_packet\<close>), encoding of outgoing packets (\<open>encode_packet\<close>) and the whole treatment
  of an incoming packet (\<open>handle_udp_packet\<close>) with the acknowledgements it sends
  (\<open>Connection::send_ack_packet\<close>).
\<close>

section \<open>Command packets in order\<close>

text \<open>
  One in-order packet against the queue of fragments: the finished packet, if there is one, and the
  new queue. On an error the queue is as the code leaves it.
\<close>

definition decompress_in_place ::
  "(bytes \<Rightarrow> nat \<Rightarrow> bytes option) \<Rightarrow> in_packet \<Rightarrow> bytes \<Rightarrow> (ts_error, bytes) outcome" where
  "decompress_in_place decompress packet d =
     bind_out (ok_or DecompressPacket (decompress (pkt_content packet) MAX_DECOMPRESSED_SIZE))
       (\<lambda>decompressed. Ok (take (length (hdr_data (pkt_header packet))) d @ decompressed))"

definition handle_fragment ::
  "(bytes \<Rightarrow> nat \<Rightarrow> bytes option) \<Rightarrow> direction \<Rightarrow> bytes option \<Rightarrow> bytes
     \<Rightarrow> (ts_error, bytes option) outcome \<times> bytes option" where
  "handle_fragment decompress dir frag packet_data =
     (case in_packet_new dir packet_data of
        Panic \<Rightarrow> (Panic, frag)
      | Err e \<Rightarrow> (Err e, frag)
      | Ok packet \<Rightarrow>
          let flags = hdr_flags (pkt_header packet) in
          if has_flag flags FRAGMENTED then
            (case frag of
               Some frag_data \<Rightarrow>
                 let frag_data = frag_data @ pkt_content packet in
                 (bind_out (in_packet_new dir frag_data) (\<lambda>header.
                    bind_out
                      (if has_flag (hdr_flags (pkt_header header)) COMPRESSED
                       then decompress_in_place decompress header frag_data else Ok frag_data)
                      (\<lambda>d. Ok (Some d))), None)
             | None \<Rightarrow> (Ok None, Some packet_data))
          else
            (case frag of
               Some frag_data \<Rightarrow>
                 if length frag_data < MAX_FRAGMENTS_LENGTH
                 then (Ok None, Some (frag_data @ pkt_content packet))
                 else (Err (MaxLengthExceeded ''fragment queue''), frag)
             | None \<Rightarrow>
                 (bind_out
                    (if has_flag flags COMPRESSED
                     then decompress_in_place decompress packet packet_data else Ok packet_data)
                    (\<lambda>d. Ok (Some d)), None)))"

text \<open>
  The receiving side of one kind of command packets: the next expected id, the packets that came
  too early and the collected fragments.
\<close>

record cmd_channel =
  ch_next :: partial_packet_id
  ch_queue :: "bytes list"
  ch_frag :: "bytes option"

text \<open>The packet id of a stored packet (\<open>InHeader::new(dir, p).packet_id()\<close>).\<close>

definition stored_id :: "direction \<Rightarrow> bytes \<Rightarrow> u16" where
  "stored_id dir d = hdr_packet_id \<lparr>hdr_direction = dir, hdr_data = take (header_len dir) d\<rparr>"

text \<open>The loop over the in-order packet and the stored ones that follow it.\<close>

function deliver_loop ::
  "(bytes \<Rightarrow> nat \<Rightarrow> bytes option) \<Rightarrow> direction \<Rightarrow> u16 \<Rightarrow> bytes \<Rightarrow> bytes list \<Rightarrow> cmd_channel
     \<Rightarrow> (ts_error, bytes list) outcome \<times> cmd_channel" where
  "deliver_loop decompress dir pid packet_data packets ch =
     (let ch = ch\<lparr>ch_next := ppid_add (ch_next ch) 1\<rparr> in
      case handle_fragment decompress dir (ch_frag ch) packet_data of
        (Err e, frag) \<Rightarrow> (Err e, ch\<lparr>ch_frag := frag\<rparr>)
      | (Panic, frag) \<Rightarrow> (Panic, ch\<lparr>ch_frag := frag\<rparr>)
      | (Ok res, frag) \<Rightarrow>
          let ch = ch\<lparr>ch_frag := frag\<rparr>;
              packets = (case res of Some p \<Rightarrow> packets @ [p] | None \<Rightarrow> packets);
              pid = pid + 1
          in case position (\<lambda>p. stored_id dir p = pid) (ch_queue ch) of
               None \<Rightarrow> (Ok packets, ch)
             | Some pos \<Rightarrow>
                 deliver_loop decompress dir pid (ch_queue ch ! pos) packets
                   (ch\<lparr>ch_queue := remove_at pos (ch_queue ch)\<rparr>))"
  by auto
termination
  by (relation "measure (\<lambda>(_, _, _, _, _, ch). length (ch_queue ch))")
    (auto dest!: position_Some simp: length_remove_at)

declare deliver_loop.simps [simp del]

definition in_command_window :: "u16 \<Rightarrow> u16 \<Rightarrow> bool" where
  "in_command_window cur_next pid =
     (let (limit, next_gen) = overflowing_add16 cur_next MAX_QUEUE_LEN
      in (\<not> next_gen \<and> cur_next \<le> pid \<and> pid < limit) \<or> (next_gen \<and> (cur_next \<le> pid \<or> pid < limit)))"

definition handle_command ::
  "(bytes \<Rightarrow> nat \<Rightarrow> bytes option) \<Rightarrow> direction \<Rightarrow> bytes \<Rightarrow> cmd_channel
     \<Rightarrow> (ts_error, bytes list) outcome \<times> cmd_channel" where
  "handle_command decompress dir packet_data ch =
     (let pid = stored_id dir packet_data; cur_next = packet_id (ch_next ch) in
      if cur_next = pid then deliver_loop decompress dir pid packet_data [] ch
      else if in_command_window cur_next pid
      then (Ok [], ch\<lparr>ch_queue := ch_queue ch @ [packet_data]\<rparr>)
      else (Err (MaxLengthExceeded ''command queue''), ch))"

definition get_channel :: "packet_type \<Rightarrow> packet_codec \<Rightarrow> cmd_channel" where
  "get_channel p_type c =
     (let cmd_i = (if p_type = Command then 0 else 1)
      in \<lparr>ch_next = incoming_p_ids c ! type_index p_type,
          ch_queue = receive_queue c ! cmd_i, ch_frag = fragmented_queue c ! cmd_i\<rparr>)"

definition put_channel :: "packet_type \<Rightarrow> cmd_channel \<Rightarrow> packet_codec \<Rightarrow> packet_codec" where
  "put_channel p_type ch c =
     (let cmd_i = (if p_type = Command then 0 else 1)
      in c\<lparr>incoming_p_ids := (incoming_p_ids c)[type_index p_type := ch_next ch],
           receive_queue := (receive_queue c)[cmd_i := ch_queue ch],
           fragmented_queue := (fragmented_queue c)[cmd_i := ch_frag ch]\<rparr>)"

definition handle_command_packet ::
  "env \<Rightarrow> packet_type \<Rightarrow> bytes \<Rightarrow> connection \<Rightarrow> bytes list con_result" where
  "handle_command_packet env p_type packet_data con =
     (let (res, ch) = handle_command (env_decompress env) (in_dir con) packet_data
                        (get_channel p_type (con_codec con))
      in (res, con\<lparr>con_codec := put_channel p_type ch (con_codec con)\<rparr>))"

section \<open>Encoding\<close>

definition or_flags :: "flags \<Rightarrow> out_packet \<Rightarrow> out_packet" where
  "or_flags f p = set_flags (hdr_flags (out_header p) OR f) p"

text \<open>
  Which packets are encrypted with the fixed key: the first command of the server, the client's
  \<open>clientek\<close> and the client's first ack.
\<close>

definition fake_encrypt :: "bool \<Rightarrow> packet_type \<Rightarrow> partial_packet_id \<Rightarrow> out_packet \<Rightarrow> bool" where
  "fake_encrypt client p_type p_id packet \<longleftrightarrow>
     (p_type = Command \<and> generation_id p_id = 0 \<and>
        ((\<not> client \<and> packet_id p_id = 0) \<or>
         (client \<and> packet_id p_id = 1 \<and> starts_with (out_content packet) (bstr ''clientek'')))) \<or>
     (client \<and> p_type = Ack \<and> generation_id p_id = 0 \<and> packet_id p_id = 0)"

text \<open>The id and the encryption of one packet; the id that is sent with it is the incremented one.\<close>

definition encode_one ::
  "env \<Rightarrow> packet_type \<Rightarrow> bool \<Rightarrow> bool \<Rightarrow> out_packet \<Rightarrow> connection \<Rightarrow> out_udp_packet con_result" where
  "encode_one env p_type should fake packet con =
     (let c = con_codec con;
          p_id = (if p_type = Init then PartialPacketId 0 0
                  else outgoing_p_ids c ! type_index p_type);
          packet = (if p_type = Init then packet else set_packet_id (packet_id p_id) packet)
      in bind_con
           (if fake then (encrypt_fake (env_enc env) packet, con)
            else if should then
              (case con_params con of
                 None \<Rightarrow> (Panic, con)
               | Some params \<Rightarrow>
                   (case encrypt (env_sha256 env) (env_enc env) packet (generation_id p_id)
                           (par_shared_iv params) (par_key_cache params) of
                      Ok (packet, cache) \<Rightarrow>
                        (Ok packet, con\<lparr>con_params := Some (params\<lparr>par_key_cache := cache\<rparr>)\<rparr>)
                    | Err e \<Rightarrow> (Err e, con)
                    | Panic \<Rightarrow> (Panic, con)))
            else (Ok packet, con))
           (\<lambda>packet con.
              let p_id = ppid_add p_id 1;
                  c = con_codec con;
                  con = (if p_type = Init then con
                         else con\<lparr>con_codec := c\<lparr>outgoing_p_ids :=
                                (outgoing_p_ids c)[type_index p_type := p_id]\<rparr>\<rparr>)
              in (Ok \<lparr>udp_generation_id = generation_id p_id, udp_data = packet\<rparr>, con)))"

fun encode_all ::
  "env \<Rightarrow> packet_type \<Rightarrow> bool \<Rightarrow> bool \<Rightarrow> out_packet list \<Rightarrow> connection \<Rightarrow> out_udp_packet list con_result" where
  "encode_all env p_type should fake [] con = (Ok [], con)"
| "encode_all env p_type should fake (p # ps) con =
     bind_con (encode_one env p_type should fake p con) (\<lambda>u con.
     bind_con (encode_all env p_type should fake ps con) (\<lambda>us con. (Ok (u # us), con)))"

definition encode_packet :: "env \<Rightarrow> out_packet \<Rightarrow> connection \<Rightarrow> out_udp_packet list con_result" where
  "encode_packet env packet con =
     bind_con (unwrap (hdr_packet_type (out_header packet)), con) (\<lambda>p_type con.
       let client = is_client con;
           packet = (if is_command p_type \<and> client then or_flags NEWPROTOCOL packet else packet);
           p_id = (if p_type = Init then PartialPacketId 0 0
                   else outgoing_p_ids (con_codec con) ! type_index p_type);
           fake = fake_encrypt client p_type p_id packet;
           (should, fake, c_id) =
             (case con_params con of
                Some params \<Rightarrow>
                  (should_encrypt p_type (par_voice_encryption params), fake, par_c_id params)
              | None \<Rightarrow>
                  (should_encrypt p_type False, fake \<or> should_encrypt p_type False, 0))
       in bind_con (if client then set_client_id c_id packet else Ok packet, con) (\<lambda>packet con.
         let packet = (if \<not> should \<and> \<not> fake then
                         (case con_params con of
                            Some params \<Rightarrow> set_mac (par_shared_mac params) (or_flags UNENCRYPTED packet)
                          | None \<Rightarrow> or_flags UNENCRYPTED packet)
                       else packet)
         in bind_con
              (if is_command p_type then compress_and_split (env_compress env) client packet
               else if client \<and> is_voice p_type then
                 (if length (out_content packet) < 2 then Panic
                  else Ok [packet\<lparr>out_data := splice (content_offset packet)
                        (write_be16 (packet_id (outgoing_p_ids (con_codec con) ! type_index p_type)))
                        (out_data packet)\<rparr>])
               else Ok [packet], con)
              (\<lambda>packets con. encode_all env p_type should fake packets con)))"

section \<open>Sending acknowledgements\<close>

definition send_ack_packet :: "env \<Rightarrow> out_packet \<Rightarrow> connection \<Rightarrow> unit con_result" where
  "send_ack_packet env packet con =
     bind_con (encode_packet env packet (send_event (SendPacket packet) con)) (\<lambda>udp_packets con.
       case udp_packets of
         [packet] \<Rightarrow>
           (case static_poll_send_udp_packet env packet con of
              (None, con) \<Rightarrow> (Ok (), con\<lparr>acks_to_send := acks_to_send con @ [packet]\<rparr>)
            | (Some res, con) \<Rightarrow>
                bind_con (res, con) (\<lambda>_ con. on_resender (handle_loss_outgoing packet) con))
       | _ \<Rightarrow> (Panic, con))"

section \<open>Incoming packets\<close>

definition con_receive_window :: "connection \<Rightarrow> packet_type \<Rightarrow> u16 \<Rightarrow> bool \<times> u32 \<times> u16 \<times> u16" where
  "con_receive_window con p_type p_id =
     in_receive_window (incoming_p_ids (con_codec con) ! type_index p_type) p_type p_id"

text \<open>
  The checks against the parameters of an established connection: the error that is reported when
  the packet is dropped.
\<close>

definition params_error ::
  "connection \<Rightarrow> in_packet \<Rightarrow> packet_type \<Rightarrow> u32 \<Rightarrow> u16 \<Rightarrow> (ts_error, ts_error option) outcome" where
  "params_error con packet p_type gen_id pid =
     (case con_params con of
        None \<Rightarrow> Ok None
      | Some params \<Rightarrow>
          if p_type = Init then Ok (Some UnexpectedInitPacket)
          else if \<not> is_client con then
            bind_out (unwrap (hdr_client_id (pkt_header packet))) (\<lambda>c_id.
              let is_first_ack = (gen_id = 0 \<and> pid \<le> 3 \<and> p_type = Ack)
              in if c_id \<noteq> par_c_id params \<and> \<not> is_first_ack
                 then Ok (Some (WrongClientId c_id)) else Ok None)
          else Ok None)"

definition decrypt_with_params ::
  "env \<Rightarrow> in_packet \<Rightarrow> u32 \<Rightarrow> connected_params \<Rightarrow> connection \<Rightarrow> (ts_error, bytes) outcome con_result" where
  "decrypt_with_params env packet gen_id params con =
     (case decrypt (env_sha256 env) (env_dec env) packet gen_id (par_shared_iv params)
             (par_key_cache params) of
        Ok (res, cache) \<Rightarrow> (Ok res, con\<lparr>con_params := Some (params\<lparr>par_key_cache := cache\<rparr>)\<rparr>)
      | Err e \<Rightarrow> (Err e, con)
      | Panic \<Rightarrow> (Panic, con))"

text \<open>
  The plain text of a packet: \<open>Ok None\<close> when the packet is dropped (the error, if any, is in the
  stream).
\<close>

definition decrypt_incoming ::
  "env \<Rightarrow> in_packet \<Rightarrow> packet_type \<Rightarrow> u32 \<Rightarrow> u16 \<Rightarrow> bytes \<Rightarrow> connection \<Rightarrow> bytes option con_result" where
  "decrypt_incoming env packet p_type gen_id pid packet_data con =
     (let client = is_client con;
          finish = (\<lambda>res con. case res of
              Err e \<Rightarrow> (Ok None, push_item (ItemError e) con)
            | Panic \<Rightarrow> (Panic, con)
            | Ok new_content \<Rightarrow>
                let start = length (hdr_data (pkt_header packet)) in
                if length new_content \<noteq> length packet_data - start then (Panic, con)
                else (Ok (Some (take start packet_data @ new_content)), con))
      in if \<not> has_flag (hdr_flags (pkt_header packet)) UNENCRYPTED then
           if p_type = Ack \<and> pid = 1 \<and> client then (Ok None, con)
           else if (p_type = Ack \<and> pid \<le> 1 \<and> client) \<or> con_params con = None then
             (case decrypt_fake (env_dec env) packet of
                Ok c \<Rightarrow> finish (Ok c) con
              | Panic \<Rightarrow> (Panic, con)
              | Err _ \<Rightarrow>
                  (case con_params con of
                     Some params \<Rightarrow>
                       bind_con (decrypt_with_params env packet gen_id params con) finish
                   | None \<Rightarrow> finish (Err (WrongMac p_type gen_id pid)) con))
           else
             (case con_params con of
                Some params \<Rightarrow> bind_con (decrypt_with_params env packet gen_id params con) finish
              | None \<Rightarrow> finish (Err (WrongMac p_type gen_id pid)) con)
         else if must_encrypt p_type then
           (Ok None, push_item (ItemError UnallowedUnencryptedPacket) con)
         else (Ok (Some packet_data), con))"

text \<open>The commands of the handshake acknowledge earlier packets.\<close>

definition handshake_ack :: "env \<Rightarrow> bytes \<Rightarrow> connection \<Rightarrow> unit con_result" where
  "handshake_ack env content con =
     (if is_client con \<and> starts_with content (bstr ''initivexpand2 '')
      then resend_ack_packet (env_now env) Init 4 con
      else if is_client con \<and> starts_with content (bstr ''initserver '')
      then resend_ack_packet (env_now env) Command 2 con
      else if \<not> is_client con \<and> starts_with content (bstr ''clientek '')
      then resend_ack_packet (env_now env) Command 0 con
      else (Ok (), con))"

text \<open>The finished commands go to the stream in order (\<open>into_command\<close> never fails).\<close>

fun deliver_commands :: "env \<Rightarrow> direction \<Rightarrow> bytes list \<Rightarrow> connection \<Rightarrow> unit con_result" where
  "deliver_commands env dir [] con = (Ok (), con)"
| "deliver_commands env dir (c # cs) con =
     bind_con (in_packet_new dir c, con) (\<lambda>packet con.
     bind_con (handshake_ack env (pkt_content packet) (send_event (ReceivePacket packet) con)) (\<lambda>_ con.
       deliver_commands env dir cs (push_item (ItemCommand packet) con)))"

text \<open>The item of a packet that is not a command, if it has one.\<close>

definition other_item ::
  "bool \<Rightarrow> packet_type \<Rightarrow> in_packet \<Rightarrow> connection \<Rightarrow> unit con_result" where
  "other_item client p_type packet con =
     (if is_voice p_type then
           (case into_audio packet of
              Ok (p, d) \<Rightarrow> (Ok (), push_item (ItemAudio p d) con)
            | Err e \<Rightarrow> (Ok (), push_item (ItemError (PacketParse ''audio'' e)) con)
            | Panic \<Rightarrow> (Panic, con))
         else if p_type = Init then
           (if client then
              (case into_s2cinit packet of
                 Ok (p, d) \<Rightarrow> (Ok (), push_item (ItemS2CInit p d) con)
               | Err e \<Rightarrow> (Ok (), push_item (ItemError (PacketParse ''s2cinit'' e)) con)
               | Panic \<Rightarrow> (Panic, con))
            else
              (case into_c2sinit packet of
                 Ok (p, d) \<Rightarrow> (Ok (), push_item (ItemC2SInit p d) con)
               | Err e \<Rightarrow> (Ok (), push_item (ItemError (PacketParse ''c2sinit'' e)) con)
               | Panic \<Rightarrow> (Panic, con)))
         else (Ok (), con))"

definition acked_type :: "packet_type \<Rightarrow> packet_type" where
  "acked_type t = (if t = Ack then Command else if t = AckLow then CommandLow
                   else if t = Pong then Ping else t)"

text \<open>A packet that is not a command; the result says whether it goes on after an invalid ack.\<close>

definition handle_other ::
  "env \<Rightarrow> packet_type \<Rightarrow> u32 \<Rightarrow> u16 \<Rightarrow> bytes \<Rightarrow> connection \<Rightarrow> bool con_result" where
  "handle_other env p_type gen_id pid packet_data con =
     (let c = con_codec con;
          con = (if p_type = Init then con
                 else let (next, next_gen) = overflowing_add16 pid 1 in
                   con\<lparr>con_codec := c\<lparr>incoming_p_ids := (incoming_p_ids c)[type_index p_type :=
                         PartialPacketId (if next_gen then gen_id + 1 else gen_id) next]\<rparr>\<rparr>)
      in bind_con (in_packet_new (in_dir con) packet_data, con) (\<lambda>packet con.
         case ack_packet packet of
           Err e \<Rightarrow> (Ok False, push_item (ItemError (CreateAck e)) con)
         | Panic \<Rightarrow> (Panic, con)
         | Ok ack_id \<Rightarrow>
             bind_con
               (case ack_id of
                  Some i \<Rightarrow> resend_ack_packet (env_now env) (acked_type p_type) i con
                | None \<Rightarrow> (Ok (), con))
               (\<lambda>_ con. bind_con
                  (other_item (is_client con) p_type packet (send_event (ReceivePacket packet) con))
                  (\<lambda>_ con. (Ok True, con)))))"

text \<open>
  The parts of \<open>PacketCodec::handle_udp_packet\<close>; the value says whether the packet is acknowledged.
  First a decrypted packet, then a packet in the receive window, then one outside of it: an old
  command packet is acknowledged again.
\<close>

definition process_packet ::
  "env \<Rightarrow> packet_type \<Rightarrow> u32 \<Rightarrow> u16 \<Rightarrow> bytes \<Rightarrow> connection \<Rightarrow> bool con_result" where
  "process_packet env p_type gen_id pid packet_data con =
     (if is_command p_type then
        bind_con (handle_command_packet env p_type packet_data con) (\<lambda>commands con.
        bind_con (deliver_commands env (in_dir con) commands con) (\<lambda>_ con. (Ok True, con)))
      else
        bind_con (handle_other env p_type gen_id pid packet_data con)
          (\<lambda>go_on con. (Ok (go_on \<and> p_type = Ping), con)))"

definition receive_packet ::
  "env \<Rightarrow> in_packet \<Rightarrow> packet_type \<Rightarrow> u32 \<Rightarrow> u16 \<Rightarrow> bytes \<Rightarrow> connection \<Rightarrow> bool con_result" where
  "receive_packet env packet p_type gen_id pid packet_data con =
     bind_con (decrypt_incoming env packet p_type gen_id pid packet_data con)
       (\<lambda>plain con. case plain of
          None \<Rightarrow> (Ok False, con)
        | Some packet_data \<Rightarrow> process_packet env p_type gen_id pid packet_data con)"

definition outside_window :: "packet_type \<Rightarrow> u16 \<Rightarrow> u16 \<Rightarrow> u16 \<Rightarrow> connection \<Rightarrow> bool con_result" where
  "outside_window p_type pid cur_next limit con =
     (let ack = is_command p_type;
          con = (if ack then con\<lparr>con_resender := handle_loss_resend_ack (con_resender con)\<rparr> else con)
      in (Ok ack, push_item (ItemError (NotInReceiveWindow pid cur_next limit p_type)) con))"

definition answer_packet :: "env \<Rightarrow> packet_type \<Rightarrow> u16 \<Rightarrow> bool \<Rightarrow> connection \<Rightarrow> unit con_result" where
  "answer_packet env p_type pid ack con =
     (if ack then bind_con (out_ack (reverse_dir (in_dir con)) p_type pid, con) (send_ack_packet env)
      else (Ok (), con))"

text \<open>\<open>PacketCodec::handle_udp_packet\<close>. Acks and voice packets are not bound to the receive window.\<close>

definition codec_handle_udp_packet :: "env \<Rightarrow> bytes \<Rightarrow> connection \<Rightarrow> unit con_result" where
  "codec_handle_udp_packet env packet_data con =
     bind_con (in_packet_new (in_dir con) packet_data, con) (\<lambda>packet con.
     bind_con (unwrap (hdr_packet_type (pkt_header packet)), con) (\<lambda>p_type con.
       let pid = hdr_packet_id (pkt_header packet);
           (in_recv_win, gen_id, cur_next, limit) = con_receive_window con p_type pid
       in bind_con (on_resender (handle_loss_incoming packet in_recv_win cur_next) con) (\<lambda>_ con.
       bind_con (params_error con packet p_type gen_id pid, con) (\<lambda>dropped con.
       case dropped of
         Some e \<Rightarrow> (Ok (), push_item (ItemError e) con)
       | None \<Rightarrow>
           bind_con
             (if p_type \<in> {Ack, AckLow, Voice, VoiceWhisper} \<or> in_recv_win
              then receive_packet env packet p_type gen_id pid packet_data con
              else outside_window p_type pid cur_next limit con)
             (answer_packet env p_type pid)))))"

end
