(* ===== verification/Reordering.thy ===== *)
theory Reordering
  imports Packet_Codec
begin

text \<open>
  What the receiving side of a command channel promises: whatever the order in which the datagrams
  of a window arrive, the commands come out as if they had arrived in order. The reference is
  \<open>run_in_order\<close>, which hands the packets to \<open>handle_fragment\<close> one by one; \<open>feed\<close> is the sequence of
  \<open>handle_command_packet\<close> calls for a sequence of arrivals.
\<close>

section \<open>The reference and the calls\<close>

fun run_in_order ::
  "(bytes \<Rightarrow> nat \<Rightarrow> bytes option) \<Rightarrow> direction \<Rightarrow> bytes list \<Rightarrow> bytes option
     \<Rightarrow> (ts_error, bytes list) outcome \<times> bytes option" where
  "run_in_order decompress dir [] frag = (Ok [], frag)"
| "run_in_order decompress dir (p # ps) frag =
     (case handle_fragment decompress dir frag p of
        (Err e, frag) \<Rightarrow> (Err e, frag)
      | (Panic, frag) \<Rightarrow> (Panic, frag)
      | (Ok res, frag) \<Rightarrow>
          (case run_in_order decompress dir ps frag of
             (Ok out, frag) \<Rightarrow> (Ok ((case res of Some p \<Rightarrow> [p] | None \<Rightarrow> []) @ out), frag)
           | r \<Rightarrow> r))"

fun feed ::
  "(bytes \<Rightarrow> nat \<Rightarrow> bytes option) \<Rightarrow> direction \<Rightarrow> bytes list \<Rightarrow> cmd_channel
     \<Rightarrow> (ts_error, bytes list) outcome \<times> cmd_channel" where
  "feed decompress dir [] ch = (Ok [], ch)"
| "feed decompress dir (d # ds) ch =
     (case handle_command decompress dir d ch of
        (Ok out, ch) \<Rightarrow>
          (case feed decompress dir ds ch of
             (Ok outs, ch) \<Rightarrow> (Ok (out @ outs), ch)
           | r \<Rightarrow> r)
      | r \<Rightarrow> r)"

lemma run_in_order_append:
  "run_in_order dec dir (ps @ qs) frag = (Ok out, frag2) \<longleftrightarrow>
     (\<exists>o1 f1 o2. run_in_order dec dir ps frag = (Ok o1, f1) \<and>
        run_in_order dec dir qs f1 = (Ok o2, frag2) \<and> out = o1 @ o2)"
proof (induction ps arbitrary: frag out)
  case (Cons p ps)
  show ?case
  proof (cases "handle_fragment dec dir frag p")
    case (Pair r f)
    show ?thesis
    proof (cases r)
      case (Ok res)
      show ?thesis
        using Cons.IH [of f]
        by (auto simp: Pair Ok split: prod.splits outcome.splits) (metis append.assoc)+
    qed (simp_all add: Pair)
  qed
qed simp

section \<open>Ids within a window\<close>

lemma small_ids_inj:
  assumes "(x :: u16) + of_nat i = x + of_nat j" "i < 65536" "j < 65536"
  shows "i = j"
proof -
  have "(of_nat i :: u16) = of_nat j" using assms(1) by simp
  then have "unat (of_nat i :: u16) = unat (of_nat j :: u16)" by simp
  then show ?thesis using assms(2,3) by (simp add: unat_of_nat)
qed

lemma ppid_add_Suc: "j < 65535 \<Longrightarrow> ppid_add (ppid_add n (of_nat j)) 1 = ppid_add n (of_nat (Suc j))"
proof -
  assume "j < 65535"
  then have "unat (of_nat j :: u16) = j" "unat (of_nat (Suc j) :: u16) = Suc j"
    by (simp_all add: unat_of_nat del: of_nat_Suc)
  then have "ppid_val (ppid_add (ppid_add n (of_nat j)) 1) = ppid_val (ppid_add n (of_nat (Suc j)))"
    by (simp add: ppid_val_add mod_simps del: of_nat_Suc)
  then show ?thesis by (simp add: ppid_val_inj)
qed

lemma ppid_add_0 [simp]: "ppid_add n 0 = n"
  using u16_bound [of "packet_id n"] by (simp add: ppid_add_def overflowing_add16_def)

lemma packet_id_ppid_add: "packet_id (ppid_add n k) = packet_id n + k"
  by (simp add: ppid_add_def overflowing_add16_def)

lemma in_command_window_ahead:
  assumes "0 < d" "d < 200"
  shows "in_command_window x (x + of_nat d)"
proof -
  have x: "unat x < 65536" by (rule u16_bound)
  have "unat (x + of_nat d) = (if unat x + d < 65536 then unat x + d else unat x + d - 65536)"
    using assms x by (simp add: unat_add_u16 unat_of_nat mod_if)
  moreover have "unat (x + 200) = (if unat x + 200 < 65536 then unat x + 200 else unat x + 200 - 65536)"
    using x by (simp add: unat_add_u16 mod_if)
  ultimately show ?thesis
    using assms x
    by (auto simp: in_command_window_def overflowing_add16_def MAX_QUEUE_LEN_def word_le_nat_alt
        word_less_nat_alt split: if_splits)
qed

section \<open>The window of arriving packets\<close>

text \<open>
  The packets of a window: the \<open>j\<close>-th has the id that is \<open>j\<close> after the first expected one. The
  packets at a set of positions form a multiset.
\<close>

definition window_packets :: "direction \<Rightarrow> partial_packet_id \<Rightarrow> bytes list \<Rightarrow> bool" where
  "window_packets dir n pkts \<longleftrightarrow> length pkts \<le> 200 \<and>
     (\<forall>j < length pkts. stored_id dir (pkts ! j) = packet_id n + of_nat j)"

definition at_positions :: "bytes list \<Rightarrow> nat set \<Rightarrow> bytes multiset" where
  "at_positions pkts R = image_mset (\<lambda>j. pkts ! j) (mset_set R)"

lemma at_positions_in:
  "finite R \<Longrightarrow> d \<in># at_positions pkts R \<longleftrightarrow> (\<exists>j \<in> R. d = pkts ! j)"
  by (auto simp: at_positions_def)

lemma at_positions_remove:
  "finite R \<Longrightarrow> j \<in> R \<Longrightarrow> at_positions pkts R = add_mset (pkts ! j) (at_positions pkts (R - {j}))"
  by (simp add: at_positions_def mset_set.remove)

lemma at_positions_insert:
  "finite R \<Longrightarrow> j \<notin> R \<Longrightarrow> at_positions pkts (insert j R) = add_mset (pkts ! j) (at_positions pkts R)"
  by (simp add: at_positions_def)

lemma at_positions_all: "at_positions pkts {..<length pkts} = mset pkts"
proof -
  have "mset pkts = mset (map (\<lambda>j. pkts ! j) [0..<length pkts])"
    by (simp add: map_nth)
  also have "\<dots> = at_positions pkts {..<length pkts}"
    by (simp add: at_positions_def atLeast0LessThan)
  finally show ?thesis by simp
qed

lemma window_position_inj:
  assumes "window_packets dir n pkts" "i < length pkts" "j < length pkts"
    and "stored_id dir (pkts ! i) = stored_id dir (pkts ! j)"
  shows "i = j"
  using assms small_ids_inj [of "packet_id n" i j] by (simp add: window_packets_def)

section \<open>The delivery loop\<close>

lemma stored_id_window:
  "window_packets dir n pkts \<Longrightarrow> j < length pkts \<Longrightarrow> stored_id dir (pkts ! j) = packet_id n + of_nat j"
  by (simp add: window_packets_def)

lemma take_Suc_drop: "m < length xs \<Longrightarrow> take (Suc k) (drop m xs) = xs ! m # take k (drop (Suc m) xs)"
  by (simp add: Cons_nth_drop_Suc [symmetric])

lemma deliver_loop_window:
  assumes w: "window_packets dir n pkts"
  shows "\<lbrakk>m < length pkts; finite R; R \<subseteq> {m<..<length pkts};
      mset (ch_queue ch) = at_positions pkts R; ch_next ch = ppid_add n (of_nat m);
      run_in_order dec dir (drop m pkts) (ch_frag ch) = (Ok tot, fragt)\<rbrakk> \<Longrightarrow>
    \<exists>m' outs ch'. deliver_loop dec dir (packet_id n + of_nat m) (pkts ! m) acc ch = (Ok (acc @ outs), ch') \<and>
      m < m' \<and> m' \<le> length pkts \<and> {m<..<m'} \<subseteq> R \<and> m' \<notin> R \<and>
      mset (ch_queue ch') = at_positions pkts (R - {..<m'}) \<and> ch_next ch' = ppid_add n (of_nat m') \<and>
      run_in_order dec dir (take (m' - m) (drop m pkts)) (ch_frag ch) = (Ok outs, ch_frag ch')"
proof (induction "card R" arbitrary: m R ch acc tot rule: less_induct)
  case less
  note m = less.prems(1) and R = less.prems(2,3) and q = less.prems(4) and nxt = less.prems(5)
    and run = less.prems(6)
  have len: "length pkts \<le> 200" using w by (simp add: window_packets_def)
  define ch1 where "ch1 = ch\<lparr>ch_next := ppid_add n (of_nat (Suc m))\<rparr>"
  have ch1: "ch\<lparr>ch_next := ppid_add (ch_next ch) 1\<rparr> = ch1"
    using ppid_add_Suc [of m n] m len by (simp add: ch1_def nxt)
  have drop: "drop m pkts = pkts ! m # drop (Suc m) pkts"
    using m by (simp add: Cons_nth_drop_Suc)
  obtain res f where hf: "handle_fragment dec dir (ch_frag ch) (pkts ! m) = (Ok res, f)"
    and rest: "\<exists>o2. run_in_order dec dir (drop (Suc m) pkts) f = (Ok o2, fragt)"
    using run unfolding drop by (auto split: prod.splits outcome.splits)
  define here where "here = (case res of Some p \<Rightarrow> [p] | None \<Rightarrow> [])"
  have acc: "(case res of Some p \<Rightarrow> acc @ [p] | None \<Rightarrow> acc) = acc @ here"
    by (simp add: here_def split: option.splits)
  define k where "k = packet_id n + of_nat (Suc m)"
  have pid: "packet_id n + of_nat m + 1 = k" by (simp add: k_def)
  have c: "ch_frag ch1 = ch_frag ch" "ch_queue ch1 = ch_queue ch"
      "ch_queue (ch1\<lparr>ch_frag := f\<rparr>) = ch_queue ch"
    by (simp_all add: ch1_def)
  let ?P = "\<lambda>p. stored_id dir p = k"
  have step: "deliver_loop dec dir (packet_id n + of_nat m) (pkts ! m) acc ch =
     (case position ?P (ch_queue ch) of
        None \<Rightarrow> (Ok (acc @ here), ch1\<lparr>ch_frag := f\<rparr>)
      | Some pos \<Rightarrow> deliver_loop dec dir k (ch_queue ch ! pos) (acc @ here)
          (ch1\<lparr>ch_frag := f, ch_queue := remove_at pos (ch_queue ch)\<rparr>))"
    by (subst deliver_loop.simps) (simp add: Let_def ch1 hf acc pid c split: option.split)
  show ?case
  proof (cases "position ?P (ch_queue ch)")
    case None
    have "Suc m \<notin> R"
    proof
      assume "Suc m \<in> R"
      then have "pkts ! Suc m \<in># mset (ch_queue ch)" "Suc m < length pkts"
        using R by (auto simp: q at_positions_in)
      with None stored_id_window [OF w] show False
        by (auto simp: position_None k_def)
    qed
    moreover have "R - {..<Suc m} = R" using R by auto
    moreover have "run_in_order dec dir (take (Suc m - m) (drop m pkts)) (ch_frag ch) = (Ok here, f)"
      using m hf by (simp add: take_Suc_drop here_def split: option.splits)
    moreover have "{m<..<Suc m} \<subseteq> R" by auto
    ultimately show ?thesis
      unfolding step None option.case using m q
      by (intro exI [of _ "Suc m"] exI [of _ here]) (simp add: ch1_def)
  next
    case (Some pos)
    from position_Some [OF Some] have pos: "pos < length (ch_queue ch)" "?P (ch_queue ch ! pos)"
      by simp_all
    then have "ch_queue ch ! pos \<in># at_positions pkts R"
      unfolding q [symmetric] by simp
    then obtain j where j: "j \<in> R" "ch_queue ch ! pos = pkts ! j"
      using R by (auto simp: at_positions_in)
    have "j < length pkts" using j R by auto
    then have "packet_id n + of_nat j = packet_id n + (of_nat (Suc m) :: u16)"
      using pos(2) j(2) stored_id_window [OF w] unfolding k_def by metis
    then have "j = Suc m"
      using small_ids_inj [of "packet_id n" j "Suc m"] \<open>j < length pkts\<close> m len by simp
    with j have SR: "Suc m \<in> R" "ch_queue ch ! pos = pkts ! Suc m" by simp_all
    define ch2 where "ch2 = ch1\<lparr>ch_frag := f, ch_queue := remove_at pos (ch_queue ch)\<rparr>"
    let ?R = "R - {Suc m}"
    have q2: "mset (ch_queue ch2) = at_positions pkts ?R"
      using mset_remove_at [OF pos(1)] at_positions_remove [OF R(1) SR(1)] SR(2) q
      by (simp add: ch2_def)
    have "card ?R < card R" using R(1) SR(1) by (rule card_Diff1_less)
    moreover have "Suc m < length pkts" using SR(1) R by auto
    moreover have "finite ?R" "?R \<subseteq> {Suc m<..<length pkts}" using R by auto
    moreover obtain o2 where "run_in_order dec dir (drop (Suc m) pkts) (ch_frag ch2) = (Ok o2, fragt)"
      using rest by (auto simp: ch2_def)
    moreover have "ch_next ch2 = ppid_add n (of_nat (Suc m))" by (simp add: ch2_def ch1_def)
    ultimately obtain m' outs ch' where IH:
      "deliver_loop dec dir (packet_id n + of_nat (Suc m)) (pkts ! Suc m) (acc @ here) ch2 =
         (Ok ((acc @ here) @ outs), ch')"
      "Suc m < m'" "m' \<le> length pkts" "{Suc m<..<m'} \<subseteq> ?R" "m' \<notin> ?R"
      "mset (ch_queue ch') = at_positions pkts (?R - {..<m'})" "ch_next ch' = ppid_add n (of_nat m')"
      "run_in_order dec dir (take (m' - Suc m) (drop (Suc m) pkts)) (ch_frag ch2) = (Ok outs, ch_frag ch')"
      using less.hyps [of ?R "Suc m" ch2 o2 "acc @ here"] q2 by blast
    have "take (m' - m) (drop m pkts) = pkts ! m # take (m' - Suc m) (drop (Suc m) pkts)"
      using IH(2) m by (metis Suc_diff_Suc Suc_lessD take_Suc_drop)
    then have "run_in_order dec dir (take (m' - m) (drop m pkts)) (ch_frag ch) =
        (Ok (here @ outs), ch_frag ch')"
      using hf IH(8) by (simp add: ch2_def here_def)
    moreover have "?R - {..<m'} = R - {..<m'}" "{m<..<m'} \<subseteq> R" "m' \<notin> R" "m < m'"
      using IH(2,4,5) SR(1) by (auto simp: less_Suc_eq) (metis DiffD1 Suc_lessI greaterThanLessThan_iff subsetD)
    ultimately show ?thesis
      unfolding step Some option.case SR(2) ch2_def [symmetric]
      unfolding k_def
      using IH(1,3,6,7) by (intro exI [of _ m'] exI [of _ "here @ outs"] exI [of _ ch']) simp
  qed
qed

section \<open>Any order of arrival\<close>

text \<open>
  The state after the packets at the positions \<open>S\<close> have arrived: \<open>m\<close> is the first that is missing,
  those behind it wait in the queue, those before it are delivered.
\<close>

definition window_state ::
  "(bytes \<Rightarrow> nat \<Rightarrow> bytes option) \<Rightarrow> direction \<Rightarrow> partial_packet_id \<Rightarrow> bytes list \<Rightarrow> bytes option
     \<Rightarrow> nat set \<Rightarrow> nat \<Rightarrow> bytes list \<Rightarrow> cmd_channel \<Rightarrow> bool" where
  "window_state dec dir n pkts frag S m outs ch \<longleftrightarrow>
     S \<subseteq> {..<length pkts} \<and> m \<le> length pkts \<and> {..<m} \<subseteq> S \<and> m \<notin> S \<and>
     mset (ch_queue ch) = at_positions pkts (S - {..<m}) \<and> ch_next ch = ppid_add n (of_nat m) \<and>
     run_in_order dec dir (take m pkts) frag = (Ok outs, ch_frag ch)"

lemma window_state_arrival:
  assumes w: "window_packets dir n pkts" and ok: "run_in_order dec dir pkts frag = (Ok tot, fragt)"
    and st: "window_state dec dir n pkts frag S m outs ch" and j: "j < length pkts" "j \<notin> S"
  shows "\<exists>m' out ch'. handle_command dec dir (pkts ! j) ch = (Ok out, ch') \<and>
    window_state dec dir n pkts frag (insert j S) m' (outs @ out) ch'"
proof -
  have len: "length pkts \<le> 200" using w by (simp add: window_packets_def)
  have S: "S \<subseteq> {..<length pkts}" "m \<le> length pkts" "{..<m} \<subseteq> S" "m \<notin> S"
    and q: "mset (ch_queue ch) = at_positions pkts (S - {..<m})"
    and nxt: "ch_next ch = ppid_add n (of_nat m)"
    and prefix_ok: "run_in_order dec dir (take m pkts) frag = (Ok outs, ch_frag ch)"
    using st by (auto simp: window_state_def)
  have fin: "finite S" using S(1) finite_subset by blast
  have "m \<le> j" using S(3) j(2) by (metis lessThan_iff not_less subsetD)
  have ids: "stored_id dir (pkts ! j) = packet_id n + of_nat j"
    "packet_id (ch_next ch) = packet_id n + of_nat m"
    using stored_id_window [OF w j(1)] by (simp_all add: nxt packet_id_ppid_add)
  have rest: "\<exists>o2. run_in_order dec dir (drop m pkts) (ch_frag ch) = (Ok o2, fragt)"
    using ok prefix_ok run_in_order_append [of dec dir "take m pkts" "drop m pkts" frag tot fragt] by auto
  show ?thesis
  proof (cases "j = m")
    case True
    obtain o2 where "run_in_order dec dir (drop m pkts) (ch_frag ch) = (Ok o2, fragt)"
      using rest by blast
    moreover have "m < length pkts" "finite (S - {..<m})" "S - {..<m} \<subseteq> {m<..<length pkts}"
      using True j S fin by (auto simp: le_less)
    ultimately obtain m' out ch' where d:
      "deliver_loop dec dir (packet_id n + of_nat m) (pkts ! m) [] ch = (Ok ([] @ out), ch')"
      "m < m'" "m' \<le> length pkts" "{m<..<m'} \<subseteq> S - {..<m}" "m' \<notin> S - {..<m}"
      "mset (ch_queue ch') = at_positions pkts (S - {..<m} - {..<m'})" "ch_next ch' = ppid_add n (of_nat m')"
      "run_in_order dec dir (take (m' - m) (drop m pkts)) (ch_frag ch) = (Ok out, ch_frag ch')"
      using deliver_loop_window [OF w _ _ _ q nxt] by blast
    have "handle_command dec dir (pkts ! j) ch = (Ok out, ch')"
      using d(1) True ids by (simp add: handle_command_def Let_def)
    moreover have "take m' pkts = take m pkts @ take (m' - m) (drop m pkts)"
      using d(2) by (metis le_add_diff_inverse less_imp_le take_add)
    then have "run_in_order dec dir (take m' pkts) frag = (Ok (outs @ out), ch_frag ch')"
      using prefix_ok d(8) by (simp add: run_in_order_append)
    moreover have "{..<m'} \<subseteq> insert j S"
    proof
      fix x assume "x \<in> {..<m'}"
      then consider "x < m" | "x = m" | "m < x \<and> x < m'" by force
      then show "x \<in> insert j S" using S(3) d(4) True by cases auto
    qed
    moreover have "m' \<notin> insert j S" using d(2,5) True by auto
    moreover have "insert j S - {..<m'} = S - {..<m} - {..<m'}" using d(2) True by auto
    ultimately show ?thesis
      using S(1) j(1) d(3,6,7) by (intro exI [of _ m'] exI [of _ out] exI [of _ ch'])
        (simp add: window_state_def)
  next
    case False
    with \<open>m \<le> j\<close> have "m < j" by simp
    have "packet_id n + of_nat m \<noteq> (packet_id n + of_nat j :: u16)"
      using small_ids_inj [of "packet_id n" m j] False j(1) S(2) len by auto
    moreover have "in_command_window (packet_id n + of_nat m) (packet_id n + of_nat j)"
    proof -
      have "packet_id n + of_nat j = packet_id n + of_nat m + (of_nat (j - m) :: u16)"
        using \<open>m < j\<close> by simp
      then show ?thesis
        using in_command_window_ahead [of "j - m" "packet_id n + of_nat m"] \<open>m < j\<close> j(1) len by simp
    qed
    ultimately have "handle_command dec dir (pkts ! j) ch =
        (Ok [], ch\<lparr>ch_queue := ch_queue ch @ [pkts ! j]\<rparr>)"
      by (simp add: handle_command_def Let_def ids)
    moreover have "insert j S - {..<m} = insert j (S - {..<m})" using \<open>m < j\<close> by auto
    ultimately show ?thesis
      using S j q nxt prefix_ok \<open>m < j\<close> fin
      by (intro exI [of _ m] exI [of _ "[]"] exI)
        (auto simp: window_state_def at_positions_insert)
  qed
qed

lemma feed_window:
  assumes w: "window_packets dir n pkts" and ok: "run_in_order dec dir pkts frag = (Ok tot, fragt)"
  shows "window_state dec dir n pkts frag S m outs ch \<Longrightarrow>
    mset ds = at_positions pkts ({..<length pkts} - S) \<Longrightarrow>
    \<exists>out ch'. feed dec dir ds ch = (Ok out, ch') \<and>
      window_state dec dir n pkts frag {..<length pkts} (length pkts) (outs @ out) ch'"
proof (induction ds arbitrary: S m outs ch)
  case Nil
  have S: "S \<subseteq> {..<length pkts}" "m \<le> length pkts" "{..<m} \<subseteq> S" "m \<notin> S"
    using Nil.prems(1) by (simp_all add: window_state_def)
  have "{..<length pkts} - S = {}"
    using Nil.prems(2) at_positions_in [of "{..<length pkts} - S" _ pkts] by fastforce
  then have "S = {..<length pkts}" using S by auto
  with S have "m = length pkts" by (metis lessThan_iff le_neq_implies_less)
  with \<open>S = _\<close> Nil.prems(1) show ?case by simp
next
  case (Cons d ds)
  have fin: "finite ({..<length pkts} - S)" by simp
  have "d \<in># at_positions pkts ({..<length pkts} - S)"
    unfolding Cons.prems(2) [symmetric] by simp
  then obtain j where j: "j < length pkts" "j \<notin> S" "d = pkts ! j"
    by (auto simp: at_positions_in)
  have "{..<length pkts} - S - {j} = {..<length pkts} - insert j S" by auto
  then have ds: "mset ds = at_positions pkts ({..<length pkts} - insert j S)"
    using Cons.prems(2) at_positions_remove [OF fin, of j pkts] j by simp
  obtain m' out ch' where h: "handle_command dec dir (pkts ! j) ch = (Ok out, ch')"
    and st: "window_state dec dir n pkts frag (insert j S) m' (outs @ out) ch'"
    using window_state_arrival [OF w ok Cons.prems(1) j(1,2)] by blast
  from Cons.IH [OF st ds] obtain out2 ch2 where "feed dec dir ds ch' = (Ok out2, ch2)"
    "window_state dec dir n pkts frag {..<length pkts} (length pkts) ((outs @ out) @ out2) ch2"
    by blast
  then show ?case
    using h j(3) by auto
qed

lemma commands_delivered_in_order_lemma:
  assumes "window_packets dir n pkts" and "run_in_order dec dir pkts frag = (Ok out, frag')"
    and "mset arrivals = mset pkts"
  shows "feed dec dir arrivals \<lparr>ch_next = n, ch_queue = [], ch_frag = frag\<rparr> =
    (Ok out, \<lparr>ch_next = ppid_add n (of_nat (length pkts)), ch_queue = [], ch_frag = frag'\<rparr>)"
proof -
  let ?ch = "\<lparr>ch_next = n, ch_queue = [], ch_frag = frag\<rparr>"
  have "window_state dec dir n pkts frag {} 0 [] ?ch"
    by (simp add: window_state_def at_positions_def)
  moreover have "mset arrivals = at_positions pkts ({..<length pkts} - {})"
    using assms(3) at_positions_all [of pkts] by simp
  ultimately obtain out2 ch' where f: "feed dec dir arrivals ?ch = (Ok out2, ch')"
    and st: "window_state dec dir n pkts frag {..<length pkts} (length pkts) ([] @ out2) ch'"
    using feed_window [OF assms(1,2)] by blast
  from st assms(2) have "out2 = out" "ch_frag ch' = frag'" "ch_queue ch' = []"
    "ch_next ch' = ppid_add n (of_nat (length pkts))"
    by (simp_all add: window_state_def at_positions_def)
  with f show ?thesis by (cases ch') simp
qed

text \<open>
  C11: Command packets are delivered in order. Let a window of at most 200 packets carry the ids from
  the next expected one on, and let the reference process them in order without an error. For every
  order in which they arrive, \<open>handle_command_packet\<close> hands out exactly the commands of the reference
  in the same order, the next expected id moves past the window, the fragment buffer is that of the
  reference and no packet is left in the receive queue.
\<close>

theorem commands_delivered_in_order:
  assumes "window_packets dir n pkts" and "run_in_order dec dir pkts frag = (Ok out, frag')"
    and "mset arrivals = mset pkts"
  shows "feed dec dir arrivals \<lparr>ch_next = n, ch_queue = [], ch_frag = frag\<rparr> =
    (Ok out, \<lparr>ch_next = ppid_add n (of_nat (length pkts)), ch_queue = [], ch_frag = frag'\<rparr>)"
  using assms by (rule commands_delivered_in_order_lemma)

text \<open>A window of three packets for the witnesses: two fragments and a single packet.\<close>

definition three_packets :: "bytes list" where
  "three_packets =
     [[0,0,0,0,0,0,0,0, 0xff,0xff, 0x12, 97], [0,0,0,0,0,0,0,0, 0,0, 0x12, 98],
      [0,0,0,0,0,0,0,0, 0,1, 0x02, 99]]"

theorem commands_delivered_in_order_witness:
  "feed (\<lambda>d n. Some d) S2C [three_packets ! 2, three_packets ! 0, three_packets ! 1]
     \<lparr>ch_next = PartialPacketId 4 0xffff, ch_queue = [], ch_frag = None\<rparr> =
   (Ok [[0,0,0,0,0,0,0,0, 0xff,0xff, 0x12, 97, 98], [0,0,0,0,0,0,0,0, 0,1, 0x02, 99]],
    \<lparr>ch_next = PartialPacketId 5 2, ch_queue = [], ch_frag = None\<rparr>)"
proof -
  have w: "window_packets S2C (PartialPacketId 4 0xffff) three_packets"
    by (auto simp: window_packets_def three_packets_def stored_id_def hdr_packet_id_def be_val_def
        less_Suc_eq numeral_3_eq_3)
  have r: "run_in_order (\<lambda>d n. Some d) S2C three_packets None =
      (Ok [[0,0,0,0,0,0,0,0, 0xff,0xff, 0x12, 97, 98], [0,0,0,0,0,0,0,0, 0,1, 0x02, 99]], None)"
    by code_simp
  have m: "mset [three_packets ! 2, three_packets ! 0, three_packets ! 1] = mset three_packets"
    by (simp add: three_packets_def add_mset_commute)
  have n: "ppid_add (PartialPacketId 4 0xffff) (of_nat (length three_packets)) = PartialPacketId 5 2"
    by (simp add: three_packets_def ppid_add_def overflowing_add16_def)
  show ?thesis
    using commands_delivered_in_order [OF w r m] unfolding n .
qed

end
