(* ===== verification/Reassembly.thy ===== *)
theory Reassembly
  imports Reordering
begin

text \<open>
  The two ends of a command channel together: the packets that \<open>compress_and_split\<close> makes of a command
  are put together again by the receiver, with the headers rewritten in between (packet id, client
  id, mac) and in every order of arrival.
\<close>

section \<open>The flags of the pieces\<close>

lemma and_or_flag:
  assumes "(tb :: u8) AND 0x50 = 0" "a \<in> {0, 0x40}" "b \<in> {0, 0x10}"
  shows "has_flag (((tb OR a) OR b) AND 0xf0) COMPRESSED \<longleftrightarrow> a = 0x40"
    and "has_flag (((tb OR a) OR b) AND 0xf0) FRAGMENTED \<longleftrightarrow> b = 0x10"
proof -
  have tb: "tb AND 0x40 = 0" "tb AND 0x10 = 0"
  proof -
    have "tb AND 0x40 = (tb AND 0x50) AND 0x40" "tb AND 0x10 = (tb AND 0x50) AND 0x10"
      by (simp_all add: and.assoc)
    then show "tb AND 0x40 = 0" "tb AND 0x10 = 0" by (simp_all add: assms(1))
  qed
  have c: "(((tb OR a) OR b) AND 0xf0) AND 0x40 = ((tb AND 0x40) OR (a AND 0x40)) OR (b AND 0x40)"
    and f: "(((tb OR a) OR b) AND 0xf0) AND 0x10 = ((tb AND 0x10) OR (a AND 0x10)) OR (b AND 0x10)"
    by (simp_all add: and.assoc bit.conj_disj_distrib2)
  show "has_flag (((tb OR a) OR b) AND 0xf0) COMPRESSED \<longleftrightarrow> a = 0x40"
    using assms(2,3) by (auto simp: has_flag_def COMPRESSED_def c tb)
  show "has_flag (((tb OR a) OR b) AND 0xf0) FRAGMENTED \<longleftrightarrow> b = 0x10"
    using assms(2,3) by (auto simp: has_flag_def FRAGMENTED_def f tb)
qed

lemma fragment_byte_flags:
  assumes "(tb :: u8) AND 0x50 = 0"
  shows "has_flag (fragment_byte tb cpr len i AND 0xf0) COMPRESSED \<longleftrightarrow> i = 0 \<and> cpr"
    and "has_flag (fragment_byte tb cpr len i AND 0xf0) FRAGMENTED \<longleftrightarrow>
      1 < len \<and> (i = 0 \<or> i = len - 1)"
  unfolding fragment_byte_def using and_or_flag [OF assms]
  by (auto simp: COMPRESSED_def FRAGMENTED_def)

section \<open>One packet at the receiver\<close>

lemma handle_fragment_first:
  assumes "length h = get_off dir" "has_flag (b AND 0xf0) FRAGMENTED"
  shows "handle_fragment dec dir None (h @ b # v) = (Ok None, Some (h @ b # v))"
  using assms by (simp add: handle_fragment_def in_packet_new_parts Let_def)

lemma handle_fragment_middle:
  assumes "length h = get_off dir" "\<not> has_flag (b AND 0xf0) FRAGMENTED" "length f < MAX_FRAGMENTS_LENGTH"
  shows "handle_fragment dec dir (Some f) (h @ b # v) = (Ok None, Some (f @ v))"
  using assms by (simp add: handle_fragment_def in_packet_new_parts Let_def)

lemma handle_fragment_last:
  assumes "length h = get_off dir" "has_flag (b AND 0xf0) FRAGMENTED" "length h0 = get_off dir"
    and "has_flag (b0 AND 0xf0) COMPRESSED \<Longrightarrow> dec (v0 @ v) MAX_DECOMPRESSED_SIZE = Some c"
    and "\<not> has_flag (b0 AND 0xf0) COMPRESSED \<Longrightarrow> c = v0 @ v"
  shows "handle_fragment dec dir (Some (h0 @ b0 # v0)) (h @ b # v) = (Ok (Some (h0 @ b0 # c)), None)"
  using assms
  by (simp add: handle_fragment_def in_packet_new_parts Let_def decompress_in_place_def)

lemma handle_fragment_single:
  assumes "length h = get_off dir" "\<not> has_flag (b AND 0xf0) FRAGMENTED"
    and "has_flag (b AND 0xf0) COMPRESSED \<Longrightarrow> dec v MAX_DECOMPRESSED_SIZE = Some c"
    and "\<not> has_flag (b AND 0xf0) COMPRESSED \<Longrightarrow> c = v"
  shows "handle_fragment dec dir None (h @ b # v) = (Ok (Some (h @ b # c)), None)"
  using assms
  by (simp add: handle_fragment_def in_packet_new_parts Let_def decompress_in_place_def)

section \<open>The pieces of one command\<close>

text \<open>The middle pieces of a command, with headers \<open>hs\<close> of their own.\<close>

lemma run_middle:
  assumes "\<forall>(h, b, v) \<in> set ps. length h = get_off dir \<and> \<not> has_flag (b AND 0xf0) FRAGMENTED \<and> v \<noteq> []"
    and "length f + length (concat (map (\<lambda>(h, b, v). v) ps)) \<le> MAX_FRAGMENTS_LENGTH"
  shows "run_in_order dec dir (map (\<lambda>(h, b, v). h @ b # v) ps) (Some f) =
    (Ok [], Some (f @ concat (map (\<lambda>(h, b, v). v) ps)))"
  using assms
proof (induction ps arbitrary: f)
  case (Cons p ps)
  obtain h b v where p: "p = (h, b, v)" by (cases p)
  have "0 < length v" using Cons.prems(1) by (simp add: p)
  moreover have "length f + (length v + length (concat (map (\<lambda>(h, b, v). v) ps))) \<le> MAX_FRAGMENTS_LENGTH"
    using Cons.prems(2) by (simp add: p)
  ultimately have "length f < MAX_FRAGMENTS_LENGTH"
    by linarith
  moreover have "length h = get_off dir" "\<not> has_flag (b AND 0xf0) FRAGMENTED"
    using Cons.prems(1) by (simp_all add: p)
  ultimately have "handle_fragment dec dir (Some f) (h @ b # v) = (Ok None, Some (f @ v))"
    by (intro handle_fragment_middle)
  moreover have "run_in_order dec dir (map (\<lambda>(h, b, v). h @ b # v) ps) (Some (f @ v)) =
      (Ok [], Some ((f @ v) @ concat (map (\<lambda>(h, b, v). v) ps)))"
    using Cons.prems by (intro Cons.IH) (auto simp: p)
  ultimately show ?case by (simp add: p)
qed simp

text \<open>The pieces of a command with headers \<open>hs\<close>, as they come out of the decryption.\<close>

definition received :: "u8 \<Rightarrow> bool \<Rightarrow> bytes list \<Rightarrow> bytes list \<Rightarrow> bytes list" where
  "received tb cpr hs vs =
     map (\<lambda>i. (hs ! i) @ fragment_byte tb cpr (length vs) i # (vs ! i)) [0..<length vs]"

lemma run_received:
  assumes tb: "tb AND 0x50 = 0" and hs: "length hs = length vs" "\<forall>h \<in> set hs. length h = get_off dir"
    and vs: "vs \<noteq> []" "1 < length vs \<Longrightarrow> \<forall>v \<in> set vs. v \<noteq> []"
    and bound: "header_len dir + length (concat vs) \<le> MAX_FRAGMENTS_LENGTH"
    and c: "cpr \<Longrightarrow> dec (concat vs) MAX_DECOMPRESSED_SIZE = Some c" "\<not> cpr \<Longrightarrow> c = concat vs"
  shows "run_in_order dec dir (received tb cpr hs vs) None =
    (Ok [hd hs @ fragment_byte tb cpr (length vs) 0 # c], None)"
proof (cases "length vs = 1")
  case True
  then obtain v where v: "vs = [v]" by (cases vs) auto
  moreover from v hs obtain h where h: "hs = [h]" by (cases hs) auto
  moreover have "handle_fragment dec dir None (h @ fragment_byte tb cpr 1 0 # v) =
      (Ok (Some (h @ fragment_byte tb cpr 1 0 # c)), None)"
    using hs(2) c by (intro handle_fragment_single)
      (auto simp: h v fragment_byte_flags [OF tb])
  ultimately show ?thesis by (simp add: received_def)
next
  case False
  define len where "len = length vs"
  define fb where "fb = fragment_byte tb cpr len"
  have len: "1 < len" using False vs(1) by (cases vs) (auto simp: len_def)
  define mid where "mid = map (\<lambda>i. (hs ! i, fb i, vs ! i)) [1..<len - 1]"
  have idx: "[0..<len] = 0 # [1..<len - 1] @ [len - 1]"
  proof -
    have "[0..<len] = 0 # [1..<Suc (len - 1)]"
      using len by (simp add: upt_conv_Cons)
    also have "[1..<Suc (len - 1)] = [1..<len - 1] @ [len - 1]"
      using len by (intro upt_Suc_append) simp
    finally show ?thesis .
  qed
  have rec: "received tb cpr hs vs =
      (hs ! 0 @ fb 0 # vs ! 0) # map (\<lambda>(h, b, v). h @ b # v) mid @
        [hs ! (len - 1) @ fb (len - 1) # vs ! (len - 1)]"
    unfolding received_def len_def [symmetric] fb_def [symmetric] idx
    by (simp add: mid_def)
  have "vs = map ((!) vs) [0..<len]" by (simp add: len_def map_nth)
  then have "vs = vs ! 0 # map ((!) vs) [1..<len - 1] @ [vs ! (len - 1)]"
    unfolding idx by simp
  moreover have "map ((!) vs) [1..<len - 1] = map (\<lambda>(h, b, v). v) mid"
    by (simp add: mid_def)
  ultimately have cat: "concat vs = vs ! 0 @ concat (map (\<lambda>(h, b, v). v) mid) @ vs ! (len - 1)"
    by (metis concat.simps(2) concat_append concat.simps(1) append_Nil2)
  have hl: "length (hs ! i) = get_off dir" if "i < len" for i
    using hs that by (simp add: len_def)
  have flags: "has_flag (fb i AND 0xf0) FRAGMENTED \<longleftrightarrow> i = 0 \<or> i = len - 1"
    "has_flag (fb i AND 0xf0) COMPRESSED \<longleftrightarrow> i = 0 \<and> cpr" for i
    using len by (simp_all add: fb_def fragment_byte_flags [OF tb])
  let ?f = "hs ! 0 @ fb 0 # vs ! 0 @ concat (map (\<lambda>(h, b, v). v) mid)"
  have first: "handle_fragment dec dir None (hs ! 0 @ fb 0 # vs ! 0) =
      (Ok None, Some (hs ! 0 @ fb 0 # vs ! 0))"
    using len by (intro handle_fragment_first) (simp_all add: hl flags)
  have middle: "run_in_order dec dir (map (\<lambda>(h, b, v). h @ b # v) mid) (Some (hs ! 0 @ fb 0 # vs ! 0)) =
      (Ok [], Some ((hs ! 0 @ fb 0 # vs ! 0) @ concat (map (\<lambda>(h, b, v). v) mid)))"
  proof (rule run_middle)
    show "\<forall>(h, b, v) \<in> set mid. length h = get_off dir \<and> \<not> has_flag (b AND 0xf0) FRAGMENTED \<and> v \<noteq> []"
      using len vs by (auto simp: mid_def hl flags len_def)
    show "length (hs ! 0 @ fb 0 # vs ! 0) + length (concat (map (\<lambda>(h, b, v). v) mid))
        \<le> MAX_FRAGMENTS_LENGTH"
      using bound len hl [of 0] by (simp add: cat header_len_Suc)
  qed
  have last: "handle_fragment dec dir (Some ?f) (hs ! (len - 1) @ fb (len - 1) # vs ! (len - 1)) =
      (Ok (Some (hs ! 0 @ fb 0 # c)), None)"
    using len c by (intro handle_fragment_last) (simp_all add: hl flags cat)
  have "run_in_order dec dir [hs ! (len - 1) @ fb (len - 1) # vs ! (len - 1)] (Some ?f) =
      (Ok [hs ! 0 @ fb 0 # c], None)"
    using last by simp
  with middle have tail: "run_in_order dec dir (map (\<lambda>(h, b, v). h @ b # v) mid @
      [hs ! (len - 1) @ fb (len - 1) # vs ! (len - 1)]) (Some (hs ! 0 @ fb 0 # vs ! 0)) =
      (Ok [hs ! 0 @ fb 0 # c], None)"
    by (simp only: run_in_order_append) auto
  have "hd hs = hs ! 0" using hs(1) vs(1) by (metis hd_conv_nth length_0_conv)
  then show ?thesis
    using first tail unfolding rec fb_def [symmetric] len_def [symmetric] by simp
qed

lemma split_loop_pieces_nonempty:
  "0 < m \<Longrightarrow> d \<noteq> [] \<Longrightarrow> v \<in> set (split_loop m d) \<Longrightarrow> v \<noteq> []"
proof (induction m d rule: split_loop.induct)
  case (1 m d)
  show ?case
  proof (cases "m < length d")
    case True
    then have "split_loop m d = take m d # split_loop m (drop m d)"
      using \<open>0 < m\<close> by (subst split_loop.simps) simp
    with 1 True show ?thesis by auto
  next
    case False
    then have "split_loop m d = [d]" by (subst split_loop.simps) simp
    with 1 show ?thesis by simp
  qed
qed

text \<open>
  C1: A command survives splitting and the network. The packets that \<open>compress_and_split\<close> makes of a
  command get new header bytes (ids and mac) and arrive in any order with consecutive ids; the
  receiver then hands out exactly one packet, with the content of the original command, and is left
  without stored packets or fragments. What is relied on of the compressor is that it inverts itself
  on this content; the compressed or plain content must fit the fragment limit.
\<close>

theorem command_survives_the_network:
  assumes p: "p = \<lparr>out_dir = dir_of client, out_data = h @ tb # c\<rparr>"
    and h: "length h = get_off (dir_of client)"
    and t: "packet_type_from_u8 (tb AND 0xf) = Some t" "is_command t" and tb: "tb AND 0x50 = 0"
    and quicklz: "decompress (compress c) MAX_DECOMPRESSED_SIZE = Some c"
    and bound: "header_len (dir_of client) + length (wire_payload compress p) \<le> MAX_FRAGMENTS_LENGTH"
    and split: "compress_and_split compress client p = (Ok ps :: (ts_error, _) outcome)"
    and rs: "length rs = length ps"
      "\<forall>i < length ps. \<exists>h'. length h' = get_off (dir_of client) \<and>
         rs ! i = h' @ drop (get_off (dir_of client)) (out_data (ps ! i))"
    and window: "window_packets (dir_of client) n rs" and arrivals: "mset arrivals = mset rs"
  shows "\<exists>h' b. length h' = get_off (dir_of client) \<and>
    feed decompress (dir_of client) arrivals \<lparr>ch_next = n, ch_queue = [], ch_frag = None\<rparr> =
      (Ok [h' @ b # c], \<lparr>ch_next = ppid_add n (of_nat (length ps)), ch_queue = [], ch_frag = None\<rparr>)"
proof -
  let ?dir = "dir_of client" and ?vs = "wire_pieces compress p" and ?z = "wire_compressed compress p"
  have "t \<noteq> VoiceWhisper" using t(2) by (auto simp: is_command_def)
  from compress_and_split_parts [OF p h refl t(1) this, of compress]
  have "compress_and_split compress client p =
      (Ok (map (\<lambda>(i, v). \<lparr>out_dir = ?dir, out_data = h @ fragment_byte tb ?z (length ?vs) i # v\<rparr>)
        (enumerate 0 ?vs)) :: (ts_error, _) outcome)" .
  with split have ps: "ps = map (\<lambda>(i, v). \<lparr>out_dir = ?dir, out_data = h @ fragment_byte tb ?z (length ?vs) i # v\<rparr>)
      (enumerate 0 ?vs)"
    by simp
  then have len: "length ps = length ?vs" by simp
  define hs where "hs = map (\<lambda>i. take (get_off ?dir) (rs ! i)) [0..<length ?vs]"
  have rsi: "rs ! i = hs ! i @ fragment_byte tb ?z (length ?vs) i # ?vs ! i \<and>
      length (hs ! i) = get_off ?dir" if i: "i < length ?vs" for i
  proof -
    obtain h' where h': "length h' = get_off ?dir" "rs ! i = h' @ drop (get_off ?dir) (out_data (ps ! i))"
      using rs(2) i len by auto
    moreover have "drop (get_off ?dir) (out_data (ps ! i)) = fragment_byte tb ?z (length ?vs) i # ?vs ! i"
      using i h by (simp add: ps nth_enumerate_eq)
    ultimately show ?thesis using i by (simp add: hs_def)
  qed
  have rec: "rs = received tb ?z hs ?vs"
    by (rule nth_equalityI) (use rs(1) len rsi in \<open>simp_all add: received_def\<close>)
  have dirp: "out_dir p = ?dir" and cp: "out_content p = c"
    using h by (simp_all add: p)
  have cat: "concat ?vs = wire_payload compress p"
    by (simp add: wire_pieces_def concat_split_loop)
  have "run_in_order decompress ?dir (received tb ?z hs ?vs) None =
      (Ok [hd hs @ fragment_byte tb ?z (length ?vs) 0 # c], None)"
  proof (rule run_received [OF tb])
    show "length hs = length ?vs" by (simp add: hs_def)
    show "\<forall>h \<in> set hs. length h = get_off ?dir"
      using rsi by (auto simp: in_set_conv_nth hs_def)
    show "?vs \<noteq> []" by (simp add: wire_pieces_def)
    show "\<forall>v \<in> set ?vs. v \<noteq> []" if "1 < length ?vs"
    proof -
      have "wire_payload compress p \<noteq> []"
        using that by (auto simp: wire_pieces_def split_loop_small)
      then show ?thesis
        using split_loop_pieces_nonempty [OF max_content_pos] by (auto simp: wire_pieces_def)
    qed
    show "header_len ?dir + length (concat ?vs) \<le> MAX_FRAGMENTS_LENGTH"
      using bound by (simp add: cat)
    show "decompress (concat ?vs) MAX_DECOMPRESSED_SIZE = Some c" if ?z
      using that quicklz by (simp add: cat wire_payload_def cp)
    show "c = concat ?vs" if "\<not> ?z"
      using that by (simp add: cat wire_payload_def cp)
  qed
  from commands_delivered_in_order_lemma [OF window this [folded rec] arrivals]
  have "feed decompress ?dir arrivals \<lparr>ch_next = n, ch_queue = [], ch_frag = None\<rparr> =
      (Ok [hd hs @ fragment_byte tb ?z (length ?vs) 0 # c],
       \<lparr>ch_next = ppid_add n (of_nat (length ps)), ch_queue = [], ch_frag = None\<rparr>)"
    using rs(1) by simp
  moreover have "length (hd hs) = get_off ?dir"
  proof -
    have "?vs \<noteq> []" by (simp add: wire_pieces_def)
    then have "hd hs = hs ! 0" by (simp add: hs_def hd_map hd_upt)
    then show ?thesis using rsi [of 0] \<open>?vs \<noteq> []\<close> by simp
  qed
  ultimately show ?thesis by blast
qed

theorem command_survives_the_network_witness:
  "\<exists>h' b. length h' = 10 \<and>
    feed (\<lambda>d n. Some d) S2C
      [[0,0,0,0,0,0,0,0, 0,6] @ 0x12 # replicate 111 7, [0,0,0,0,0,0,0,0, 0,5] @ 0x52 # replicate 489 7]
      \<lparr>ch_next = PartialPacketId 0 5, ch_queue = [], ch_frag = None\<rparr> =
      (Ok [h' @ b # replicate 600 7],
       \<lparr>ch_next = PartialPacketId 0 7, ch_queue = [], ch_frag = None\<rparr>)"
proof -
  let ?h = "replicate 10 0 :: bytes" and ?c = "replicate 600 7 :: bytes"
  let ?p = "\<lparr>out_dir = dir_of False, out_data = ?h @ 2 # ?c\<rparr>"
  let ?r0 = "[0,0,0,0,0,0,0,0, 0,5] @ 0x52 # replicate 489 7 :: bytes"
  let ?r1 = "[0,0,0,0,0,0,0,0, 0,6] @ 0x12 # replicate 111 7 :: bytes"
  let ?ps = "[\<lparr>out_dir = S2C, out_data = ?h @ 0x52 # replicate 489 7\<rparr>,
    \<lparr>out_dir = S2C, out_data = ?h @ 0x12 # replicate 111 7\<rparr>] :: out_packet list"
  have h: "length ?h = get_off (dir_of False)" by (simp add: dir_of_def)
  have t: "packet_type_from_u8 (2 AND 0xf) = Some Command" by (simp add: packet_type_from_u8_def)
  have pay: "wire_compressed (\<lambda>d. d) ?p" "wire_payload (\<lambda>d. d) ?p = ?c"
    by (simp_all add: wire_compressed_def wire_payload_def max_content_def dir_of_def
        out_content_def)
  have pieces: "wire_pieces (\<lambda>d. d) ?p = [replicate 489 7, replicate 111 7]"
    unfolding wire_pieces_def pay by (simp add: split_loop.simps max_content_def dir_of_def)
  have split: "compress_and_split (\<lambda>d. d) False ?p = (Ok ?ps :: (ts_error, _) outcome)"
    using compress_and_split_parts [OF refl h refl t, where c = ?c and compress = "\<lambda>d. d"] pay(1)
    by (simp add: pieces fragment_byte_def COMPRESSED_def FRAGMENTED_def)
      (simp add: dir_of_def)
  have w: "window_packets (dir_of False) (PartialPacketId 0 5) [?r0, ?r1]"
    by (auto simp: window_packets_def stored_id_def hdr_packet_id_def be_val_def less_Suc_eq dir_of_def)
  have rs: "\<forall>i < length ?ps. \<exists>h'. length h' = get_off (dir_of False) \<and>
      [?r0, ?r1] ! i = h' @ drop (get_off (dir_of False)) (out_data (?ps ! i))"
    by (auto simp: less_Suc_eq dir_of_def intro: exI [of _ "[0,0,0,0,0,0,0,0, 0,5]"]
        exI [of _ "[0,0,0,0,0,0,0,0, 0,6]"])
  have "ppid_add (PartialPacketId 0 5) (of_nat (length ?ps)) = PartialPacketId 0 7"
    by (simp add: ppid_add_def overflowing_add16_def)
  then show ?thesis
    using command_survives_the_network [OF refl h t _ _ _ _ split _ rs w, where decompress = "\<lambda>d n. Some d"
        and arrivals = "[?r1, ?r0]"] pay
    by (simp add: is_command_def dir_of_def MAX_FRAGMENTS_LENGTH_def add_mset_commute)
qed

end
