(* ===== verification/Commands.thy ===== *)
theory Commands
  imports Packets
begin

text \<open>
  The command syntax: the parser of \<open>utils/tsproto-packets/src/commands.rs\<close> and the writer
  (\<open>OutCommand\<close> and \<open>EscapedWriter\<close>) of \<open>utils/tsproto-packets/src/packets.rs\<close>. A command is a
  name followed by parts separated by a pipe; a part is a list of arguments \<open>name=value\<close> separated
  by spaces, with escape sequences in the value. A \<open>CommandParser\<close> is the rest \<open>data[index..]\<close> of
  the command that is still to be read.
\<close>

section \<open>Parser\<close>

datatype arg_value = ArgValue (get_raw: bytes) (escapes: nat)

datatype command_item = Argument (arg_name: bytes) (arg_val: arg_value) | NextCommand

definition is_ascii_alphanumeric :: "u8 \<Rightarrow> bool" where
  "is_ascii_alphanumeric b \<longleftrightarrow>
     (48 \<le> b \<and> b \<le> 57) \<or> (65 \<le> b \<and> b \<le> 90) \<or> (97 \<le> b \<and> b \<le> 122)"

text \<open>The end of the command name: 0 when the name is followed by anything but a space.\<close>

fun scan_command_name :: "bytes \<Rightarrow> nat \<Rightarrow> nat" where
  "scan_command_name [] name_end = name_end"
| "scan_command_name (b # bs) name_end =
     (if \<not> is_ascii_alphanumeric b then (if b = 32 then name_end else 0)
      else scan_command_name bs (Suc name_end))"

definition command_parser_new :: "bytes \<Rightarrow> bytes \<times> bytes" where
  "command_parser_new data =
     (let name_end = scan_command_name data 0 in (take name_end data, drop name_end data))"

text \<open>The byte sets of the source: vertical tab, form feed, tab, CR, LF, space; pipe; equals.\<close>

definition space_bytes :: bytes where "space_bytes = [0x0b, 0x0c, 9, 13, 10, 32]"
definition value_end_bytes :: bytes where "value_end_bytes = [0x0b, 0x0c, 9, 13, 10, 124, 32]"
definition name_end_bytes :: bytes where "name_end_bytes = [32, 61, 124]"

definition skip_space :: "bytes \<Rightarrow> bytes" where
  "skip_space = dropWhile (\<lambda>b. b \<in> set space_bytes)"

text \<open>
  The value loop: the raw value, the number of escape sequences and the rest. A backslash takes
  the next byte with it unless that byte ends the value.
\<close>

fun scan_value :: "bytes \<Rightarrow> bytes \<times> nat \<times> bytes" where
  "scan_value [] = ([], 0, [])"
| "scan_value (b # bs) =
     (if b \<in> set value_end_bytes then ([], 0, b # bs)
      else if b = 92 then
        (case bs of
           [] \<Rightarrow> ([b], 1, [])
         | c # cs \<Rightarrow>
             if c \<in> set value_end_bytes then ([b], 1, c # cs)
             else (case scan_value cs of (raw, n, rest) \<Rightarrow> (b # c # raw, Suc n, rest)))
      else (case scan_value bs of (raw, n, rest) \<Rightarrow> (b # raw, n, rest)))"

definition next_item :: "bytes \<Rightarrow> (command_item \<times> bytes) option" where
  "next_item parser =
     (case skip_space parser of
        [] \<Rightarrow> None
      | b # bs \<Rightarrow>
          if b = 124 then Some (NextCommand, bs)
          else
            let name = takeWhile (\<lambda>c. c \<notin> set name_end_bytes) (b # bs);
                after = dropWhile (\<lambda>c. c \<notin> set name_end_bytes) (b # bs)
            in case after of
                 [] \<Rightarrow> Some (Argument name (ArgValue [] 0), after)
               | c # cs \<Rightarrow>
                   if c \<noteq> 61 then Some (Argument name (ArgValue [] 0), after)
                   else case scan_value cs of
                          (raw, n, rest) \<Rightarrow> Some (Argument name (ArgValue raw n), rest))"

lemma scan_value_length: "scan_value bs = (raw, n, rest) \<Longrightarrow> length raw + length rest = length bs"
  by (induction bs arbitrary: raw n rest rule: scan_value.induct)
    (auto split: if_splits list.splits prod.splits)

lemma scan_value_escapes: "scan_value bs = (raw, n, rest) \<Longrightarrow> n \<le> length raw"
  by (induction bs arbitrary: raw n rest rule: scan_value.induct)
    (auto simp: le_SucI split: if_splits list.splits prod.splits)

lemma skip_space_Cons: "skip_space p = b # bs \<Longrightarrow> b \<notin> set space_bytes"
  unfolding skip_space_def by (metis hd_dropWhile list.distinct(1) list.sel(1))

lemma length_skip_space: "length (skip_space p) \<le> length p"
  by (simp add: skip_space_def length_dropWhile_le)

text \<open>Every item consumes at least one byte, so the iteration ends.\<close>

lemma next_item_length: "next_item p = Some (i, p') \<Longrightarrow> length p' < length p"
proof -
  assume "next_item p = Some (i, p')"
  then obtain b bs where sk: "skip_space p = b # bs"
    by (auto simp: next_item_def split: list.splits)
  let ?after = "dropWhile (\<lambda>c. c \<notin> set name_end_bytes) (b # bs)"
  have le: "length ?after \<le> length (b # bs)"
    by (rule length_dropWhile_le)
  have "b \<noteq> 32"
    using skip_space_Cons [OF sk] by (simp add: space_bytes_def)
  have "length p' < length (b # bs)"
  proof (cases "b = 124")
    case True
    with \<open>next_item p = Some (i, p')\<close> sk show ?thesis by (simp add: next_item_def)
  next
    case False
    show ?thesis
    proof (cases ?after)
      case Nil
      with False sk \<open>next_item p = Some (i, p')\<close> show ?thesis
        by (auto simp: next_item_def Let_def)
    next
      case (Cons c cs)
      show ?thesis
      proof (cases "c = 61")
        case True
        obtain raw n rest where sv: "scan_value cs = (raw, n, rest)"
          by (cases "scan_value cs")
        with True Cons False sk \<open>next_item p = Some (i, p')\<close> have "p' = rest"
          by (auto simp: next_item_def Let_def)
        with scan_value_length [OF sv] le Cons show ?thesis by simp
      next
        case ne: False
        with Cons False sk \<open>next_item p = Some (i, p')\<close> have "p' = ?after"
          by (auto simp: next_item_def Let_def)
        moreover have "b \<notin> set name_end_bytes"
          using Cons ne False \<open>b \<noteq> 32\<close> by (auto simp: name_end_bytes_def)
        ultimately show ?thesis
          by (simp add: le_imp_less_Suc length_dropWhile_le)
      qed
    qed
  qed
  with length_skip_space [of p] sk show ?thesis by simp
qed

function parse_items :: "bytes \<Rightarrow> command_item list" where
  "parse_items p =
     (case next_item p of
        None \<Rightarrow> []
      | Some (i, p') \<Rightarrow> i # parse_items p')"
  by pat_completeness auto
termination
  by (relation "measure length") (auto dest: next_item_length)

declare parse_items.simps [simp del]

text \<open>\<open>CommandArgumentValue::unescape\<close> and \<open>get\<close>.\<close>

definition unescape_byte :: "u8 \<Rightarrow> u8" where
  "unescape_byte c =
     (if c = 118 then 0x0b else if c = 102 then 0x0c else if c = 116 then 9
      else if c = 114 then 13 else if c = 110 then 10 else if c = 112 then 124
      else if c = 115 then 32 else c)"

fun unescape :: "bytes \<Rightarrow> bytes" where
  "unescape [] = []"
| "unescape (b # bs) =
     (if b = 92 then (case bs of [] \<Rightarrow> [] | c # cs \<Rightarrow> unescape_byte c # unescape cs)
      else b # unescape bs)"

definition value_get :: "arg_value \<Rightarrow> bytes" where
  "value_get v = (if escapes v = 0 then get_raw v else unescape (get_raw v))"

section \<open>Writer\<close>

text \<open>\<open>EscapedWriter::write\<close>: one byte of the value.\<close>

definition escape_byte :: "u8 \<Rightarrow> bytes" where
  "escape_byte c =
     (if c = 0x0b then [92, 118] else if c = 0x0c then [92, 102] else if c = 92 then [92, 92]
      else if c = 9 then [92, 116] else if c = 13 then [92, 114] else if c = 10 then [92, 110]
      else if c = 124 then [92, 112] else if c = 32 then [92, 115] else if c = 47 then [92, 47]
      else [c])"

definition escape :: "bytes \<Rightarrow> bytes" where
  "escape v = concat (map escape_byte v)"

definition out_command_new :: "direction \<Rightarrow> flags \<Rightarrow> packet_type \<Rightarrow> bytes \<Rightarrow> out_packet" where
  "out_command_new dir f t name = out_extend name (set_flags f (out_new_with_dir dir 0 t))"

definition write_separator :: "out_packet \<Rightarrow> out_packet" where
  "write_separator p =
     (if out_content p \<noteq> [] \<and> last (out_content p) \<noteq> 124 then out_extend [32] p else p)"

definition write_bin_arg :: "bytes \<Rightarrow> bytes \<Rightarrow> out_packet \<Rightarrow> out_packet" where
  "write_bin_arg name v p =
     (let p1 = out_extend name (write_separator p)
      in if v \<noteq> [] then out_extend (escape v) (out_extend [61] p1) else p1)"

text \<open>
  \<open>write_arg\<close> writes the equals sign first and takes it back when nothing was written. The value is
  the text that \<open>Display\<close> formats.
\<close>

definition write_arg :: "bytes \<Rightarrow> bytes \<Rightarrow> out_packet \<Rightarrow> out_packet" where
  "write_arg name v p =
     (let p1 = out_extend [61] (out_extend name (write_separator p));
          p2 = out_extend (escape v) p1
      in if length (out_data p2) = length (out_data p1)
         then p2\<lparr>out_data := butlast (out_data p2)\<rparr> else p2)"

definition start_new_part :: "out_packet \<Rightarrow> out_packet" where
  "start_new_part p = out_extend [124] p"

text \<open>A whole command: its name and the arguments of its parts.\<close>

type_synonym command_part = "(bytes \<times> bytes) list"

definition write_part :: "out_packet \<Rightarrow> command_part \<Rightarrow> out_packet" where
  "write_part p args = foldl (\<lambda>p (n, v). write_arg n v p) p args"

fun write_command ::
  "direction \<Rightarrow> flags \<Rightarrow> packet_type \<Rightarrow> bytes \<Rightarrow> command_part list \<Rightarrow> out_packet" where
  "write_command dir f t name [] = out_command_new dir f t name"
| "write_command dir f t name (a # parts) =
     foldl (\<lambda>p part. write_part (start_new_part p) part)
       (write_part (out_command_new dir f t name) a) parts"

section \<open>Escaping\<close>

lemma escape_Nil [simp]: "escape [] = []"
  by (simp add: escape_def)

lemma escape_Cons: "escape (c # v) = escape_byte c @ escape v"
  by (simp add: escape_def)

lemma escape_eq_Nil_iff [simp]: "escape v = [] \<longleftrightarrow> v = []"
  by (cases v) (auto simp: escape_Cons escape_byte_def)

definition needs_escape :: "u8 \<Rightarrow> bool" where
  "needs_escape c \<longleftrightarrow> c \<in> set [0x0b, 0x0c, 92, 9, 13, 10, 124, 32, 47]"

lemma escape_byte_cases:
  obtains "\<not> needs_escape c" "escape_byte c = [c]" "c \<notin> set value_end_bytes" "c \<noteq> 92"
  | e where "needs_escape c" "escape_byte c = [92, e]" "unescape_byte e = c"
      "e \<notin> set value_end_bytes"
proof (cases "needs_escape c")
  case False
  then show ?thesis
    by (intro that(1)) (auto simp: needs_escape_def escape_byte_def value_end_bytes_def)
next
  case True
  then show ?thesis
    by (intro that(2) [of "escape_byte c ! 1"])
      (auto simp: needs_escape_def escape_byte_def value_end_bytes_def unescape_byte_def)
qed

lemma unescape_escape_append: "unescape (escape v @ r) = v @ unescape r"
proof (induction v)
  case (Cons c v)
  then show ?case
    by (cases c rule: escape_byte_cases) (auto simp: escape_Cons)
qed simp

lemma unescape_escape: "unescape (escape v) = v"
  using unescape_escape_append [of v "[]"] by simp

lemma escape_id: "filter needs_escape v = [] \<Longrightarrow> escape v = v"
proof (induction v)
  case (Cons c v)
  then show ?case
    by (cases c rule: escape_byte_cases) (auto simp: escape_Cons split: if_splits)
qed simp

definition delimited :: "bytes \<Rightarrow> bool" where
  "delimited r \<longleftrightarrow> r = [] \<or> hd r \<in> set [32, 124]"

lemma scan_value_delimited: "delimited r \<Longrightarrow> scan_value r = ([], 0, r)"
  by (cases r) (auto simp: delimited_def value_end_bytes_def)

lemma scan_value_escape:
  assumes "delimited r"
  shows "scan_value (escape v @ r) = (escape v, length (filter needs_escape v), r)"
proof (induction v)
  case Nil
  then show ?case using scan_value_delimited [OF assms] by simp
next
  case (Cons c v)
  have "(92 :: u8) \<notin> set value_end_bytes"
    by (simp add: value_end_bytes_def)
  with Cons show ?case
    by (cases c rule: escape_byte_cases) (auto simp: escape_Cons)
qed

lemma value_get_escape:
  "value_get (ArgValue (escape v) (length (filter needs_escape v))) = v"
  by (simp add: value_get_def unescape_escape escape_id)

section \<open>What the writer produces\<close>

definition render_arg :: "bytes \<times> bytes \<Rightarrow> bytes" where
  "render_arg a = fst a @ (if snd a = [] then [] else 61 # escape (snd a))"

definition render_tail :: "command_part \<Rightarrow> bytes" where
  "render_tail args = concat (map (\<lambda>a. 32 # render_arg a) args)"

fun render_part :: "command_part \<Rightarrow> bytes" where
  "render_part [] = []"
| "render_part (a # args) = render_arg a @ render_tail args"

text \<open>An argument name is not empty and holds no separator of the syntax.\<close>

definition wf_arg_name :: "bytes \<Rightarrow> bool" where
  "wf_arg_name n \<longleftrightarrow> n \<noteq> [] \<and> set n \<inter> set (61 # value_end_bytes) = {}"

definition wf_part :: "command_part \<Rightarrow> bool" where
  "wf_part args \<longleftrightarrow> (\<forall>a \<in> set args. wf_arg_name (fst a))"

lemma render_tail_simps [simp]:
  "render_tail [] = []" "render_tail (a # args) = 32 # render_arg a @ render_tail args"
  by (simp_all add: render_tail_def)

lemma pipe_not_in_escape: "124 \<notin> set (escape v)"
proof (induction v)
  case (Cons c v)
  then show ?case
    by (cases c rule: escape_byte_cases) (auto simp: escape_Cons value_end_bytes_def)
qed simp

lemma last_render_arg:
  assumes "wf_arg_name (fst a)" shows "render_arg a \<noteq> [] \<and> last (render_arg a) \<noteq> 124"
proof -
  have "124 \<notin> set (fst a)" "fst a \<noteq> []"
    using assms by (auto simp: wf_arg_name_def value_end_bytes_def)
  then have "last (fst a) \<noteq> 124"
    by (metis last_in_set)
  moreover have "snd a \<noteq> [] \<Longrightarrow> last (escape (snd a)) \<noteq> 124"
    using pipe_not_in_escape [of "snd a"] by (metis escape_eq_Nil_iff last_in_set)
  ultimately show ?thesis
    using assms by (auto simp: render_arg_def wf_arg_name_def)
qed

lemma out_content_extend: "wf_out p \<Longrightarrow> out_content (out_extend d p) = out_content p @ d"
  by (simp add: out_content_def out_extend_def wf_out_def)

lemma write_arg_content:
  assumes "wf_out p"
  shows "out_content (write_arg n v p) =
      out_content (write_separator p) @ render_arg (n, v) \<and> wf_out (write_arg n v p)"
proof -
  have sep: "wf_out (write_separator p)" "out_dir (write_separator p) = out_dir p"
    using assms by (simp_all add: write_separator_def wf_out_setters)
  have "write_arg n v p = out_extend (render_arg (n, v)) (write_separator p)"
    by (simp add: write_arg_def Let_def render_arg_def out_extend_def butlast_append)
  with sep show ?thesis
    by (simp add: out_content_extend wf_out_setters)
qed

definition open_end :: "out_packet \<Rightarrow> bool" where
  "open_end p \<longleftrightarrow> wf_out p \<and> out_content p \<noteq> [] \<and> last (out_content p) \<noteq> 124"

lemma write_part_open:
  assumes "open_end p" "wf_part args"
  shows "out_content (write_part p args) = out_content p @ render_tail args \<and>
    open_end (write_part p args)"
  using assms
proof (induction args arbitrary: p)
  case Nil
  then show ?case by (simp add: write_part_def)
next
  case (Cons a args)
  let ?q = "write_arg (fst a) (snd a) p"
  have wf: "wf_out p" "wf_arg_name (fst a)" "wf_part args"
    using Cons.prems by (simp_all add: open_end_def wf_part_def)
  have "out_content (write_separator p) = out_content p @ [32]"
    using Cons.prems(1) by (simp add: write_separator_def open_end_def out_content_extend)
  then have q: "out_content ?q = out_content p @ 32 # render_arg a" "wf_out ?q"
    using write_arg_content [OF wf(1), of "fst a" "snd a"] by simp_all
  then have "open_end ?q"
    using last_render_arg [OF wf(2)] by (simp add: open_end_def)
  with Cons.IH [OF this wf(3)] q show ?case
    by (simp add: write_part_def split_beta)
qed

lemma write_next_part:
  assumes "wf_out p" "wf_part args"
  shows "out_content (write_part (start_new_part p) args) = out_content p @ 124 # render_part args \<and>
    wf_out (write_part (start_new_part p) args)"
proof (cases args)
  case Nil
  then show ?thesis
    using assms
    by (simp add: write_part_def start_new_part_def out_content_extend wf_out_setters)
next
  case (Cons a rest)
  let ?p = "start_new_part p" and ?q = "write_arg (fst a) (snd a) (start_new_part p)"
  have wf: "wf_out ?p" "wf_arg_name (fst a)" "wf_part rest"
    using assms Cons
    by (simp_all add: wf_part_def start_new_part_def wf_out_setters)
  have c: "out_content ?p = out_content p @ [124]"
    using assms by (simp add: start_new_part_def out_content_extend)
  then have "out_content (write_separator ?p) = out_content p @ [124]"
    by (simp add: write_separator_def)
  then have q: "out_content ?q = out_content p @ 124 # render_arg a" "wf_out ?q"
    using write_arg_content [OF wf(1), of "fst a" "snd a"] by simp_all
  then have "open_end ?q"
    using last_render_arg [OF wf(2)] by (simp add: open_end_def)
  from write_part_open [OF this wf(3)] q show ?thesis
    by (simp add: Cons write_part_def split_beta open_end_def)
qed

lemma write_parts_content:
  assumes "wf_out p" "\<forall>part \<in> set parts. wf_part part"
  shows "out_content (foldl (\<lambda>p part. write_part (start_new_part p) part) p parts) =
    out_content p @ concat (map (\<lambda>part. 124 # render_part part) parts)"
  using assms
proof (induction parts arbitrary: p)
  case (Cons part parts)
  from Cons.prems write_next_part [of p part]
  have "out_content (write_part (start_new_part p) part) = out_content p @ 124 # render_part part"
    "wf_out (write_part (start_new_part p) part)" by simp_all
  with Cons.IH [OF this(2)] Cons.prems show ?case by simp
qed simp

section \<open>Parsing what was written\<close>

definition command_name_ok :: "bytes \<Rightarrow> bool" where
  "command_name_ok name \<longleftrightarrow> name \<noteq> [] \<and> list_all is_ascii_alphanumeric name"

lemma write_command_content:
  assumes "command_name_ok name" "\<forall>part \<in> set (a # parts). wf_part part"
  shows "out_content (write_command dir f t name (a # parts)) =
    name @ render_tail a @ concat (map (\<lambda>part. 124 # render_part part) parts)"
proof -
  let ?p = "out_command_new dir f t name"
  have wf: "wf_out (set_flags f (out_new_with_dir dir 0 t))"
    by (simp add: wf_out_setters)
  have "out_content (set_flags f (out_new_with_dir dir 0 t)) = []"
    by (simp add: out_content_def set_flags_def Let_def out_new_with_dir_eq header_len_Suc)
  with wf have c: "out_content ?p = name" "wf_out ?p"
    by (simp_all add: out_command_new_def out_content_extend wf_out_setters)
  have "is_ascii_alphanumeric (last name)"
    using assms(1) by (auto simp: command_name_ok_def list_all_iff)
  then have "last name \<noteq> 124"
    by (auto simp: is_ascii_alphanumeric_def)
  with c assms(1) have "open_end ?p"
    by (simp add: open_end_def command_name_ok_def)
  from write_part_open [OF this, of a] assms(2) c
  have "out_content (write_part ?p a) = name @ render_tail a" "wf_out (write_part ?p a)"
    by (simp_all add: open_end_def)
  with write_parts_content [of "write_part ?p a" parts] assms(2) show ?thesis
    by simp
qed

lemma scan_command_name_stop:
  assumes "list_all is_ascii_alphanumeric name" and "r = [] \<or> hd r = 32"
  shows "scan_command_name (name @ r) k = k + length name"
  using assms
proof (induction name arbitrary: k)
  case Nil
  then show ?case
    by (cases r) (auto simp: is_ascii_alphanumeric_def)
qed simp

definition read_item :: "command_item \<Rightarrow> (bytes \<times> bytes) option" where
  "read_item i = (case i of Argument n v \<Rightarrow> Some (n, value_get v) | NextCommand \<Rightarrow> None)"

lemma read_item_simps [simp]:
  "read_item (Argument n v) = Some (n, value_get v)" "read_item NextCommand = None"
  by (simp_all add: read_item_def)

text \<open>What a reader should see: the arguments of each part, and a \<open>None\<close> between the parts.\<close>

fun expected_items :: "command_part list \<Rightarrow> (bytes \<times> bytes) option list" where
  "expected_items [] = []"
| "expected_items (a # parts) = map Some a @ concat (map (\<lambda>part. None # map Some part) parts)"

lemma next_item_space: "next_item (32 # r) = next_item r"
  by (simp add: next_item_def skip_space_def space_bytes_def)

lemma parse_items_space: "parse_items (32 # r) = parse_items r"
  by (subst (1 2) parse_items.simps) (simp add: next_item_space)

lemma parse_items_pipe: "parse_items (124 # r) = NextCommand # parse_items r"
  by (subst parse_items.simps) (simp add: next_item_def skip_space_def space_bytes_def)

lemma parse_items_Nil: "parse_items [] = []"
  by (subst parse_items.simps) (simp add: next_item_def skip_space_def)

lemma next_item_arg:
  assumes n: "wf_arg_name n" and r: "delimited r"
  shows "next_item (render_arg (n, v) @ r) =
    Some (Argument n (ArgValue (escape v) (length (filter needs_escape v))), r)"
proof -
  let ?P = "\<lambda>c. c \<notin> set name_end_bytes"
  let ?rest = "(if v = [] then [] else 61 # escape v) @ r"
  obtain b bs where b: "n = b # bs"
    using n by (cases n) (auto simp: wf_arg_name_def)
  have nd: "\<forall>c \<in> set n. ?P c" "b \<notin> set space_bytes" "b \<noteq> 124"
    using n b by (auto simp: wf_arg_name_def name_end_bytes_def value_end_bytes_def space_bytes_def)
  have stop: "?rest = [] \<or> \<not> ?P (hd ?rest)"
    using r by (cases r) (auto simp: delimited_def name_end_bytes_def)
  have tw: "takeWhile ?P (n @ ?rest) = n" "dropWhile ?P (n @ ?rest) = ?rest"
    using nd(1) stop
    by (cases ?rest; simp add: takeWhile_append dropWhile_append)+
  have sk: "skip_space (n @ ?rest) = n @ ?rest"
    using nd(2) b by (simp add: skip_space_def)
  have "next_item (n @ ?rest) =
    Some (Argument n (ArgValue (escape v) (length (filter needs_escape v))), r)"
  proof (cases "v = []")
    case True
    then show ?thesis
      using sk tw b nd(3) r
      by (cases r) (auto simp: next_item_def Let_def delimited_def)
  next
    case False
    then show ?thesis
      using sk tw b nd(3) scan_value_escape [OF r, of v]
      by (auto simp: next_item_def Let_def)
  qed
  then show ?thesis by (cases "v = []") (simp_all add: render_arg_def)
qed

lemma delimited_tail: "delimited r \<Longrightarrow> delimited (render_tail args @ r)"
  by (cases args) (auto simp: delimited_def)

lemma read_parse_arg:
  assumes "wf_arg_name (fst a)" "delimited r"
  shows "map read_item (parse_items (render_arg a @ r)) = Some a # map read_item (parse_items r)"
  using next_item_arg [OF assms, of "snd a"]
  by (subst parse_items.simps) (simp add: value_get_escape)

lemma read_parse_tail:
  assumes "wf_part args" "delimited r"
  shows "map read_item (parse_items (render_tail args @ r)) = map Some args @ map read_item (parse_items r)"
  using assms(1)
proof (induction args)
  case (Cons a args)
  then show ?case
    using read_parse_arg [of a "render_tail args @ r"] delimited_tail [OF assms(2)]
    by (simp add: wf_part_def parse_items_space)
qed simp

lemma read_parse_part:
  assumes "wf_part args" "delimited r"
  shows "map read_item (parse_items (render_part args @ r)) = map Some args @ map read_item (parse_items r)"
proof (cases args)
  case (Cons a rest)
  then show ?thesis
    using assms read_parse_arg [of a "render_tail rest @ r"] read_parse_tail [of rest r]
      delimited_tail [OF assms(2)]
    by (simp add: wf_part_def)
qed simp

lemma read_parse_parts:
  assumes "\<forall>part \<in> set parts. wf_part part"
  shows "map read_item (parse_items (concat (map (\<lambda>part. 124 # render_part part) parts))) =
    concat (map (\<lambda>part. None # map Some part) parts)"
  using assms
proof (induction parts)
  case (Cons part parts)
  have "delimited (concat (map (\<lambda>part. 124 # render_part part) parts))"
    by (cases parts) (auto simp: delimited_def)
  with Cons read_parse_part [of part] show ?case
    by (simp add: parse_items_pipe)
qed (simp add: parse_items_Nil)

text \<open>
  C13: A command written with \<open>OutCommand\<close> (name, arguments of the first part, further parts) is read
  back by \<open>CommandParser\<close>: the same name, and the same argument names and values in the same parts,
  for arbitrary bytes in the values. The name is alphanumeric, argument names hold no separator,
  and a command of several parts has an argument in the first one.
\<close>

theorem command_roundtrip:
  assumes "command_name_ok name" and "\<forall>part \<in> set (a # parts). wf_part part"
    and "a \<noteq> [] \<or> parts = []"
  shows "\<exists>p. command_parser_new (out_content (write_command dir f t name (a # parts))) = (name, p) \<and>
    map read_item (parse_items p) = expected_items (a # parts)"
proof -
  let ?rest = "render_tail a @ concat (map (\<lambda>part. 124 # render_part part) parts)"
  have c: "out_content (write_command dir f t name (a # parts)) = name @ ?rest"
    using write_command_content [OF assms(1,2)] .
  have "?rest = [] \<or> hd ?rest = 32"
    using assms(3) by (cases a) auto
  then have "scan_command_name (name @ ?rest) 0 = length name"
    using scan_command_name_stop [of name ?rest 0] assms(1) by (simp add: command_name_ok_def)
  then have "command_parser_new (name @ ?rest) = (name, ?rest)"
    by (simp add: command_parser_new_def Let_def)
  moreover have "delimited (concat (map (\<lambda>part. 124 # render_part part) parts))"
    by (cases parts) (auto simp: delimited_def)
  then have "map read_item (parse_items ?rest) = expected_items (a # parts)"
    using read_parse_tail [of a] read_parse_parts [of parts] assms(2) by simp
  ultimately show ?thesis using c by auto
qed

theorem command_roundtrip_witness:
  "\<exists>p. command_parser_new (out_content (write_command S2C 0 Command (bstr ''cmd'')
        [[(bstr ''a'', bstr '' |/''), (bstr ''b'', [])], [(bstr ''c'', [92])]])) = (bstr ''cmd'', p) \<and>
     map read_item (parse_items p) =
       [Some (bstr ''a'', bstr '' |/''), Some (bstr ''b'', []), None, Some (bstr ''c'', [92])]"
  using command_roundtrip [of "bstr ''cmd''" "[(bstr ''a'', bstr '' |/''), (bstr ''b'', [])]"
      "[[(bstr ''c'', [92])]]" S2C 0 Command]
  by (simp add: command_name_ok_def wf_part_def wf_arg_name_def bstr_def value_end_bytes_def
      is_ascii_alphanumeric_def)



end
