(* ===== verification/License.thy ===== *)
theory License
  imports Algorithms
begin

text \<open>
  Server licenses (\<open>tsproto/src/license.rs\<close>): the parser of a chain of license blocks, the accessors
  of a block and the derivation of keys along the chain. Instants are unix seconds. The operations
  of the curve, of its scalars and the hash function come from other crates and are the fields of a
  record; the raw values of the generated enum \<open>LicenseType\<close> are a predicate.
\<close>

section \<open>Text\<close>

text \<open>\<open>str::from_utf8\<close>: whether the bytes are well-formed UTF-8.\<close>

definition continuation :: "u8 \<Rightarrow> bool" where
  "continuation b \<longleftrightarrow> 0x80 \<le> b \<and> b \<le> 0xBF"

definition utf8_second :: "u8 \<Rightarrow> u8 \<Rightarrow> bool" where
  "utf8_second a b \<longleftrightarrow>
     (if a = 0xE0 then 0xA0 \<le> b \<and> b \<le> 0xBF
      else if a = 0xED then 0x80 \<le> b \<and> b \<le> 0x9F
      else if a = 0xF0 then 0x90 \<le> b \<and> b \<le> 0xBF
      else if a = 0xF4 then 0x80 \<le> b \<and> b \<le> 0x8F
      else continuation b)"

text \<open>The length of the sequence that starts with a byte; 0 when no sequence does.\<close>

definition utf8_width :: "u8 \<Rightarrow> nat" where
  "utf8_width a =
     (if a \<le> 0x7F then 1
      else if 0xC2 \<le> a \<and> a \<le> 0xDF then 2
      else if 0xE0 \<le> a \<and> a \<le> 0xEF then 3
      else if 0xF0 \<le> a \<and> a \<le> 0xF4 then 4
      else 0)"

definition utf8_sequence :: "bytes \<Rightarrow> bool" where
  "utf8_sequence bs \<longleftrightarrow>
     (case bs of
        [] \<Rightarrow> False
      | [a] \<Rightarrow> True
      | a # b # cs \<Rightarrow> utf8_second a b \<and> list_all continuation cs)"

function utf8_valid :: "bytes \<Rightarrow> bool" where
  "utf8_valid bs =
     (case bs of
        [] \<Rightarrow> True
      | a # _ \<Rightarrow>
          let n = utf8_width a in
          if 0 < n \<and> n \<le> length bs \<and> utf8_sequence (take n bs) then utf8_valid (drop n bs)
          else False)"
  by auto
termination
  by (relation "measure length") auto

declare utf8_valid.simps [simp del]

section \<open>Blocks\<close>

definition TIMESTAMP_OFFSET :: int where "TIMESTAMP_OFFSET = 0x50e22700"
definition BLOCK_MIN_LEN :: nat where "BLOCK_MIN_LEN = 42"
definition BLOCK_TYPE_OFFSET :: nat where "BLOCK_TYPE_OFFSET = 33"
definition BLOCK_NOT_VALID_BEFORE_OFFSET :: nat where "BLOCK_NOT_VALID_BEFORE_OFFSET = 34"
definition BLOCK_NOT_VALID_AFTER_OFFSET :: nat where "BLOCK_NOT_VALID_AFTER_OFFSET = 38"

type_synonym time_bounds = "int \<times> int"

datatype license_error =
    LicenseBounds time_bounds time_bounds
  | Deserialize
  | DeserializeString
  | Expired int int
  | InvalidPublicKey
  | InvalidRootKey
  | NonterminatedString
  | NoPrivateKey
  | TooManyBlocks nat
  | TooShort nat string
  | UnknownBlockType u8
  | UnknownLicenseType u8
  | UnsupportedVersion u8
  | WrongKeyKind u8
  | NoSuchProperty string
  | WrongPropertyType u8 u8 u8
  | WrongPropertyLength u8 u8 u8 u8

datatype license_block_type = Intermediate | Website | Server | Code | Ts5Server | Ephemeral

fun block_type_to_u8 :: "license_block_type \<Rightarrow> u8" where
  "block_type_to_u8 Intermediate = 0"
| "block_type_to_u8 Website = 1"
| "block_type_to_u8 Server = 2"
| "block_type_to_u8 Code = 3"
| "block_type_to_u8 Ts5Server = 8"
| "block_type_to_u8 Ephemeral = 32"

definition block_type_from_u8 :: "u8 \<Rightarrow> license_block_type option" where
  "block_type_from_u8 b =
     (if b = 0 then Some Intermediate else if b = 1 then Some Website else if b = 2 then Some Server
      else if b = 3 then Some Code else if b = 8 then Some Ts5Server
      else if b = 32 then Some Ephemeral else None)"

datatype inner_license = InnerTs5Server "nat list" | InnerOther

record 's license =
  lic_len :: nat
  lic_private_key :: "'s option"
  lic_inner :: inner_license

record 's licenses =
  lics_data :: bytes
  lics_blocks :: "'s license list"

datatype license_property =
    PropUnknown1 u32
  | PropIssuer bytes
  | PropMaxClients u32
  | PropUnknown u8 u8 bytes

definition licenses_default :: "'s licenses" where
  "licenses_default = \<lparr>lics_data = [1], lics_blocks = []\<rparr>"

section \<open>Parsing\<close>

text \<open>
  The offsets of the properties of a TS5 block, relative to the byte after their count, and the
  position after them. A length byte counts what follows it.
\<close>

fun ts5_properties :: "nat \<Rightarrow> bytes \<Rightarrow> nat \<Rightarrow> nat \<Rightarrow> (license_error, nat list \<times> nat) outcome" where
  "ts5_properties len data 0 pos = Ok ([], pos)"
| "ts5_properties len data (Suc n) pos =
     (if length data \<le> pos then Err (TooShort len ''missing TS5 license property'')
      else
        let p = pos - 2; l = unat (data ! pos); pos = pos + 1 in
        if length data \<le> pos + l then Err (TooShort l ''cut off TS5 license property'')
        else bind_out (ts5_properties len data n (pos + l)) (\<lambda>(ps, pos). Ok (p # ps, pos)))"

text \<open>The kind of the block and the number of bytes after the fixed part.\<close>

definition parse_inner :: "nat \<Rightarrow> u8 \<Rightarrow> bytes \<Rightarrow> (license_error, inner_license \<times> nat) outcome" where
  "parse_inner len typ_i data =
     bind_out (ok_or (UnknownBlockType typ_i) (block_type_from_u8 typ_i)) (\<lambda>typ.
       case typ of
         Intermediate \<Rightarrow>
           if length data < 5 then
             Err (TooShort len ''less than minimum length of intermediate license'')
           else
             (case position (\<lambda>b. b = 0) (drop 4 data) of
                Some n \<Rightarrow> Ok (InnerOther, 5 + n)
              | None \<Rightarrow> Err NonterminatedString)
       | Server \<Rightarrow>
           if length data < 6 then
             Err (TooShort len ''less than minimum length of TS3 server license'')
           else
             (case position (\<lambda>b. b = 0) (drop 5 data) of
                Some n \<Rightarrow> Ok (InnerOther, 6 + n)
              | None \<Rightarrow> Err NonterminatedString)
       | Ts5Server \<Rightarrow>
           if length data < 2 then
             Err (TooShort len ''less than minimum length of TS5 server license'')
           else
             bind_out (ts5_properties len data (unat (data ! 1)) 2) (\<lambda>(ps, pos).
               Ok (InnerTs5Server ps, pos))
       | Ephemeral \<Rightarrow> Ok (InnerOther, 0)
       | _ \<Rightarrow> Err (UnknownBlockType typ_i))"

definition license_parse :: "bytes \<Rightarrow> (license_error, 's license) outcome" where
  "license_parse data =
     (let len = length data in
      if len < BLOCK_MIN_LEN then Err (TooShort len ''less than minimum block length'')
      else if data ! 0 \<noteq> 0 then Err (WrongKeyKind (data ! 0))
      else
        bind_out (parse_inner len (data ! BLOCK_TYPE_OFFSET) (drop BLOCK_MIN_LEN data))
          (\<lambda>(inner, extra_len).
            Ok \<lparr>lic_len = BLOCK_MIN_LEN + extra_len, lic_private_key = None, lic_inner = inner\<rparr>))"

text \<open>\<open>OffsetDateTime::from_unix_timestamp\<close> accepts every time that four bytes can give.\<close>

definition get_timestamp :: "bytes \<Rightarrow> nat \<Rightarrow> (license_error, int) outcome" where
  "get_timestamp data off =
     bind_out (slice data off (length data)) (\<lambda>d.
     bind_out (ok_or Deserialize (read_be32 d)) (\<lambda>num.
       Ok (int (unat num) + TIMESTAMP_OFFSET)))"

definition get_not_valid_before :: "bytes \<Rightarrow> (license_error, int) outcome" where
  "get_not_valid_before data = get_timestamp data BLOCK_NOT_VALID_BEFORE_OFFSET"

definition get_not_valid_after :: "bytes \<Rightarrow> (license_error, int) outcome" where
  "get_not_valid_after data = get_timestamp data BLOCK_NOT_VALID_AFTER_OFFSET"

definition parse_block ::
  "bytes \<Rightarrow> bool \<Rightarrow> int \<Rightarrow> time_bounds option \<Rightarrow> (license_error, 's license \<times> time_bounds) outcome" where
  "parse_block data check_expired now bounds =
     bind_out (license_parse data) (\<lambda>license.
     bind_out (slice data 0 (lic_len license)) (\<lambda>license_data.
     bind_out (get_not_valid_before license_data) (\<lambda>start.
     bind_out (get_not_valid_after license_data) (\<lambda>stop.
       if start > now \<and> check_expired then Err (Expired start stop)
       else if stop < now \<and> check_expired then Err (Expired start stop)
       else
         case bounds of
           Some (outer_start, outer_stop) \<Rightarrow>
             if start < outer_start \<or> stop > outer_stop
             then Err (LicenseBounds (outer_start, outer_stop) (start, stop))
             else Ok (license, (start, stop))
         | None \<Rightarrow> Ok (license, (start, stop))))))"

text \<open>The loop that reads blocks until the end of the data, from an offset.\<close>

function parse_blocks ::
  "bytes \<Rightarrow> bool \<Rightarrow> int \<Rightarrow> nat \<Rightarrow> time_bounds option \<Rightarrow> 's license list
     \<Rightarrow> (license_error, 's license list) outcome" where
  "parse_blocks data check_expired now offset bounds blocks =
     (if offset < length data then
        if 8 \<le> length blocks then Err (TooManyBlocks (length blocks))
        else
          (case parse_block (drop offset data) check_expired now bounds of
             Ok (license, b) \<Rightarrow>
               parse_blocks data check_expired now (offset + lic_len license) (Some b)
                 (blocks @ [license])
           | Err e \<Rightarrow> Err e
           | Panic \<Rightarrow> Panic)
      else Ok blocks)"
  by auto
termination
  by (relation "measure (\<lambda>(_, _, _, _, _, blocks). 9 - length blocks)") auto

declare parse_blocks.simps [simp del]

definition parse_internal :: "int \<Rightarrow> bytes \<Rightarrow> bool \<Rightarrow> (license_error, 's licenses) outcome" where
  "parse_internal now data check_expired =
     bind_out (index data 0) (\<lambda>version.
       if version \<noteq> 0 \<and> version \<noteq> 1 then Err (UnsupportedVersion version)
       else bind_out (parse_blocks data check_expired now 1 None []) (\<lambda>blocks.
         Ok \<lparr>lics_data = data, lics_blocks = blocks\<rparr>))"

definition licenses_parse :: "int \<Rightarrow> bytes \<Rightarrow> (license_error, 's licenses) outcome" where
  "licenses_parse now data = parse_internal now data True"

definition parse_ignore_expired :: "int \<Rightarrow> bytes \<Rightarrow> (license_error, 's licenses) outcome" where
  "parse_ignore_expired now data = parse_internal now data False"

section \<open>Accessors of a block\<close>

definition get_type :: "bytes \<Rightarrow> (license_error, license_block_type) outcome" where
  "get_type data =
     bind_out (index data BLOCK_TYPE_OFFSET) (\<lambda>typ_i.
       ok_or (UnknownBlockType typ_i) (block_type_from_u8 typ_i))"

text \<open>\<open>known\<close> says which raw values \<open>LicenseType\<close> has.\<close>

definition get_license_type :: "(u8 \<Rightarrow> bool) \<Rightarrow> bytes \<Rightarrow> (license_error, u8) outcome" where
  "get_license_type known data =
     bind_out (get_type data) (\<lambda>typ.
       if typ \<noteq> Server \<and> typ \<noteq> Ts5Server then Err (NoSuchProperty ''license type'')
       else bind_out (index data BLOCK_MIN_LEN) (\<lambda>b.
         if known b then Ok b else Err (UnknownLicenseType b)))"

text \<open>One property at offset \<open>p\<close>; \<open>slice\<close> panics when the bounds are not in order.\<close>

definition get_property :: "bytes \<Rightarrow> nat \<Rightarrow> (license_error, license_property) outcome" where
  "get_property data p =
     (let off = BLOCK_MIN_LEN + 2 + p in
      bind_out (index data off) (\<lambda>len.
      bind_out (index data (off + 1)) (\<lambda>id.
      bind_out (index data (off + 2)) (\<lambda>typ.
      bind_out
        (if typ = 0 then
           bind_out (index data (off + unat len)) (\<lambda>b.
             if b \<noteq> 0 then Err NonterminatedString else Ok None)
         else if typ = 1 \<or> typ = 3 then Ok (Some 4)
         else if typ = 2 \<or> typ = 4 then Ok (Some 8)
         else Ok None) (\<lambda>expected.
        if expected \<noteq> None \<and> len \<noteq> the expected
        then Err (WrongPropertyLength id typ (the expected) len)
        else if id = 1 then
          (if typ \<noteq> 1 then Err (WrongPropertyType id 1 typ)
           else bind_out (slice data (off + 3) (off + 3 + 4)) (\<lambda>d.
             bind_out (ok_or Deserialize (read_be32 d)) (\<lambda>v. Ok (PropUnknown1 v))))
        else if id = 2 then
          (if typ \<noteq> 0 then Err (WrongPropertyType id 0 typ)
           else bind_out (slice data (off + 3) (off + unat len)) (\<lambda>s.
             if utf8_valid s then Ok (PropIssuer s) else Err DeserializeString))
        else if id = 3 then
          (if typ \<noteq> 1 then Err (WrongPropertyType id 1 typ)
           else bind_out (slice data (off + 3) (off + 3 + 4)) (\<lambda>d.
             bind_out (ok_or Deserialize (read_be32 d)) (\<lambda>v. Ok (PropMaxClients v))))
        else bind_out (slice data (off + 3) (off + unat len)) (\<lambda>d.
             Ok (PropUnknown id typ d)))))))"

text \<open>The iterator over the properties, as the list of its items.\<close>

definition get_properties ::
  "'s license \<Rightarrow> bytes \<Rightarrow> (license_error, (license_error, license_property) outcome list) outcome" where
  "get_properties l data =
     (case lic_inner l of
        InnerTs5Server ps \<Rightarrow> Ok (map (get_property data) ps)
      | InnerOther \<Rightarrow> Err (NoSuchProperty ''properties''))"

text \<open>\<open>find_map\<close> on such an iterator: errors are skipped.\<close>

fun find_property ::
  "(license_property \<Rightarrow> 'a option) \<Rightarrow> (license_error, license_property) outcome list
     \<Rightarrow> (license_error, 'a option) outcome" where
  "find_property f [] = Ok None"
| "find_property f (Panic # ps) = Panic"
| "find_property f (Err _ # ps) = find_property f ps"
| "find_property f (Ok p # ps) = (case f p of Some x \<Rightarrow> Ok (Some x) | None \<Rightarrow> find_property f ps)"

fun prop_issuer :: "license_property \<Rightarrow> bytes option" where
  "prop_issuer (PropIssuer s) = Some s"
| "prop_issuer _ = None"

fun prop_max_clients :: "license_property \<Rightarrow> u32 option" where
  "prop_max_clients (PropMaxClients n) = Some n"
| "prop_max_clients _ = None"

text \<open>\<open>self.len - offset - 1\<close> wraps below zero; the slice then panics as it does for a large end.\<close>

definition get_issuer :: "'s license \<Rightarrow> bytes \<Rightarrow> (license_error, bytes) outcome" where
  "get_issuer l data =
     bind_out (get_type data) (\<lambda>typ.
       if typ = Ts5Server then
         bind_out (get_properties l data) (\<lambda>ps.
         bind_out (find_property prop_issuer ps) (ok_or (NoSuchProperty ''issuer'')))
       else if typ = Ephemeral then Err (NoSuchProperty ''issuer'')
       else
         let offset = BLOCK_MIN_LEN + (case typ of Intermediate \<Rightarrow> 4 | Server \<Rightarrow> 5 | _ \<Rightarrow> 0) in
         if lic_len l < offset + 1 then Panic
         else bind_out (slice data offset (lic_len l - 1)) (\<lambda>s.
           if utf8_valid s then Ok s else Err DeserializeString))"

definition get_max_clients :: "'s license \<Rightarrow> bytes \<Rightarrow> (license_error, u32) outcome" where
  "get_max_clients l data =
     bind_out (get_type data) (\<lambda>typ.
       if typ = Ts5Server then
         bind_out (get_properties l data) (\<lambda>ps.
         bind_out (find_property prop_max_clients ps) (ok_or (NoSuchProperty ''max clients'')))
       else
         let read = (\<lambda>offset. bind_out (slice data offset (offset + 4)) (\<lambda>d.
                       ok_or Deserialize (read_be32 d))) in
         case typ of
           Intermediate \<Rightarrow> read BLOCK_MIN_LEN
         | Server \<Rightarrow> read (BLOCK_MIN_LEN + 1)
         | _ \<Rightarrow> Err (NoSuchProperty ''max clients''))"

section \<open>Validity\<close>

text \<open>An error other than a missing property is passed on.\<close>

definition pass_missing :: "(license_error, 'a) outcome \<Rightarrow> (license_error, unit) outcome" where
  "pass_missing r =
     (case r of
        Err (NoSuchProperty _) \<Rightarrow> Ok ()
      | Err e \<Rightarrow> Err e
      | Panic \<Rightarrow> Panic
      | Ok _ \<Rightarrow> Ok ())"

fun check_all :: "(license_error, 'a) outcome list \<Rightarrow> (license_error, unit) outcome" where
  "check_all [] = Ok ()"
| "check_all (p # ps) = bind_out p (\<lambda>_. check_all ps)"

section \<open>Keys\<close>

text \<open>
  The curve: decompression of a point, multiplication with a scalar and addition of points, the
  scalar of 32 bytes modulo the order, product and sum of scalars, and \<open>Sha512::digest\<close>.
\<close>

record ('p, 's) curve =
  cv_decompress :: "bytes \<Rightarrow> 'p option"
  cv_mul :: "'p \<Rightarrow> 's \<Rightarrow> 'p"
  cv_add :: "'p \<Rightarrow> 'p \<Rightarrow> 'p"
  cv_scalar :: "bytes \<Rightarrow> 's"
  cv_smul :: "'s \<Rightarrow> 's \<Rightarrow> 's"
  cv_sadd :: "'s \<Rightarrow> 's \<Rightarrow> 's"
  cv_sha512 :: "bytes \<Rightarrow> bytes"

definition get_public_key :: "('p, 's) curve \<Rightarrow> bytes \<Rightarrow> (license_error, 'p) outcome" where
  "get_public_key c data =
     bind_out (slice data 1 33) (\<lambda>k. ok_or InvalidPublicKey (cv_decompress c k))"

definition hash_key_bytes :: "bytes \<Rightarrow> bytes" where
  "hash_key_bytes h =
     (let h = h[0 := h ! 0 AND 248]; h = h[31 := h ! 31 AND 63]; h = h[31 := h ! 31 OR 64]
      in take 32 h)"

definition get_hash_key :: "('p, 's) curve \<Rightarrow> bytes \<Rightarrow> (license_error, 's) outcome" where
  "get_hash_key c data =
     bind_out (slice data 1 (length data)) (\<lambda>d.
       Ok (cv_scalar c (hash_key_bytes (cv_sha512 c d))))"

definition derive_public_key_block ::
  "('p, 's) curve \<Rightarrow> bytes \<Rightarrow> 'p \<Rightarrow> (license_error, 'p) outcome" where
  "derive_public_key_block c data parent_key =
     bind_out (get_public_key c data) (\<lambda>pub_key.
     bind_out (get_hash_key c data) (\<lambda>hash_key.
       Ok (cv_add c (cv_mul c pub_key hash_key) parent_key)))"

definition derive_private_key_block ::
  "('p, 's) curve \<Rightarrow> 's license \<Rightarrow> bytes \<Rightarrow> 's \<Rightarrow> (license_error, 's) outcome" where
  "derive_private_key_block c l data parent_key =
     bind_out (ok_or NoPrivateKey (lic_private_key l)) (\<lambda>priv_key.
     bind_out (get_hash_key c data) (\<lambda>hash_key.
       Ok (cv_sadd c (cv_smul c priv_key hash_key) parent_key)))"

text \<open>The loops over the blocks, which start at offset 1.\<close>

fun derive_public_key_from ::
  "('p, 's) curve \<Rightarrow> bytes \<Rightarrow> 's license list \<Rightarrow> nat \<Rightarrow> 'p \<Rightarrow> (license_error, 'p) outcome" where
  "derive_public_key_from c data [] offset last_round = Ok last_round"
| "derive_public_key_from c data (l # ls) offset last_round =
     bind_out (slice data offset (offset + lic_len l)) (\<lambda>d.
     bind_out (derive_public_key_block c d last_round) (\<lambda>k.
       derive_public_key_from c data ls (offset + lic_len l) k))"

definition derive_public_key ::
  "('p, 's) curve \<Rightarrow> 's licenses \<Rightarrow> bytes \<Rightarrow> (license_error, 'p) outcome" where
  "derive_public_key c ls root =
     bind_out (ok_or InvalidRootKey (cv_decompress c root)) (\<lambda>k.
       derive_public_key_from c (lics_data ls) (lics_blocks ls) 1 k)"

fun derive_private_key_from ::
  "('p, 's) curve \<Rightarrow> bytes \<Rightarrow> nat \<Rightarrow> 's license list \<Rightarrow> nat \<Rightarrow> nat \<Rightarrow> 's \<Rightarrow> (license_error, 's) outcome" where
  "derive_private_key_from c data starting_block [] i offset res = Ok res"
| "derive_private_key_from c data starting_block (l # ls) i offset res =
     bind_out
       (if starting_block \<le> i then
          bind_out (slice data offset (offset + lic_len l)) (\<lambda>d.
            derive_private_key_block c l d res)
        else Ok res) (\<lambda>res.
       derive_private_key_from c data starting_block ls (i + 1) (offset + lic_len l) res)"

definition derive_private_key ::
  "('p, 's) curve \<Rightarrow> 's licenses \<Rightarrow> nat \<Rightarrow> 's \<Rightarrow> (license_error, 's) outcome" where
  "derive_private_key c ls starting_block first_key =
     derive_private_key_from c (lics_data ls) starting_block (lics_blocks ls) 0 1 first_key"

definition license_is_valid ::
  "('p, 's) curve \<Rightarrow> (u8 \<Rightarrow> bool) \<Rightarrow> 's license \<Rightarrow> bytes \<Rightarrow> (license_error, unit) outcome" where
  "license_is_valid c known l data =
     bind_out (get_public_key c data) (\<lambda>_.
     bind_out (get_not_valid_before data) (\<lambda>_.
     bind_out (get_not_valid_after data) (\<lambda>_.
     bind_out (pass_missing (get_license_type known data)) (\<lambda>_.
     bind_out (pass_missing (get_issuer l data)) (\<lambda>_.
       case get_properties l data of
         Ok ps \<Rightarrow> check_all ps
       | r \<Rightarrow> pass_missing r)))))"

fun licenses_is_valid_from ::
  "('p, 's) curve \<Rightarrow> (u8 \<Rightarrow> bool) \<Rightarrow> bytes \<Rightarrow> 's license list \<Rightarrow> nat \<Rightarrow> (license_error, unit) outcome" where
  "licenses_is_valid_from c known data [] offset = Ok ()"
| "licenses_is_valid_from c known data (b # bs) offset =
     bind_out (slice data offset (offset + lic_len b)) (\<lambda>d.
     bind_out (license_is_valid c known b d) (\<lambda>_.
       licenses_is_valid_from c known data bs (offset + lic_len b)))"

definition licenses_is_valid ::
  "('p, 's) curve \<Rightarrow> (u8 \<Rightarrow> bool) \<Rightarrow> 's licenses \<Rightarrow> (license_error, unit) outcome" where
  "licenses_is_valid c known ls = licenses_is_valid_from c known (lics_data ls) (lics_blocks ls) 1"

end
