(* ===== verification/Resend_Termination.thy ===== *)
theory Resend_Termination
  imports Resender
begin

text \<open>
  The resend loop ends. Each iteration that continues lowers, in this order: the number of queued
  packets that are due, whether the send queue holds an outdated copy of a record, the number of
  entries of the send queue whose packet was acknowledged, and the number of due entries of the send
  queue.
\<close>

section \<open>The measure\<close>

definition due :: "instant \<Rightarrow> send_record_id \<Rightarrow> bool" where
  "due threshold x \<longleftrightarrow> sr_tries x = 0 \<or> sr_last x \<le> threshold"

definition threshold :: "instant \<Rightarrow> resender \<Rightarrow> instant" where
  "threshold now r = now - retransmission_timeout r"

definition all_records :: "resender \<Rightarrow> send_record multiset" where
  "all_records r = mset (concat (map bt_values (full_send_queue r)))"

definition due_records :: "instant \<Rightarrow> resender \<Rightarrow> nat" where
  "due_records now r = size (filter_mset (\<lambda>rec. due (threshold now r) (rec_id rec)) (all_records r))"

definition lookup_record :: "resender \<Rightarrow> send_record_id \<Rightarrow> send_record option" where
  "lookup_record r x =
     (case packet_type_to_index (pid_type (sr_id x)) of
        None \<Rightarrow> None
      | Some qi \<Rightarrow> bt_get (full_send_queue r ! qi) (pid_part (sr_id x)))"

definition outdated :: "resender \<Rightarrow> bool" where
  "outdated r \<longleftrightarrow> (\<exists>x \<in># mset (send_queue r). \<exists>rec. lookup_record r x = Some rec \<and> rec_id rec \<noteq> x)"

definition acked_entries :: "resender \<Rightarrow> nat" where
  "acked_entries r = size (filter_mset (\<lambda>x. lookup_record r x = None) (mset (send_queue r)))"

definition due_entries :: "instant \<Rightarrow> resender \<Rightarrow> nat" where
  "due_entries now r = size (filter_mset (due (threshold now r)) (mset (send_queue r)))"

definition loop_measure :: "instant \<Rightarrow> resender \<Rightarrow> nat \<times> nat \<times> nat \<times> nat" where
  "loop_measure now r =
     (due_records now r, of_bool (outdated r), acked_entries r, due_entries now r)"

definition lex4 :: "((nat \<times> nat \<times> nat \<times> nat) \<times> (nat \<times> nat \<times> nat \<times> nat)) set" where
  "lex4 = less_than <*lex*> less_than <*lex*> less_than <*lex*> less_than"

lemma wf_lex4: "wf lex4"
  by (simp add: lex4_def wf_lex_prod)

lemma in_lex4:
  "((a, b, c, d), (a', b', c', d')) \<in> lex4 \<longleftrightarrow>
     a < a' \<or> a = a' \<and> (b < b' \<or> b = b' \<and> (c < c' \<or> c = c' \<and> d < d'))"
  by (simp add: lex4_def)

section \<open>What filling the send queue adds\<close>

lemma fill_loop_new:
  "length iters = 3 \<Longrightarrow>
   \<forall>i < 3. set (iters ! i) \<subseteq> set (bt_values (full_send_queue r ! i)) \<Longrightarrow>
   \<exists>E. mset (send_queue (fill_loop n iters now r)) = mset (send_queue r) + E \<and>
     (\<forall>x \<in># E. \<exists>i < 3. \<exists>rec \<in> set (bt_values (full_send_queue r ! i)). x = rec_id rec)"
proof (induction n arbitrary: iters r)
  case 0
  then show ?case by (auto split: option.splits)
next
  case (Suc n)
  show ?case
  proof (cases "pick_head 0 iters None")
    case None
    then show ?thesis by auto
  next
    case (Some it)
    obtain i t where it: "it = (i, t)" by (cases it)
    have i: "i < 3" "iters ! i \<noteq> []"
      using pick_head_cases [of 0 iters None i t] Some it Suc.prems(1) by auto
    then obtain rec its where hd: "iters ! i = rec # its" by (cases "iters ! i") auto
    define r' where "r' = r\<lparr>send_queue_indices := (send_queue_indices r)[i := ppid_add (rec_part rec) 1],
                  send_queue := heap_push (rec_id rec) (send_queue r)\<rparr>"
    have step: "fill_loop (Suc n) iters now r = fill_loop n (iters[i := its]) now r'"
      using Some by (simp add: it hd r'_def Let_def)
    have sub: "\<forall>j < 3. set (iters[i := its] ! j) \<subseteq> set (bt_values (full_send_queue r' ! j))"
    proof (intro allI impI)
      fix j :: nat assume j: "j < 3"
      have "set (iters ! j) \<subseteq> set (bt_values (full_send_queue r' ! j))"
        using Suc.prems(2) j by (simp add: r'_def)
      then show "set (iters[i := its] ! j) \<subseteq> set (bt_values (full_send_queue r' ! j))"
        using hd i Suc.prems(1) by (cases "j = i") auto
    qed
    obtain E where "mset (send_queue (fill_loop n (iters[i := its]) now r')) = mset (send_queue r') + E"
      "\<forall>x \<in># E. \<exists>i < 3. \<exists>rec \<in> set (bt_values (full_send_queue r' ! i)). x = rec_id rec"
      using Suc.IH [OF _ sub] Suc.prems(1) by auto
    moreover have "rec \<in> set (bt_values (full_send_queue r ! i))"
      using Suc.prems(2) i hd by (metis list.set_intros(1) subsetD)
    ultimately show ?thesis
      unfolding step using i
      by (intro exI [of _ "add_mset (rec_id rec) E"]) (auto simp: r'_def heap.elems_push)
  qed
qed

lemma fill_up_new:
  assumes "queues_ok r"
  shows "\<exists>E. mset (send_queue (fill_up_send_queue cubic now r)) = mset (send_queue r) + E \<and>
    (\<forall>x \<in># E. \<exists>rec. lookup_record r x = Some rec \<and> rec_id rec = x)"
proof -
  have len: "length (full_send_queue r) = 3" "length (send_queue_indices r) = 3"
    using assms(1) by (simp_all add: queues_ok_def)
  have sub: "\<forall>i < 3. set (queue_iters r ! i) \<subseteq> set (bt_values (full_send_queue r ! i))"
    using len by (auto simp: queue_iters_def dest: set_dropWhileD)
  have "length (queue_iters r) = 3" using len by (simp add: queue_iters_def)
  from fill_loop_new [OF this sub]
  obtain E where E: "mset (send_queue (fill_up_send_queue cubic now r)) = mset (send_queue r) + E"
    and new: "\<forall>x \<in># E. \<exists>i < 3. \<exists>rec \<in> set (bt_values (full_send_queue r ! i)). x = rec_id rec"
    unfolding fill_up_send_queue_def by blast
  have "\<exists>rec. lookup_record r x = Some rec \<and> rec_id rec = x" if "x \<in># E" for x
  proof -
    from new that obtain i rec where i: "i < 3" "x = rec_id rec"
      and "rec \<in> set (bt_values (full_send_queue r ! i))" by blast
    then obtain k where k: "(k, rec) \<in> set (bt_entries (full_send_queue r ! i))"
      by (auto simp: bt_values_set)
    from queues_okD(2) [OF assms(1) i(1) k] i(2)
    have "packet_type_to_index (pid_type (sr_id x)) = Some i" "pid_part (sr_id x) = k" by auto
    moreover have "bt_get (full_send_queue r ! i) k = Some rec"
      using k bt.entries_get [OF queues_okD(1) [OF assms(1) i(1)]] by blast
    ultimately show ?thesis using i(2) by (simp add: lookup_record_def)
  qed
  with E show ?thesis by blast
qed

lemma fill_loop_rest [simp]:
  "full_send_queue (fill_loop n iters now r) = full_send_queue r"
  "rs_config (fill_loop n iters now r) = rs_config r"
  "rs_state (fill_loop n iters now r) = rs_state r"
  by (induction n iters now r rule: fill_loop.induct) (simp_all add: Let_def split: option.split)

lemma fill_up_rest [simp]:
  "full_send_queue (fill_up_send_queue cubic now r) = full_send_queue r"
  "rs_config (fill_up_send_queue cubic now r) = rs_config r"
  "rs_state (fill_up_send_queue cubic now r) = rs_state r"
  "full_send_queue (rebuild_send_queue cubic now r) = full_send_queue r"
  "rs_config (rebuild_send_queue cubic now r) = rs_config r"
  by (simp_all add: fill_up_send_queue_def rebuild_send_queue_def)

lemma same_lookup: "full_send_queue r' = full_send_queue r \<Longrightarrow> lookup_record r' = lookup_record r"
  by (simp add: lookup_record_def fun_eq_iff split: option.split)

lemma lookup_cong: "sr_id x = sr_id y \<Longrightarrow> lookup_record r x = lookup_record r y"
  by (simp add: lookup_record_def split: option.split)

lemma same_threshold: "rs_config r' = rs_config r \<Longrightarrow> threshold now r' = threshold now r"
  by (simp add: threshold_def retransmission_timeout_def)

section \<open>The effect of an update on the records\<close>

lemma mset_concat_nth:
  "i < length xs \<Longrightarrow> \<exists>R. mset (concat xs) = mset (xs ! i) + R \<and> (\<forall>y. mset (concat (xs[i := y])) = mset y + R)"
proof (induction xs arbitrary: i)
  case (Cons x xs)
  show ?case
  proof (cases i)
    case (Suc j)
    with Cons obtain R where "mset (concat xs) = mset (xs ! j) + R"
      "\<forall>y. mset (concat (xs[j := y])) = mset y + R" by fastforce
    with Suc show ?thesis by (intro exI [of _ "mset x + R"]) simp
  qed (auto simp: add.commute)
qed simp

lemma bt_insert_existing:
  "bt_ok m \<Longrightarrow> bt_get m k = Some old \<Longrightarrow>
   \<exists>R. mset (bt_values m) = add_mset old R \<and> (\<forall>v. mset (bt_values (bt_insert k v m)) = add_mset v R)"
proof (induction m)
  case (Cons e m)
  obtain k' v' where e: "e = (k', v')" by (cases e)
  show ?case
  proof (cases "k = k'")
    case True
    with Cons.prems show ?thesis
      by (intro exI [of _ "mset (bt_values m)"]) (auto simp: e bt_values_def bt_get_def)
  next
    case False
    with Cons.prems have "bt_get m k = Some old" "bt_ok m"
      by (simp_all add: e bt_get_def bt_ok_def)
    moreover from this have "k \<in> fst ` set m"
      by (force simp: bt_get_def dest: map_of_SomeD)
    with Cons.prems(1) have "k' < k" by (auto simp: e bt_ok_def)
    ultimately obtain R where "mset (bt_values m) = add_mset old R"
      "\<forall>v. mset (bt_values (bt_insert k v m)) = add_mset v R"
      using Cons.IH by blast
    with False \<open>k' < k\<close> show ?thesis
      by (intro exI [of _ "add_mset v' R"]) (auto simp: e bt_values_def)
  qed
qed (simp add: bt_get_def)

lemma all_records_update:
  assumes "queues_ok r" "i < 3" "bt_get (full_send_queue r ! i) k = Some old"
    and "full_send_queue r' = (full_send_queue r)[i := bt_insert k new (full_send_queue r ! i)]"
  shows "\<exists>R. all_records r = add_mset old R \<and> all_records r' = add_mset new R"
proof -
  have "length (full_send_queue r) = 3" using assms(1) by (simp add: queues_ok_def)
  with assms(2) obtain R where R: "mset (concat (map bt_values (full_send_queue r))) =
      mset (bt_values (full_send_queue r ! i)) + R"
    "\<And>y. mset (concat ((map bt_values (full_send_queue r))[i := y])) = mset y + R"
    using mset_concat_nth [of i "map bt_values (full_send_queue r)"] by auto
  obtain R' where R': "mset (bt_values (full_send_queue r ! i)) = add_mset old R'"
    "mset (bt_values (bt_insert k new (full_send_queue r ! i))) = add_mset new R'"
    using bt_insert_existing [OF queues_okD(1) [OF assms(1,2)] assms(3)] by blast
  show ?thesis
    using R R' by (intro exI [of _ "R' + R"]) (simp add: all_records_def assms(4) map_update)
qed

lemma lookup_update:
  assumes "queues_ok r" "packet_type_to_index (pid_type (sr_id x)) = Some i"
    and "full_send_queue r' =
      (full_send_queue r)[i := bt_insert (pid_part (sr_id x)) new (full_send_queue r ! i)]"
  shows "lookup_record r' y = (if sr_id y = sr_id x then Some new else lookup_record r y)"
proof (cases "packet_type_to_index (pid_type (sr_id y))")
  case None
  with assms(2) show ?thesis by (auto simp: lookup_record_def)
next
  case (Some j)
  have i: "i < 3" by (rule packet_type_index_less [OF assms(2)])
  have len: "length (full_send_queue r) = 3" using assms(1) by (simp add: queues_ok_def)
  show ?thesis
  proof (cases "j = i")
    case True
    with packet_type_index_inj [OF Some] assms(2) have "pid_type (sr_id y) = pid_type (sr_id x)" by simp
    then have "sr_id y = sr_id x \<longleftrightarrow> pid_part (sr_id y) = pid_part (sr_id x)"
      by (auto intro: packet_ident.expand)
    then show ?thesis
      using True Some i len bt.get_insert [OF queues_okD(1) [OF assms(1) i]]
      by (simp add: lookup_record_def assms(3))
  next
    case False
    with Some assms(2) have "sr_id y \<noteq> sr_id x" by auto
    with False Some len show ?thesis by (simp add: lookup_record_def assms(3))
  qed
qed

section \<open>The three kinds of iterations that continue\<close>

lemma measure_pop:
  assumes ok: "resender_ok r" and top: "heap_peek (send_queue r) = Some x" "lookup_record r x = None"
    and r'_def: "r' = fill_up_send_queue cubic now (r\<lparr>send_queue := heap_pop (send_queue r)\<rparr>)"
  shows "(loop_measure now' r', loop_measure now' r) \<in> lex4"
proof -
  let ?r = "r\<lparr>send_queue := heap_pop (send_queue r)\<rparr>"
  have q: "queues_ok ?r" using ok by (simp add: resender_ok_def queues_ok_def)
  have same: "full_send_queue r' = full_send_queue r" "rs_config r' = rs_config r"
    by (simp_all add: r'_def)
  note lk = same_lookup [OF same(1)] and th = same_threshold [OF same(2)]
  have lk1: "lookup_record ?r = lookup_record r" by (rule same_lookup) simp
  obtain E where E: "mset (send_queue r') = mset (heap_pop (send_queue r)) + E"
    and new: "\<forall>x \<in># E. \<exists>rec. lookup_record r x = Some rec \<and> rec_id rec = x"
    using fill_up_new [OF q, of cubic now] unfolding r'_def [symmetric] lk1 by (simp, blast)
  have pop: "mset (send_queue r) = add_mset x (mset (heap_pop (send_queue r)))"
    using heap.elems_pop [OF top(1)] heap.peek_in [OF top(1)] by simp
  have "due_records now' r' = due_records now' r"
    by (simp add: due_records_def all_records_def same th)
  moreover have "outdated r' \<Longrightarrow> outdated r"
  proof -
    assume "outdated r'"
    then obtain y rec where y: "y \<in># mset (send_queue r')" "lookup_record r y = Some rec" "rec_id rec \<noteq> y"
      unfolding outdated_def lk by blast
    with new E have "y \<in># mset (heap_pop (send_queue r))"
      by fastforce
    then have "y \<in># mset (send_queue r)" by (simp only: pop) simp
    with y(2,3) show "outdated r" unfolding outdated_def by blast
  qed
  moreover have "filter_mset (\<lambda>x. lookup_record r x = None) E = {#}"
    using new by auto
  then have "acked_entries r' < acked_entries r"
    using top(2) by (simp add: acked_entries_def lk E pop)
  ultimately show ?thesis
    by (auto simp: loop_measure_def in_lex4 of_bool_def)
qed

lemma measure_first_send:
  assumes ok: "resender_ok r" and top: "heap_peek (send_queue r) = Some rec"
    and qi: "packet_type_to_index (pid_type (sr_id rec)) = Some qi"
    and full: "bt_get (full_send_queue r ! qi) (pid_part (sr_id rec)) = Some full_rec"
    and d: "due (threshold now r) rec" and now: "now = env_now env" "threshold now r < now"
    and r': "full_send_queue r' = full_send_queue (record_sent env rec qi full_rec r)"
      "send_queue r' = send_queue (record_sent env rec qi full_rec r)" "rs_config r' = rs_config r"
  shows "(loop_measure now r', loop_measure now r) \<in> lex4"
proof -
  let ?new = "full_rec\<lparr>rec_id := sent_record env rec\<rparr>"
  have q: "queues_ok r" using ok by (simp add: resender_ok_def)
  have upd: "full_send_queue r' = (full_send_queue r)[qi :=
      bt_insert (pid_part (sr_id rec)) ?new (full_send_queue r ! qi)]"
    by (simp add: r'(1) record_sent_def)
  note th = same_threshold [OF r'(3)] and lk = lookup_update [OF q qi upd]
  have undue: "\<not> due (threshold now r) (sent_record env rec)"
    using now by (simp add: due_def sent_record_def)
  obtain R where R: "all_records r = add_mset full_rec R" "all_records r' = add_mset ?new R"
    using all_records_update [OF q packet_type_index_less [OF qi] full upd] by blast
  have D: "due_records now r' =
      (if due (threshold now r) (rec_id full_rec) then due_records now r - 1 else due_records now r)"
    "due (threshold now r) (rec_id full_rec) \<Longrightarrow> 0 < due_records now r"
    using undue by (simp_all add: due_records_def R th)
  have lkrec: "lookup_record r rec = Some full_rec"
    using qi full by (simp add: lookup_record_def)
  have pop: "mset (send_queue r) = add_mset rec (mset (send_queue r) - {#rec#})"
    using heap.peek_in [OF top] by simp
  have new: "mset (send_queue r') = add_mset (sent_record env rec) (mset (send_queue r) - {#rec#})"
    using heap.elems_replace [OF top] by (simp add: r'(2) record_sent_def)
  have "acked_entries r' = acked_entries r"
  proof -
    have "(lookup_record r' x = None) = (lookup_record r x = None)" for x
      using lookup_cong [of x rec r] by (simp add: lk lkrec)
    then have "filter_mset (\<lambda>x. lookup_record r' x = None) (mset (send_queue r')) =
        filter_mset (\<lambda>x. lookup_record r x = None) (mset (send_queue r'))" by simp
    moreover have "lookup_record r (sent_record env rec) = Some full_rec"
      using lkrec lookup_cong [of "sent_record env rec" rec r] by (simp add: sent_record_def)
    ultimately show ?thesis
      unfolding acked_entries_def new by (subst (2) pop) (simp add: lkrec)
  qed
  moreover have "due_entries now r' < due_entries now r"
    unfolding due_entries_def th new by (subst (2) pop) (use undue d in simp)
  moreover have "outdated r" if "\<not> due (threshold now r) (rec_id full_rec)"
    using that d lkrec heap.peek_in [OF top] by (auto simp: outdated_def)
  ultimately show ?thesis
    using D by (auto simp: loop_measure_def in_lex4 of_bool_def)
qed

lemma on_loss_timeout:
  assumes "from_secs 1 \<le> timeout"
  shows "retransmission_timeout r \<le> retransmission_timeout (on_loss env timeout r)"
  using assms by (auto simp: retransmission_timeout_def on_loss_def Let_def)

lemma due_mono: "due t x \<Longrightarrow> t \<le> t' \<Longrightarrow> due t' x"
  by (auto simp: due_def)

lemma measure_resend:
  assumes ok: "resender_ok r" and top: "heap_peek (send_queue r) = Some rec"
    and qi: "packet_type_to_index (pid_type (sr_id rec)) = Some qi"
    and full: "bt_get (full_send_queue r ! qi) (pid_part (sr_id rec)) = Some full_rec"
    and d: "due (threshold now r) rec" and now: "now = env_now env" "threshold now r < now"
    and r1: "full_send_queue r1 = full_send_queue (record_sent env rec qi full_rec r)"
      "threshold now r1 \<le> threshold now r" "queues_ok r1"
    and r': "r' = rebuild_send_queue cubic now' r1"
  shows "(loop_measure now r', loop_measure now r) \<in> lex4"
proof -
  let ?new = "full_rec\<lparr>rec_id := sent_record env rec\<rparr>"
  let ?e = "r1\<lparr>send_queue := [], send_queue_indices := replicate 3 ppid_default\<rparr>"
  have q: "queues_ok r" using ok by (simp add: resender_ok_def)
  have same: "full_send_queue r' = full_send_queue r1" "rs_config r' = rs_config r1"
    by (simp_all add: r')
  have upd: "full_send_queue r' = (full_send_queue r)[qi :=
      bt_insert (pid_part (sr_id rec)) ?new (full_send_queue r ! qi)]"
    by (simp add: same r1(1) record_sent_def)
  have th: "threshold now r' \<le> threshold now r" using r1(2) same_threshold [OF same(2)] by simp
  have undue: "\<not> due (threshold now r') (sent_record env rec)"
    using now th by (simp add: due_def sent_record_def)
  obtain R where R: "all_records r = add_mset full_rec R" "all_records r' = add_mset ?new R"
    using all_records_update [OF q packet_type_index_less [OF qi] full upd] by blast
  have less: "size {#x \<in># R. due (threshold now r') (rec_id x)#} \<le>
      size {#x \<in># R. due (threshold now r) (rec_id x)#}"
    using due_mono [OF _ th] by (intro size_mset_mono filter_mset_mono_strong) auto
  have D: "due_records now r' \<le> due_records now r"
    "due (threshold now r) (rec_id full_rec) \<Longrightarrow> due_records now r' < due_records now r"
    using less undue by (simp_all add: due_records_def R)
  have "queues_ok ?e" using r1(3) by (simp add: queues_ok_def)
  from fill_up_new [OF this, of cubic now']
  have "\<forall>x \<in># mset (send_queue r'). \<exists>rec. lookup_record r' x = Some rec \<and> rec_id rec = x"
    using same_lookup [of r' ?e] by (auto simp: r' rebuild_send_queue_def)
  then have "\<not> outdated r'" by (fastforce simp: outdated_def)
  moreover have "lookup_record r rec = Some full_rec" using qi full by (simp add: lookup_record_def)
  then have "outdated r" if "\<not> due (threshold now r) (rec_id full_rec)"
    using that d heap.peek_in [OF top] by (auto simp: outdated_def)
  ultimately show ?thesis
    using D by (fastforce simp: loop_measure_def in_lex4 of_bool_def)
qed

section \<open>The loop returns\<close>

lemma count_send_config [simp]:
  "rs_config (count_send env rec qi full_rec t r) = rs_config r"
  by (simp add: count_send_def Let_def)

lemma after_send_measure:
  assumes ok: "resender_ok r" and top: "heap_peek (send_queue r) = Some rec"
    and qi: "packet_type_to_index (pid_type (sr_id rec)) = Some qi"
    and full: "bt_get (full_send_queue r ! qi) (pid_part (sr_id rec)) = Some full_rec"
    and d: "due (threshold (env_now env) r) rec" and th: "threshold (env_now env) r < env_now env"
    and timeout: "from_secs 1 \<le> timeout"
    and r': "r' = after_send env timeout rec qi full_rec t r"
  shows "(loop_measure (env_now env) r', loop_measure (env_now env) r) \<in> lex4"
    and "retransmission_timeout r \<le> retransmission_timeout r'"
proof -
  let ?c = "count_send env rec qi full_rec t r"
  have rto: "retransmission_timeout ?c = retransmission_timeout r"
    by (simp add: retransmission_timeout_def)
  have rto': "retransmission_timeout (on_loss env timeout ?c) \<ge> retransmission_timeout r"
    using on_loss_timeout [OF timeout] rto by metis
  have cok: "resender_ok ?c"
    using resender_okI(1) [of ?c "record_sent env rec qi full_rec r"] record_sent_ok [OF ok top qi] by simp
  have "(loop_measure (env_now env) r', loop_measure (env_now env) r) \<in> lex4 \<and>
    retransmission_timeout r \<le> retransmission_timeout r'"
  proof (cases "sr_tries rec + 1 = 1")
    case True
    then have "r' = ?c" by (simp add: r' after_send_def Let_def)
    moreover have "(loop_measure (env_now env) ?c, loop_measure (env_now env) r) \<in> lex4"
      by (rule measure_first_send [OF ok top qi full d refl th]) simp_all
    ultimately show ?thesis using rto by simp
  next
    case False
    then have eq: "r' = rebuild_send_queue (env_cubic env) (env_now env) (on_loss env timeout ?c)"
      by (simp add: r' after_send_def Let_def)
    have "queues_ok (on_loss env timeout ?c)"
      using resender_okI(2) [of "on_loss env timeout ?c" ?c] cok by (simp add: resender_ok_def)
    moreover have "threshold (env_now env) (on_loss env timeout ?c) \<le> threshold (env_now env) r"
      using rto' by (simp add: threshold_def)
    ultimately have "(loop_measure (env_now env) r', loop_measure (env_now env) r) \<in> lex4"
      by (intro measure_resend [OF ok top qi full d refl th _ _ _ eq]) simp_all
    moreover have "retransmission_timeout r' = retransmission_timeout (on_loss env timeout ?c)"
      by (simp add: eq retransmission_timeout_def)
    ultimately show ?thesis using rto' by simp
  qed
  then show "(loop_measure (env_now env) r', loop_measure (env_now env) r) \<in> lex4"
    and "retransmission_timeout r \<le> retransmission_timeout r'" by blast+
qed

lemma step_measure:
  assumes ok: "resender_ok (con_resender con)" "0 < retransmission_timeout (con_resender con)"
    and env: "0 < env_now env" "from_secs 1 \<le> timeout"
    and step: "poll_resend_step env timeout con = (Ok True, con')"
  shows "(loop_measure (env_now env) (con_resender con'), loop_measure (env_now env) (con_resender con)) \<in> lex4"
    and "0 < retransmission_timeout (con_resender con')"
proof -
  let ?r = "con_resender con"
  have th: "threshold (env_now env) ?r < env_now env"
    using ok(2) env(1) by (simp add: threshold_def)
  obtain rec qi where top: "heap_peek (send_queue ?r) = Some rec"
    and qi: "packet_type_to_index (pid_type (sr_id rec)) = Some qi"
    using step by (auto simp: poll_resend_step_def Let_def split: option.splits)
  note step' = step [unfolded poll_resend_step_def Let_def top option.case qi, simplified]
  have "(loop_measure (env_now env) (con_resender con'), loop_measure (env_now env) ?r) \<in> lex4 \<and>
    0 < retransmission_timeout (con_resender con')"
  proof (cases "bt_get (full_send_queue ?r ! qi) (pid_part (sr_id rec))")
    case None
    then have eq: "con_resender con' =
        fill_up_send_queue (env_cubic env) (env_now env) (?r\<lparr>send_queue := heap_pop (send_queue ?r)\<rparr>)"
      using step' by auto
    have "lookup_record ?r rec = None" using qi None by (simp add: lookup_record_def)
    from measure_pop [OF ok(1) top this eq] ok(2) show ?thesis
      by (simp add: eq retransmission_timeout_def)
  next
    case (Some full_rec)
    obtain sent con1 where s: "static_poll_send_udp_packet env (rec_packet full_rec) con = (sent, con1)"
      by (cases "static_poll_send_udp_packet env (rec_packet full_rec) con")
    have r1: "con_resender con1 = ?r" by (rule static_poll_resender [OF s])
    obtain t where eq: "con_resender con' = after_send env timeout rec qi full_rec t ?r"
      and d: "due (threshold (env_now env) ?r) rec"
      using step' Some s r1
      by (cases sent; cases "the sent"; cases "udp_packet_type (rec_packet full_rec)")
        (auto simp: due_def threshold_def not_less split: if_splits)
    from after_send_measure [OF ok(1) top qi Some d th env(2) eq] ok(2) show ?thesis by simp
  qed
  then show "(loop_measure (env_now env) (con_resender con'), loop_measure (env_now env) ?r) \<in> lex4"
    and "0 < retransmission_timeout (con_resender con')" by blast+
qed

lemma poll_resend_loop_returns:
  assumes "resender_ok (con_resender con)" "0 < retransmission_timeout (con_resender con)"
    "0 < env_now env" "from_secs 1 \<le> timeout"
  shows "\<exists>n res con'. resender_ok (con_resender con') \<and>
    (\<forall>fuel \<ge> n. poll_resend_loop fuel env timeout con = Some (res, con'))"
  using wf_lex4 assms(1,2)
proof (induction "loop_measure (env_now env) (con_resender con)" arbitrary: con rule: wf_induct_rule)
  case less
  obtain res con1 where step: "poll_resend_step env timeout con = (res, con1)"
    by (cases "poll_resend_step env timeout con")
  note ok = poll_resend_step_ok [OF less.prems(1) step]
  have one: "fuel \<ge> 1 \<Longrightarrow> \<exists>m. fuel = Suc m" for fuel :: nat by (cases fuel) auto
  show ?case
  proof (cases "res = Ok True")
    case True
    from step_measure [OF less.prems assms(3,4) step [unfolded True]] less.hyps ok
    obtain n res' con' where IH: "resender_ok (con_resender con')"
      "\<forall>fuel \<ge> n. poll_resend_loop fuel env timeout con1 = Some (res', con')"
      by metis
    have "poll_resend_loop fuel env timeout con = Some (res', con')" if "fuel \<ge> Suc n" for fuel
      using that IH(2) step True by (cases fuel) simp_all
    with IH(1) show ?thesis by blast
  next
    case False
    have "\<exists>res'. poll_resend_loop (Suc m) env timeout con = Some (res', con1)" for m
      using step False by (cases res) (auto split: bool.splits)
    moreover have "poll_resend_loop (Suc m) env timeout con = poll_resend_loop (Suc 0) env timeout con" for m
      using step False by (cases res) (auto split: bool.splits)
    ultimately obtain res' where "\<forall>m. poll_resend_loop (Suc m) env timeout con = Some (res', con1)"
      by metis
    with one have "\<forall>fuel \<ge> 1. poll_resend_loop fuel env timeout con = Some (res', con1)" by blast
    with ok show ?thesis by blast
  qed
qed

text \<open>
  C3: The resend loop (\<open>Resender::poll_resend\<close>) always returns: when the invariant of the resender
  holds, the retransmission timeout and the clock are positive and the connection timeout is at least
  a second (the defaults are 5 and 30 seconds), some number of iterations suffices for every larger
  amount of fuel, with the same result, and the invariant holds afterwards.
\<close>

theorem poll_resend_returns:
  assumes "resender_ok (con_resender con)" "0 < retransmission_timeout (con_resender con)"
    and "0 < env_now env" "from_secs 1 \<le> get_timeout (con_resender con)"
  shows "\<exists>n res con'. resender_ok (con_resender con') \<and>
    (\<forall>fuel \<ge> n. poll_resend fuel env con = Some (res, con'))"
  using poll_resend_loop_returns [OF assms] by (simp add: poll_resend_def)

text \<open>A client that has just queued its first init packet.\<close>

definition first_packet_queued :: connection where
  "first_packet_queued = snd (resend_send_packet (plain_env (from_secs 5))
     \<lparr>udp_generation_id = 0, udp_data = out_c2s_init0 1 2 [1, 2, 3, 4]\<rparr> (connection_new True 1 0))"

lemma on_resender_snd:
  "con_resender (snd (on_resender f con)) =
     (case f (con_resender con) of Ok r \<Rightarrow> r | _ \<Rightarrow> con_resender con)"
  by (simp add: on_resender_def split: outcome.split)

lemma resend_add_rest:
  "resend_add cubic now p r = Ok r' \<Longrightarrow> rs_config r' = rs_config r \<and> rs_state r' = rs_state r"
  by (auto simp: resend_add_def bind_out_eq_Ok_iff Let_def)

lemma first_packet_resender:
  "resender_ok (con_resender first_packet_queued)"
  "rs_config (con_resender first_packet_queued) = resend_config_default"
  "rs_state (con_resender first_packet_queued) = Connecting"
proof -
  have new: "con_resender (connection_new True 1 0) = resender_default 0"
    by (simp add: connection_new_def Let_def)
  have config: "rs_config (resender_default 0) = resend_config_default" "rs_state (resender_default 0) = Connecting"
    by (simp_all add: resender_default_def)
  show "resender_ok (con_resender first_packet_queued)"
    "rs_config (con_resender first_packet_queued) = resend_config_default"
    "rs_state (con_resender first_packet_queued) = Connecting"
    unfolding first_packet_queued_def resend_send_packet_def on_resender_snd new
    using resender_ok_add [OF resender_ok_default [of 0]] resend_add_rest [of _ _ _ "resender_default 0"]
    by (simp_all add: resender_ok_default config split: outcome.split)
qed

theorem poll_resend_returns_witness:
  "\<exists>n res con'. resender_ok (con_resender con') \<and>
    (\<forall>fuel \<ge> n. poll_resend fuel (plain_env (from_secs 5)) first_packet_queued = Some (res, con'))"
  by (rule poll_resend_returns)
    (simp_all add: first_packet_resender retransmission_timeout_def get_timeout_def
      resend_config_default_def plain_env_def from_secs_def from_millis_def)

end
