(* ===== verification/Connection.thy ===== *)
theory Connection
  imports Packet_Codec Resend_Termination
begin

text \<open>
  The operations of a connection (\<open>tsproto/src/connection.rs\<close>) and the periodic work of the resender
  that sends packets (\<open>Resender::poll_ping\<close>). A timer is ready when its deadline is not later than
  the clock. What the socket receives is a list of events; the list is empty when nothing is there
  to read.
\<close>

section \<open>Sending packets\<close>

definition send_udp_packet :: "env \<Rightarrow> out_udp_packet \<Rightarrow> connection \<Rightarrow> unit con_result" where
  "send_udp_packet env packet con =
     bind_con (unwrap (udp_packet_type packet), con) (\<lambda>p_type con.
       if p_type = Init \<or> is_command p_type then resend_send_packet env packet con
       else (Ok (), con\<lparr>acks_to_send := acks_to_send con @ [packet]\<rparr>))"

fun send_udp_packets :: "env \<Rightarrow> out_udp_packet list \<Rightarrow> connection \<Rightarrow> unit con_result" where
  "send_udp_packets env [] con = (Ok (), con)"
| "send_udp_packets env (p # ps) con =
     bind_con (send_udp_packet env p con) (\<lambda>_ con. send_udp_packets env ps con)"

definition send_packet :: "env \<Rightarrow> out_packet \<Rightarrow> connection \<Rightarrow> packet_ident con_result" where
  "send_packet env packet con =
     bind_con (encode_packet env packet (send_event (SendPacket packet) con)) (\<lambda>udp_packets con.
       if udp_packets = [] then (Panic, con)
       else bind_con (udp_ident (last udp_packets), con) (\<lambda>ident con.
         bind_con (send_udp_packets env udp_packets con) (\<lambda>_ con. (Ok ident, con))))"

definition is_send_queue_full :: "env \<Rightarrow> connection \<Rightarrow> bool" where
  "is_send_queue_full env con = is_full (env_cubic env) (env_now env) (con_resender con)"

definition is_send_queue_empty :: "connection \<Rightarrow> bool" where
  "is_send_queue_empty con = is_empty (con_resender con)"

lemma static_poll_acks:
  "static_poll_send_udp_packet env packet con = (res, con') \<Longrightarrow> acks_to_send con' = acks_to_send con"
  by (auto simp: static_poll_send_udp_packet_def Let_def send_event_def split: send_poll.splits)

lemma on_resender_acks [simp]: "acks_to_send (snd (on_resender f con)) = acks_to_send con"
  by (simp add: on_resender_def split: outcome.split)

text \<open>The queued acknowledgements are handed to the socket until it is not ready.\<close>

function poll_send_acks :: "env \<Rightarrow> connection \<Rightarrow> unit con_result" where
  "poll_send_acks env con =
     (case acks_to_send con of
        [] \<Rightarrow> (Ok (), con)
      | packet # _ \<Rightarrow>
          (case static_poll_send_udp_packet env packet con of
             (None, con) \<Rightarrow> (Ok (), con)
           | (Some (Err e), con) \<Rightarrow> (Err e, con)
           | (Some Panic, con) \<Rightarrow> (Panic, con)
           | (Some (Ok _), con) \<Rightarrow>
               (case on_resender (handle_loss_outgoing packet) con of
                  (Ok _, con) \<Rightarrow> poll_send_acks env (con\<lparr>acks_to_send := tl (acks_to_send con)\<rparr>)
                | (Err e, con) \<Rightarrow> (Err e, con)
                | (Panic, con) \<Rightarrow> (Panic, con))))"
  by auto
termination
proof (relation "measure (\<lambda>(env, con). length (acks_to_send con))", goal_cases)
  case (2 env con packet ps sent con1 s u res con2 v)
  then have "acks_to_send con1 = acks_to_send con" by (metis static_poll_acks)
  moreover have "acks_to_send con2 = acks_to_send con1"
    using 2 on_resender_acks [of "handle_loss_outgoing packet" con1] by (metis snd_conv)
  ultimately show ?case using 2(1) by simp
qed simp

declare poll_send_acks.simps [simp del]

section \<open>Timeouts, statistics and pings\<close>

definition set_timers :: "(timers \<Rightarrow> timers) \<Rightarrow> connection \<Rightarrow> connection" where
  "set_timers f con = con\<lparr>con_resender :=
     (con_resender con)\<lparr>rs_timers := f (rs_timers (con_resender con))\<rparr>\<rparr>"

text \<open>A disconnecting connection gives up when the disconnect was not acknowledged in time.\<close>

definition poll_state :: "env \<Rightarrow> connection \<Rightarrow> unit con_result" where
  "poll_state env con =
     (let now = env_now env; r = con_resender con; timeout = get_timeout r
      in if rs_state r = Disconnecting then
           if now - last_send r \<ge> timeout then (Err (Timeout ''No disconnect ack received''), con)
           else
             let deadline = last_send r + timeout;
                 con = set_timers (\<lambda>t. t\<lparr>tm_state_timeout := deadline\<rparr>) con
             in if deadline \<le> now then (Err (Timeout ''No disconnect ack received''), con)
                else (Ok (), con)
         else (Ok (), con))"

definition reset_stats :: "instant \<Rightarrow> resender \<Rightarrow> resender" where
  "reset_stats now r =
     (let r = r\<lparr>last_stat := now\<rparr>;
          s = rs_stats r;
          second_index = next_second_index s;
          s = s\<lparr>last_second_bytes :=
                 (last_second_bytes s)[unat second_index := cnt_bytes (rs_counter r)]\<rparr>;
          s = s\<lparr>next_second_index := (second_index + 1) mod of_nat (length (last_second_bytes s))\<rparr>;
          s = s\<lparr>stat_loss := cnt_loss (rs_counter r)\<rparr>
      in r\<lparr>rs_stats := s, rs_counter := stats_counter_default\<rparr>)"

function poll_stats :: "env \<Rightarrow> connection \<Rightarrow> connection" where
  "poll_stats env con =
     (let next_reset = last_stat (con_resender con) + from_secs STAT_SECONDS;
          con = set_timers (\<lambda>t. t\<lparr>tm_stats_timeout := next_reset\<rparr>) con
      in if next_reset \<le> env_now env then
           poll_stats env (push_item ItemNetworkStatsUpdated
             (con\<lparr>con_resender := reset_stats (env_now env) (con_resender con)\<rparr>))
         else con)"
  by auto
termination
  by (relation "measure (\<lambda>(env, con).
        if last_stat (con_resender con) + from_secs STAT_SECONDS \<le> env_now env then 1 else 0)")
    (auto simp: reset_stats_def Let_def push_item_def from_secs_def STAT_SECONDS_def)

declare poll_stats.simps [simp del]

text \<open>When the next ping is due; the pings from before the last received packet are forgotten.\<close>

definition next_ping :: "resender \<Rightarrow> instant \<times> ping list" where
  "next_ping r =
     (if last_pings r \<noteq> [] \<and> ping_sent (last (last_pings r)) > last_receive r
      then (ping_sent (last (last_pings r)) + from_secs PING_SECONDS, last_pings r)
      else (last_receive r + from_secs PING_SECONDS, []))"

definition pings_unanswered :: "ping list \<Rightarrow> bool" where
  "pings_unanswered ps \<longleftrightarrow> length ps \<ge> PING_COUNT \<and>
     (ppid_diff (ping_id (last ps)) (ping_id (hd ps))) mod 2 ^ 64 = int (length ps) - 1"

definition add_ping :: "ping \<Rightarrow> ping list \<Rightarrow> ping list" where
  "add_ping p ps = (let ps = ps @ [p] in if length ps > PING_COUNT then tl ps else ps)"

definition ping_packet :: "connection \<Rightarrow> out_packet" where
  "ping_packet con = out_new_with_dir (if is_client con then C2S else S2C) 0 Ping"

text \<open>One iteration of the loop that sends pings; the result says whether the loop continues.\<close>

definition ping_step :: "env \<Rightarrow> connection \<Rightarrow> bool con_result" where
  "ping_step env con =
     (let now = env_now env;
          (next_ping, pings) = next_ping (con_resender con);
          con = con\<lparr>con_resender := (con_resender con)\<lparr>last_pings := pings\<rparr>\<rparr>;
          con = set_timers (\<lambda>t. t\<lparr>tm_ping_timeout := next_ping\<rparr>) con
      in if next_ping \<le> now then
           if pings_unanswered pings then (Err (Timeout ''Server did not respond to pings''), con)
           else
             bind_con (send_packet env (ping_packet con) con) (\<lambda>p_id con.
               (Ok True, con\<lparr>con_resender := (con_resender con)\<lparr>last_pings :=
                  add_ping \<lparr>ping_id = pid_part p_id, ping_sent = now\<rparr>
                    (last_pings (con_resender con))\<rparr>\<rparr>))
         else (Ok False, con))"

text \<open>What sending a packet leaves alone.\<close>

lemma encode_one_resender:
  "encode_one env t should fake packet con = (res, con') \<Longrightarrow>
   con_resender con' = con_resender con"
  by (auto simp: encode_one_def Let_def bind_con_cases split: if_splits option.splits outcome.splits)

lemma encode_all_resender:
  "encode_all env t should fake ps con = (res, con') \<Longrightarrow> con_resender con' = con_resender con"
proof (induction ps arbitrary: con res con')
  case (Cons p ps)
  obtain r1 con1 where 1: "encode_one env t should fake p con = (r1, con1)"
    by (cases "encode_one env t should fake p con")
  obtain r2 con2 where 2: "encode_all env t should fake ps con1 = (r2, con2)"
    by (cases "encode_all env t should fake ps con1")
  from Cons.prems encode_one_resender [OF 1] Cons.IH [OF 2] show ?case
    by (cases r1; cases r2) (auto simp: 1 2)
qed simp

lemma encode_packet_resender:
  "encode_packet env packet con = (res, con') \<Longrightarrow> con_resender con' = con_resender con"
  unfolding encode_packet_def
  by (auto simp: Let_def bind_con_cases encode_all_resender split: outcome.splits prod.splits if_splits)

lemma fill_loop_pings [simp]:
  "last_pings (fill_loop n iters now r) = last_pings r"
  "last_receive (fill_loop n iters now r) = last_receive r"
  by (induction n iters now r rule: fill_loop.induct) (simp_all add: Let_def split: option.split)

lemma resend_add_pings:
  assumes "resend_add cubic now packet r = Ok r'"
  shows "last_pings r' = last_pings r" "last_receive r' = last_receive r"
  using assms by (auto simp: resend_add_def bind_out_eq_Ok_iff Let_def fill_up_send_queue_def)

lemma send_udp_packet_pings:
  assumes "send_udp_packet env packet con = (res, con')"
  shows "last_pings (con_resender con') = last_pings (con_resender con)"
    "last_receive (con_resender con') = last_receive (con_resender con)"
  using assms
  by (auto simp: send_udp_packet_def resend_send_packet_def on_resender_def bind_con_cases
      dest: resend_add_pings split: outcome.splits if_splits)

lemma send_udp_packets_pings:
  "send_udp_packets env ps con = (res, con') \<Longrightarrow>
   last_pings (con_resender con') = last_pings (con_resender con) \<and>
   last_receive (con_resender con') = last_receive (con_resender con)"
proof (induction ps arbitrary: con res con')
  case (Cons p ps)
  obtain r1 con1 where 1: "send_udp_packet env p con = (r1, con1)"
    by (cases "send_udp_packet env p con")
  obtain r2 con2 where 2: "send_udp_packets env ps con1 = (r2, con2)"
    by (cases "send_udp_packets env ps con1")
  from Cons.prems send_udp_packet_pings [OF 1] Cons.IH [OF 2] show ?case
    by (cases r1; cases r2) (auto simp: 1 2)
qed simp

lemma send_packet_pings:
  assumes "send_packet env packet con = (res, con')"
  shows "last_pings (con_resender con') = last_pings (con_resender con)"
    "last_receive (con_resender con') = last_receive (con_resender con)"
proof -
  obtain r1 con1 where 1: "encode_packet env packet (send_event (SendPacket packet) con) = (r1, con1)"
    by (cases "encode_packet env packet (send_event (SendPacket packet) con)")
  have c1: "con_resender con1 = con_resender con"
    using encode_packet_resender [OF 1] by (simp add: send_event_def)
  have "last_pings (con_resender con') = last_pings (con_resender con1) \<and>
    last_receive (con_resender con') = last_receive (con_resender con1)"
    using assms
    by (auto simp: send_packet_def 1 bind_con_eq_iff dest!: send_udp_packets_pings
        split: if_splits)
  with c1 show "last_pings (con_resender con') = last_pings (con_resender con)"
    "last_receive (con_resender con') = last_receive (con_resender con)" by simp_all
qed

lemma last_add_ping: "last (add_ping p ps) = p" "add_ping p ps \<noteq> []"
  by (cases ps; simp add: add_ping_def Let_def PING_COUNT_def)+

lemma ping_step_next:
  assumes "ping_step env con = (Ok True, con')"
  shows "fst (next_ping (con_resender con)) \<le> env_now env"
    and "fst (next_ping (con_resender con')) = env_now env + from_secs PING_SECONDS"
proof -
  obtain d ps where np: "next_ping (con_resender con) = (d, ps)" by (cases "next_ping (con_resender con)")
  define con1 where "con1 = set_timers (\<lambda>t. t\<lparr>tm_ping_timeout := d\<rparr>)
    (con\<lparr>con_resender := (con_resender con)\<lparr>last_pings := ps\<rparr>\<rparr>)"
  obtain r2 con2 where 2: "send_packet env (ping_packet con1) con1 = (r2, con2)"
    by (cases "send_packet env (ping_packet con1) con1")
  from assms np have d: "d \<le> env_now env"
    by (auto simp: ping_step_def Let_def split: if_splits)
  then show "fst (next_ping (con_resender con)) \<le> env_now env" by (simp add: np)
  obtain p_id where r2: "r2 = Ok p_id" and con': "con' = con2\<lparr>con_resender := (con_resender con2)\<lparr>last_pings :=
      add_ping \<lparr>ping_id = pid_part p_id, ping_sent = env_now env\<rparr> (last_pings (con_resender con2))\<rparr>\<rparr>"
    using assms d 2 by (auto simp: ping_step_def np con1_def [symmetric] Let_def bind_con_cases
        split: outcome.splits if_splits)
  have "last_receive (con_resender con2) = last_receive (con_resender con)"
    using send_packet_pings(2) [OF 2] by (simp add: con1_def set_timers_def)
  moreover have "last_receive (con_resender con) < env_now env"
    using np d by (auto simp: next_ping_def from_secs_def PING_SECONDS_def split: if_splits)
  ultimately show "fst (next_ping (con_resender con')) = env_now env + from_secs PING_SECONDS"
    by (simp add: con' next_ping_def last_add_ping)
qed

function poll_pings :: "env \<Rightarrow> connection \<Rightarrow> unit con_result" where
  "poll_pings env con =
     (case ping_step env con of
        (Ok True, con) \<Rightarrow> poll_pings env con
      | (Ok False, con) \<Rightarrow> (Ok (), con)
      | (Err e, con) \<Rightarrow> (Err e, con)
      | (Panic, con) \<Rightarrow> (Panic, con))"
  by auto
termination
proof (relation "measure (\<lambda>(env, con).
    if fst (next_ping (con_resender con)) \<le> env_now env then 1 else 0)", goal_cases)
  case (2 env con res con1 b)
  then have "ping_step env con = (Ok True, con1)" by simp
  from ping_step_next [OF this] show ?case
    by (simp add: from_secs_def PING_SECONDS_def)
qed simp

declare poll_pings.simps [simp del]

definition poll_ping :: "env \<Rightarrow> connection \<Rightarrow> unit con_result" where
  "poll_ping env con =
     bind_con (poll_state env con) (\<lambda>_ con.
       let con = poll_stats env con; r = con_resender con
       in if rs_state r = Connected \<and> \<not> (\<exists>q \<in> set (full_send_queue r). q \<noteq> [])
          then poll_pings env con else (Ok (), con))"

section \<open>Receiving and polling\<close>

definition con_handle_udp_packet :: "env \<Rightarrow> bytes \<Rightarrow> nat \<Rightarrow> connection \<Rightarrow> unit con_result" where
  "con_handle_udp_packet env udp_buffer addr con =
     (if addr \<noteq> con_address con then (Ok (), push_item (ItemError WrongAddress) con)
      else case in_packet_try_new (in_dir con) udp_buffer of
        Err e \<Rightarrow> (Ok (), push_item (ItemError (PacketParse ''udp'' e)) con)
      | Panic \<Rightarrow> (Panic, con)
      | Ok packet \<Rightarrow>
          let con = send_event (ReceiveUdpPacket packet) con;
              con = con\<lparr>con_resender := received_packet (env_now env) (con_resender con)\<rparr>
          in codec_handle_udp_packet env udp_buffer con)"

text \<open>
  What the socket has to read. At most \<open>MAX_UDP_PACKET_LENGTH\<close> bytes of a datagram fit into the
  buffer.
\<close>

datatype socket_event = Datagram nat bytes | SocketClosed

text \<open>\<open>Ok None\<close> is \<open>Poll::Pending\<close>; what was not read is returned.\<close>

fun poll_incoming_loop ::
  "env \<Rightarrow> socket_event list \<Rightarrow> connection \<Rightarrow> stream_item option con_result \<times> socket_event list" where
  "poll_incoming_loop env [] con = ((Ok None, con), [])"
| "poll_incoming_loop env (SocketClosed # evs) con = ((Err Network, con), evs)"
| "poll_incoming_loop env (Datagram addr d # evs) con =
     (case con_handle_udp_packet env (take MAX_UDP_PACKET_LENGTH d) addr con of
        (Ok _, con) \<Rightarrow>
          (case stream_items con of
             item # items \<Rightarrow> ((Ok (Some item), con\<lparr>stream_items := items\<rparr>), evs)
           | [] \<Rightarrow> poll_incoming_loop env evs con)
      | (Err e, con) \<Rightarrow> ((Err e, con), evs)
      | (Panic, con) \<Rightarrow> ((Panic, con), evs))"

definition poll_incoming_udp_packet ::
  "env \<Rightarrow> socket_event list \<Rightarrow> connection \<Rightarrow> stream_item option con_result \<times> socket_event list" where
  "poll_incoming_udp_packet env evs con =
     (if length (acks_to_send con) \<ge> UDP_SINK_CAPACITY then ((Ok None, con), evs)
      else poll_incoming_loop env evs con)"

text \<open>The outcome of \<open>Stream::poll_next\<close> when it is not an error.\<close>

datatype next_item_poll = NextPending | NextEnd | NextItem stream_item

definition poll_next ::
  "nat \<Rightarrow> env \<Rightarrow> socket_event list \<Rightarrow> connection \<Rightarrow> (next_item_poll con_result \<times> socket_event list) option" where
  "poll_next fuel env evs con =
     (case poll_send_acks env con of
        (Err e, con) \<Rightarrow> Some ((Err e, con), evs)
      | (Panic, con) \<Rightarrow> Some ((Panic, con), evs)
      | (Ok _, con) \<Rightarrow>
          if rs_state (con_resender con) = Disconnected \<and> acks_to_send con = []
          then Some ((Ok NextEnd, con), evs)
          else
            (case poll_resend fuel env con of
               None \<Rightarrow> None
             | Some res \<Rightarrow>
                 (case bind_con res (\<lambda>_ con. poll_ping env con) of
                    (Err e, con) \<Rightarrow> Some ((Err e, con), evs)
                  | (Panic, con) \<Rightarrow> Some ((Panic, con), evs)
                  | (Ok _, con) \<Rightarrow>
                      (case stream_items con of
                         item # items \<Rightarrow>
                           Some ((Ok (NextItem item), con\<lparr>stream_items := items\<rparr>), evs)
                       | [] \<Rightarrow>
                           (case poll_incoming_udp_packet env evs con of
                              (res, evs) \<Rightarrow>
                                Some (bind_con res (\<lambda>item con.
                                  (Ok (case item of None \<Rightarrow> NextPending | Some it \<Rightarrow> NextItem it), con)),
                                  evs))))))"

end
