(* ===== verification/Client.thy ===== *)
theory Client
  imports Commands License Connection
begin

text \<open>
  The client side of the protocol (\<open>tsproto/src/client.rs\<close>): sending, the inspection of incoming
  commands and the handshake. The asynchronous function \<open>connect\<close> is a state machine whose phases are
  the points where it waits; a step takes one item of the stream. Keys and signatures, base64 and
  the modular power come from other crates and are fields of the environment, as are the random
  values and the clock. Keys of P-256 are byte strings.
\<close>

section \<open>Values of arguments\<close>

text \<open>\<open>get_str\<close>: the unescaped value, when it is text.\<close>

definition get_str :: "arg_value \<Rightarrow> bytes option" where
  "get_str v = (let s = value_get v in if utf8_valid s then Some s else None)"

text \<open>\<open>u16::from_str\<close>: an optional plus sign and at least one digit, without overflow.\<close>

fun digits_u16 :: "bytes \<Rightarrow> nat \<Rightarrow> nat option" where
  "digits_u16 [] acc = Some acc"
| "digits_u16 (c # cs) acc =
     (if 48 \<le> c \<and> c \<le> 57 then
        let n = acc * 10 + unat (c - 48) in if n < 65536 then digits_u16 cs n else None
      else None)"

definition parse_u16 :: "bytes \<Rightarrow> u16 option" where
  "parse_u16 s =
     (let ds = (case s of c # cs \<Rightarrow> if c = 43 then cs else s | [] \<Rightarrow> [])
      in if ds = [] then None else map_option of_nat (digits_u16 ds 0))"

definition get_parse_u16 :: "arg_value \<Rightarrow> u16 option" where
  "get_parse_u16 v = (case get_str v of Some s \<Rightarrow> parse_u16 s | None \<Rightarrow> None)"

section \<open>Addresses\<close>

datatype ip_addr = IpV4 u8 u8 u8 u8 | IpV6 "u16 list"

text \<open>\<open>is_global_ip\<close> of \<open>utils.rs\<close>, with the tests of the standard library.\<close>

fun is_global_ip :: "ip_addr \<Rightarrow> bool" where
  "is_global_ip (IpV4 a b c d) =
     (\<not> (a = 0 \<and> b = 0 \<and> c = 0 \<and> d = 0) \<and> a \<noteq> 127 \<and> \<not> (224 \<le> a \<and> a \<le> 239) \<and>
      \<not> (a = 255 \<and> b = 255 \<and> c = 255 \<and> d = 255) \<and> \<not> (a = 169 \<and> b = 254) \<and>
      \<not> (a = 10 \<or> a = 172 \<and> 16 \<le> b \<and> b \<le> 31 \<or> a = 192 \<and> b = 168))"
| "is_global_ip (IpV6 segments) =
     (\<not> list_all (\<lambda>s. s = 0) segments \<and> segments \<noteq> [0, 0, 0, 0, 0, 0, 0, 1] \<and>
      hd segments AND 0xff00 \<noteq> 0xff00)"

section \<open>Environment and errors\<close>

text \<open>The errors of \<open>client.rs\<close>, without the causes that other crates report.\<close>

datatype client_error =
    ConnectionEnd
  | EarlyInitserver
  | InvalidBase64Arg string
  | InvalidBetaLength nat
  | InvalidClientId bytes
  | InvalidInitivexpand2
  | InvalidOmegaKey
  | InvalidOmegaString
  | InvalidPacket string
  | InvalidRootKeyLength nat
  | InvalidSignature
  | MultipleCommands string
  | NoClientId
  | OutdatedServer
  | ParseLicense license_error
  | RsaPuzzle
  | RsaPuzzleTooHighLevel u32
  | TsProto ts_error
  | UnexpectedPacket string

record ('p, 's) client_env =
  ce_con :: env
  ce_curve :: "('p, 's) curve"
  ce_base :: 'p
  ce_point_bytes :: "'p \<Rightarrow> bytes"
  ce_sha1 :: "bytes \<Rightarrow> bytes"
  ce_b64_decode :: "bytes \<Rightarrow> bytes option"
  ce_b64_encode :: "bytes \<Rightarrow> bytes"
  ce_from_ts :: "bytes \<Rightarrow> bytes option"
  ce_verify :: "bytes \<Rightarrow> bytes \<Rightarrow> bytes \<Rightarrow> bool"
  ce_sign :: "bytes \<Rightarrow> bytes"
  ce_omega :: bytes
  ce_modpow :: "nat \<Rightarrow> nat \<Rightarrow> nat \<Rightarrow> nat option"
  ce_ip :: "nat \<Rightarrow> ip_addr"
  ce_ip_text :: "ip_addr \<Rightarrow> bytes"
  ce_unix_time :: int
  ce_random0 :: bytes
  ce_alpha :: bytes
  ce_ek :: 's
  ce_version_text :: bytes

text \<open>\<open>create_shared_secret\<close> and \<open>to_pub\<close> of the Ed25519 keys in \<open>tsproto-types/src/crypto.rs\<close>.\<close>

definition create_shared_secret :: "('p, 's) client_env \<Rightarrow> 's \<Rightarrow> 'p \<Rightarrow> bytes" where
  "create_shared_secret env priv pub_key = ce_point_bytes env (cv_mul (ce_curve env) pub_key priv)"

definition ed25519_to_pub :: "('p, 's) client_env \<Rightarrow> 's \<Rightarrow> bytes" where
  "ed25519_to_pub env priv = ce_point_bytes env (cv_mul (ce_curve env) (ce_base env) priv)"

definition ROOT_KEY :: bytes where
  "ROOT_KEY =
     [0xcd, 0x0d, 0xe2, 0xae, 0xd4, 0x63, 0x45, 0x50, 0x9a, 0x7e, 0x3c, 0xfd, 0x8f, 0x68, 0xb3, 0xdc,
      0x75, 0x55, 0xb2, 0x9d, 0xcc, 0xec, 0x73, 0xcd, 0x18, 0x75, 0x0f, 0x99, 0x38, 0x12, 0x40, 0x8a]"

section \<open>Results\<close>

type_synonym 'a client_result = "(client_error, 'a) outcome \<times> connection"

fun bind_cl :: "'a client_result \<Rightarrow> ('a \<Rightarrow> connection \<Rightarrow> 'b client_result) \<Rightarrow> 'b client_result" where
  "bind_cl (Ok x, con) f = f x con"
| "bind_cl (Err e, con) f = (Err e, con)"
| "bind_cl (Panic, con) f = (Panic, con)"

definition lift_con :: "'a con_result \<Rightarrow> 'a client_result" where
  "lift_con m = (map_err TsProto (fst m), snd m)"

definition set_resender_state :: "env \<Rightarrow> resender_state \<Rightarrow> connection \<Rightarrow> connection" where
  "set_resender_state env st con = con\<lparr>con_resender := set_state (env_now env) st (con_resender con)\<rparr>"

section \<open>Sending\<close>

text \<open>Sending the command that disconnects moves the resender to its disconnecting state.\<close>

definition client_send_packet :: "env \<Rightarrow> out_packet \<Rightarrow> connection \<Rightarrow> packet_ident client_result" where
  "client_send_packet env packet con =
     bind_cl (unwrap (hdr_packet_type (out_header packet)), con) (\<lambda>p_type con.
       let con = (if p_type = Command \<and> starts_with (out_content packet) (bstr ''clientdisconnect'')
                  then set_resender_state env Disconnecting con else con)
       in lift_con (send_packet env packet con))"

section \<open>Inspecting commands\<close>

text \<open>The first client id of an \<open>initserver\<close>; what follows it is not read.\<close>

fun initserver_id :: "command_item list \<Rightarrow> (client_error, u16 option) outcome" where
  "initserver_id [] = Ok None"
| "initserver_id (NextCommand # items) = Err (MultipleCommands ''initserver'')"
| "initserver_id (Argument name v # items) =
     (if name = bstr ''aclid'' then
        (case get_parse_u16 v of
           Some i \<Rightarrow> Ok (Some i)
         | None \<Rightarrow> Err (InvalidClientId (get_raw v)))
      else initserver_id items)"

fun own_client_left :: "u16 \<Rightarrow> command_item list \<Rightarrow> bool \<Rightarrow> (client_error, bool) outcome" where
  "own_client_left own [] acc = Ok acc"
| "own_client_left own (NextCommand # items) acc = own_client_left own items acc"
| "own_client_left own (Argument name v # items) acc =
     (if name = bstr ''clid'' then
        (case get_parse_u16 v of
           Some i \<Rightarrow> own_client_left own items (acc \<or> i = own)
         | None \<Rightarrow> Err (InvalidClientId (get_raw v)))
      else own_client_left own items acc)"

definition version_reply :: "('p, 's) client_env \<Rightarrow> u16 \<Rightarrow> out_packet" where
  "version_reply env sender =
     (let cmd = out_command_new C2S 0 Command (bstr ''plugincmd'');
          cmd = write_arg (bstr ''name'') (bstr ''getversion'') cmd;
          cmd = write_arg (bstr ''data'') (ce_version_text env) cmd;
          cmd = write_arg (bstr ''targetmode'') (bstr ''2'') cmd
      in write_arg (bstr ''target'') (dec_digits (unat sender)) cmd)"

text \<open>The loop over a plugin command; what an earlier part has set stays set.\<close>

fun plugin_loop ::
  "('p, 's) client_env \<Rightarrow> command_item list \<Rightarrow> bool \<Rightarrow> bool \<Rightarrow> u16 option \<Rightarrow> connection \<Rightarrow> unit client_result"
where
  "plugin_loop env [] is_getversion is_request sender con = (Ok (), con)"
| "plugin_loop env (Argument name v # items) is_getversion is_request sender con =
     (if name = bstr ''name'' then
        plugin_loop env items (get_raw v = bstr ''getversion'') is_request sender con
      else if name = bstr ''data'' then
        plugin_loop env items is_getversion (get_raw v = bstr ''request'') sender con
      else if name = bstr ''invokerid'' then
        plugin_loop env items is_getversion is_request
          (case get_parse_u16 v of Some i \<Rightarrow> Some i | None \<Rightarrow> sender) con
      else plugin_loop env items is_getversion is_request sender con)"
| "plugin_loop env (NextCommand # items) is_getversion is_request sender con =
     (case sender of
        Some s \<Rightarrow>
          if is_getversion \<and> is_request then
            bind_cl (client_send_packet (ce_con env) (version_reply env s) con) (\<lambda>_ con.
              plugin_loop env items is_getversion is_request sender con)
          else plugin_loop env items is_getversion is_request sender con
      | None \<Rightarrow> plugin_loop env items is_getversion is_request sender con)"

definition set_client_number :: "connected_params \<Rightarrow> u16 \<Rightarrow> connection \<Rightarrow> connection" where
  "set_client_number params i con = con\<lparr>con_params := Some (params\<lparr>par_c_id := i\<rparr>)\<rparr>"

definition client_handle_command ::
  "('p, 's) client_env \<Rightarrow> in_packet \<Rightarrow> connection \<Rightarrow> unit client_result" where
  "client_handle_command env command con =
     (let (name, args) = command_parser_new (pkt_content command); items = parse_items args in
      if name = bstr ''initserver'' then
        (case con_params con of
           Some params \<Rightarrow>
             bind_cl (initserver_id items, con) (\<lambda>c_id con.
               case c_id of
                 Some i \<Rightarrow>
                   (Ok (), set_resender_state (ce_con env) Connected (set_client_number params i con))
               | None \<Rightarrow> (Err NoClientId, con))
         | None \<Rightarrow> (Err EarlyInitserver, con))
      else if name = bstr ''notifyclientleftview'' then
        (case con_params con of
           Some params \<Rightarrow>
             bind_cl (own_client_left (par_c_id params) items False, con) (\<lambda>own con.
               (Ok (), if own then set_resender_state (ce_con env) Disconnected con else con))
         | None \<Rightarrow> (Ok (), con))
      else if name = bstr ''notifyplugincmd'' then
        plugin_loop env (items @ [NextCommand]) False False None con
      else (Ok (), con))"

text \<open>
  \<open>Stream::poll_next\<close> of the client inspects the commands that the connection yields, before they are
  passed on.
\<close>

definition client_inspect :: "('p, 's) client_env \<Rightarrow> stream_item \<Rightarrow> connection \<Rightarrow> stream_item client_result" where
  "client_inspect env item con =
     (case item of
        ItemCommand command \<Rightarrow> bind_cl (client_handle_command env command con) (\<lambda>_ con. (Ok item, con))
      | _ \<Rightarrow> (Ok item, con))"

definition client_poll_next ::
  "nat \<Rightarrow> ('p, 's) client_env \<Rightarrow> socket_event list \<Rightarrow> connection
     \<Rightarrow> (next_item_poll client_result \<times> socket_event list) option" where
  "client_poll_next fuel env evs con =
     map_option (\<lambda>(res, evs).
       (bind_cl (lift_con res) (\<lambda>r con.
          case r of
            NextItem item \<Rightarrow> bind_cl (client_inspect env item con) (\<lambda>item con. (Ok (NextItem item), con))
          | _ \<Rightarrow> (Ok r, con)), evs))
       (poll_next fuel (ce_con env) evs con)"

section \<open>Filters\<close>

text \<open>What the filters of the handshake let through; everything else is dropped.\<close>

fun get_init :: "u8 list \<Rightarrow> stream_item \<Rightarrow> s2c_init_data option" where
  "get_init steps (ItemS2CInit packet d) = (if s2c_get_step d \<in> set steps then Some d else None)"
| "get_init steps _ = None"

fun get_command :: "stream_item \<Rightarrow> in_packet option" where
  "get_command (ItemCommand packet) = Some packet"
| "get_command _ = None"

text \<open>\<open>id <= ack\<close> of packet ids, which only compare when they have the same type.\<close>

fun acknowledges :: "packet_ident \<Rightarrow> stream_item \<Rightarrow> bool" where
  "acknowledges (PacketId t i) (ItemAckPacket (PacketId t' a)) = (t = t' \<and> i \<le> a)"
| "acknowledges _ _ = False"

definition can_send_again :: "env \<Rightarrow> stream_item \<Rightarrow> connection \<Rightarrow> bool" where
  "can_send_again env item con =
     (case item of ItemAckPacket _ \<Rightarrow> \<not> is_send_queue_full env con | _ \<Rightarrow> False)"

text \<open>
  \<open>filter_items\<close> on what the stream yields, each item with the connection at that time; the stream has
  ended after the last one. The waits of the client are such filters.
\<close>

fun filter_items ::
  "(stream_item \<Rightarrow> connection \<Rightarrow> (client_error, 'a option) outcome) \<Rightarrow> stream_item client_result list
     \<Rightarrow> (client_error, 'a) outcome" where
  "filter_items f [] = Err ConnectionEnd"
| "filter_items f ((Ok item, con) # rs) =
     (case f item con of
        Ok (Some r) \<Rightarrow> Ok r
      | Ok None \<Rightarrow> filter_items f rs
      | Err e \<Rightarrow> Err e
      | Panic \<Rightarrow> Panic)"
| "filter_items f ((Err e, con) # rs) = Err e"
| "filter_items f ((Panic, con) # rs) = Panic"

definition filter_commands ::
  "(in_packet \<Rightarrow> connection \<Rightarrow> (client_error, 'a option) outcome) \<Rightarrow> stream_item client_result list
     \<Rightarrow> (client_error, 'a) outcome" where
  "filter_commands f rs =
     filter_items (\<lambda>item con. case item of ItemCommand packet \<Rightarrow> f packet con | _ \<Rightarrow> Ok None) rs"

definition wait_for_ack :: "packet_ident \<Rightarrow> stream_item client_result list \<Rightarrow> (client_error, unit) outcome" where
  "wait_for_ack i rs =
     filter_items (\<lambda>item con. Ok (if acknowledges i item then Some () else None)) rs"

definition wait_until_can_send ::
  "env \<Rightarrow> connection \<Rightarrow> stream_item client_result list \<Rightarrow> (client_error, unit) outcome" where
  "wait_until_can_send env con rs =
     (if \<not> is_send_queue_full env con then Ok ()
      else filter_items (\<lambda>item con. Ok (if can_send_again env item con then Some () else None)) rs)"

text \<open>\<open>wait_disconnect\<close> drops every item; here the end of the stream is what is waited for.\<close>

fun wait_disconnect :: "stream_item client_result list \<Rightarrow> (client_error, unit) outcome" where
  "wait_disconnect [] = Ok ()"
| "wait_disconnect ((Ok item, con) # rs) = wait_disconnect rs"
| "wait_disconnect ((Err e, con) # rs) = Err e"
| "wait_disconnect ((Panic, con) # rs) = Panic"

section \<open>The handshake\<close>

datatype phase = PhaseInit1 | PhaseInit3 | PhaseExpand | PhaseAck packet_ident | PhaseDone

record client =
  cl_con :: connection
  cl_phase :: phase
  cl_version :: u32
  cl_timestamp :: u32
  cl_random0 :: bytes
  cl_alpha :: bytes

type_synonym step_result = "(client_error, unit) outcome \<times> client"

text \<open>The phase changes when an operation of the connection succeeds.\<close>

definition enter_phase :: "client \<Rightarrow> ('a \<Rightarrow> phase) \<Rightarrow> 'a client_result \<Rightarrow> step_result" where
  "enter_phase cl ph m =
     (case m of
        (Ok x, con) \<Rightarrow> (Ok (), cl\<lparr>cl_con := con, cl_phase := ph x\<rparr>)
      | (Err e, con) \<Rightarrow> (Err e, cl\<lparr>cl_con := con\<rparr>)
      | (Panic, con) \<Rightarrow> (Panic, cl\<lparr>cl_con := con\<rparr>))"

definition send_init0 :: "('p, 's) client_env \<Rightarrow> client \<Rightarrow> step_result" where
  "send_init0 env cl =
     enter_phase cl (\<lambda>_. PhaseInit1)
       (client_send_packet (ce_con env) (out_c2s_init0 (cl_version cl) (cl_timestamp cl) (cl_random0 cl))
          (cl_con cl))"

definition connect_start :: "('p, 's) client_env \<Rightarrow> connection \<Rightarrow> step_result" where
  "connect_start env con =
     (let timestamp = word_of_int (ce_unix_time env) in
      send_init0 env
        \<lparr>cl_con = con, cl_phase = PhaseInit1, cl_version = timestamp - 1356998400,
         cl_timestamp = timestamp, cl_random0 = ce_random0 env, cl_alpha = []\<rparr>)"

definition on_init1 :: "('p, 's) client_env \<Rightarrow> s2c_init_data \<Rightarrow> client \<Rightarrow> step_result" where
  "on_init1 env d cl =
     (case d of
        Init1 random1 random0_r \<Rightarrow>
          enter_phase cl (\<lambda>_. PhaseInit3)
            (client_send_packet (ce_con env) (out_c2s_init2 (cl_version cl) random1 random0_r) (cl_con cl))
      | _ \<Rightarrow> (Err (UnexpectedPacket ''Init1''), cl))"

text \<open>The RSA puzzle, \<open>x ^ (2 ^ level) mod n\<close>; the library panics on the modulus 0.\<close>

definition solve_puzzle :: "('p, 's) client_env \<Rightarrow> bytes \<Rightarrow> bytes \<Rightarrow> u32 \<Rightarrow> (client_error, bytes) outcome" where
  "solve_puzzle env x n level =
     bind_out (unwrap (ce_modpow env (be_val x) (2 ^ unat level) (be_val n))) biguint_to_array"

definition on_init3 :: "('p, 's) client_env \<Rightarrow> s2c_init_data \<Rightarrow> client \<Rightarrow> step_result" where
  "on_init3 env d cl =
     (case d of
        Init127 \<Rightarrow> send_init0 env cl
      | Init3 x n level random2 \<Rightarrow>
          if level > 10000000 then (Err (RsaPuzzleTooHighLevel level), cl)
          else
            (case solve_puzzle env x n level of
               Ok y \<Rightarrow>
                 let ip = ce_ip env (con_address (cl_con cl));
                     ip_text = (if is_global_ip ip then ce_ip_text env ip else []);
                     cl = cl\<lparr>cl_alpha := ce_alpha env\<rparr>
                 in enter_phase cl (\<lambda>_. PhaseExpand)
                      (client_send_packet (ce_con env)
                         (out_c2s_init4 (ce_b64_encode env) (cl_version cl) x n level random2 y
                            (ce_alpha env) (ce_omega env) ip_text) (cl_con cl))
             | Err e \<Rightarrow> (Err e, cl)
             | Panic \<Rightarrow> (Panic, cl))
      | _ \<Rightarrow> (Err (UnexpectedPacket ''Init3''), cl))"

text \<open>The arguments of \<open>initivexpand2\<close>.\<close>

record expand_args =
  ea_l :: "bytes option"
  ea_beta :: "bytes option"
  ea_server_key :: "bytes option"
  ea_proof :: "bytes option"
  ea_ot :: bool
  ea_root :: "bytes option"

definition expand_args_default :: expand_args where
  "expand_args_default =
     \<lparr>ea_l = None, ea_beta = None, ea_server_key = None, ea_proof = None, ea_ot = False, ea_root = None\<rparr>"

definition decode_arg :: "('p, 's) client_env \<Rightarrow> string \<Rightarrow> arg_value \<Rightarrow> (client_error, bytes) outcome" where
  "decode_arg env label v = ok_or (InvalidBase64Arg label) (ce_b64_decode env (value_get v))"

text \<open>A failure to decode the license or beta is labelled as one of the proof.\<close>

definition expand_arg ::
  "('p, 's) client_env \<Rightarrow> bytes \<Rightarrow> arg_value \<Rightarrow> expand_args \<Rightarrow> (client_error, expand_args) outcome" where
  "expand_arg env name v a =
     (if name = bstr ''l'' then
        bind_out (decode_arg env ''proof'' v) (\<lambda>d. Ok (a\<lparr>ea_l := Some d\<rparr>))
      else if name = bstr ''beta'' then
        bind_out (decode_arg env ''proof'' v) (\<lambda>d. Ok (a\<lparr>ea_beta := Some d\<rparr>))
      else if name = bstr ''omega'' then
        bind_out (ok_or InvalidOmegaString (get_str v)) (\<lambda>s.
        bind_out (ok_or InvalidOmegaKey (ce_from_ts env s)) (\<lambda>k. Ok (a\<lparr>ea_server_key := Some k\<rparr>)))
      else if name = bstr ''proof'' then
        bind_out (decode_arg env ''proof'' v) (\<lambda>d. Ok (a\<lparr>ea_proof := Some d\<rparr>))
      else if name = bstr ''ot'' then Ok (a\<lparr>ea_ot := get_raw v = bstr ''1''\<rparr>)
      else if name = bstr ''root'' then
        bind_out (decode_arg env ''root'' v) (\<lambda>d.
          if length d \<noteq> 32 then Err (InvalidRootKeyLength (length d))
          else Ok (a\<lparr>ea_root := Some d\<rparr>))
      else Ok a)"

fun expand_loop ::
  "('p, 's) client_env \<Rightarrow> command_item list \<Rightarrow> expand_args \<Rightarrow> (client_error, expand_args) outcome" where
  "expand_loop env [] a = Ok a"
| "expand_loop env (NextCommand # items) a = Err (MultipleCommands ''initivexpand2'')"
| "expand_loop env (Argument name v # items) a =
     bind_out (expand_arg env name v a) (expand_loop env items)"

text \<open>
  The checks of the arguments: the server's key, the beta and the shared iv and mac.
\<close>

definition check_expand ::
  "('p, 's) client_env \<Rightarrow> bytes \<Rightarrow> expand_args \<Rightarrow> (client_error, bytes \<times> bytes \<times> bytes \<times> bytes) outcome" where
  "check_expand env alpha a =
     (if \<not> ea_ot a then Err OutdatedServer
      else
        case (ea_l a, ea_beta a, ea_server_key a, ea_proof a) of
          (Some l, Some beta, Some server_key, Some proof) \<Rightarrow>
            let root = (case ea_root a of Some r \<Rightarrow> r | None \<Rightarrow> ROOT_KEY) in
            if \<not> ce_verify env server_key l proof then Err InvalidSignature
            else if length beta \<noteq> 54 then Err (InvalidBetaLength (length beta))
            else
              bind_out (map_err ParseLicense (licenses_parse (ce_unix_time env) l :: (license_error, 's licenses) outcome))
                (\<lambda>licenses.
              bind_out (map_err ParseLicense (derive_public_key (ce_curve env) licenses root)) (\<lambda>server_ek.
                let (iv, mac) = compute_iv_mac (cv_sha512 (ce_curve env)) (ce_sha1 env) alpha beta
                      (create_shared_secret env (ce_ek env) server_ek)
                in Ok (server_key, beta, iv, mac)))
        | _ \<Rightarrow> Err InvalidInitivexpand2)"

definition clientek_command :: "('p, 's) client_env \<Rightarrow> bytes \<Rightarrow> out_packet" where
  "clientek_command env beta =
     (let ek_pub = ed25519_to_pub env (ce_ek env);
          proof = ce_sign env (ek_pub @ beta);
          cmd = out_command_new C2S 0 Command (bstr ''clientek'');
          cmd = write_arg (bstr ''ek'') (ce_b64_encode env ek_pub) cmd
      in write_arg (bstr ''proof'') (ce_b64_encode env proof) cmd)"

definition install_params :: "bytes \<Rightarrow> bytes \<Rightarrow> bytes \<Rightarrow> connection \<Rightarrow> connection" where
  "install_params server_key iv mac con =
     con\<lparr>con_params := Some (connected_params_new server_key iv mac)\<rparr>"

definition on_expand :: "('p, 's) client_env \<Rightarrow> in_packet \<Rightarrow> client \<Rightarrow> step_result" where
  "on_expand env command cl =
     (let (name, args) = command_parser_new (pkt_content command) in
      if name \<noteq> bstr ''initivexpand2'' then (Err (UnexpectedPacket ''initivexpand2''), cl)
      else
        case bind_out (expand_loop env (parse_items args) expand_args_default) (check_expand env (cl_alpha cl)) of
          Ok (server_key, beta, iv, mac) \<Rightarrow>
            enter_phase cl PhaseAck
              (client_send_packet (ce_con env) (clientek_command env beta)
                 (install_params server_key iv mac (cl_con cl)))
        | Err e \<Rightarrow> (Err e, cl)
        | Panic \<Rightarrow> (Panic, cl))"

text \<open>One item of the stream, after its inspection, in the phase where \<open>connect\<close> waits.\<close>

definition phase_step :: "('p, 's) client_env \<Rightarrow> stream_item \<Rightarrow> client \<Rightarrow> step_result" where
  "phase_step env item cl =
     (case cl_phase cl of
        PhaseInit1 \<Rightarrow>
          (case get_init [1] item of Some d \<Rightarrow> on_init1 env d cl | None \<Rightarrow> (Ok (), cl))
      | PhaseInit3 \<Rightarrow>
          (case get_init [3, 127] item of Some d \<Rightarrow> on_init3 env d cl | None \<Rightarrow> (Ok (), cl))
      | PhaseExpand \<Rightarrow>
          (case get_command item of Some command \<Rightarrow> on_expand env command cl | None \<Rightarrow> (Ok (), cl))
      | PhaseAck i \<Rightarrow>
          (Ok (), if acknowledges i item then cl\<lparr>cl_phase := PhaseDone\<rparr> else cl)
      | PhaseDone \<Rightarrow> (Ok (), cl))"

definition connect_step :: "('p, 's) client_env \<Rightarrow> stream_item \<Rightarrow> client \<Rightarrow> step_result" where
  "connect_step env item cl =
     (case client_inspect env item (cl_con cl) of
        (Ok item, con) \<Rightarrow> phase_step env item (cl\<lparr>cl_con := con\<rparr>)
      | (Err e, con) \<Rightarrow> (Err e, cl\<lparr>cl_con := con\<rparr>)
      | (Panic, con) \<Rightarrow> (Panic, cl\<lparr>cl_con := con\<rparr>))"

text \<open>The end of the stream ends the handshake with an error of the filter.\<close>

definition connect_end :: "client \<Rightarrow> step_result" where
  "connect_end cl = (if cl_phase cl = PhaseDone then Ok () else Err ConnectionEnd, cl)"

end
