(* ===== verification/Connection_Invariant.thy ===== *)
theory Connection_Invariant
  imports Connection
begin

text \<open>
  The invariant of a connection, which every operation keeps, and what a connection does with an
  arbitrary datagram: it never panics, but for voice packets of three or four bytes sent to a
  server.
\<close>

section \<open>The invariant\<close>

definition stored_ok :: "direction \<Rightarrow> bytes \<Rightarrow> bool" where
  "stored_ok dir d \<longleftrightarrow> header_len dir \<le> length d"

definition channel_ok :: "direction \<Rightarrow> cmd_channel \<Rightarrow> bool" where
  "channel_ok dir ch \<longleftrightarrow> (\<forall>d \<in> set (ch_queue ch). stored_ok dir d) \<and>
     (\<forall>d. ch_frag ch = Some d \<longrightarrow> stored_ok dir d)"

definition codec_ok :: "direction \<Rightarrow> packet_codec \<Rightarrow> bool" where
  "codec_ok dir c \<longleftrightarrow> length (outgoing_p_ids c) = 8 \<and> length (incoming_p_ids c) = 8 \<and>
     length (receive_queue c) = 2 \<and> length (fragmented_queue c) = 2 \<and>
     channel_ok dir (get_channel Command c) \<and> channel_ok dir (get_channel CommandLow c)"

definition cache_shape :: "key_cache \<Rightarrow> bool" where
  "cache_shape cache \<longleftrightarrow> length cache = 8 \<and> (\<forall>row \<in> set cache. length row = 2)"

definition con_ok :: "connection \<Rightarrow> bool" where
  "con_ok con \<longleftrightarrow> resender_ok (con_resender con) \<and> codec_ok (in_dir con) (con_codec con) \<and>
     (\<forall>params. con_params con = Some params \<longrightarrow>
        cache_shape (par_key_cache params) \<and> length (par_shared_mac params) = 8)"

lemma cache_shape_default: "cache_shape key_cache_default"
  by (simp add: cache_shape_def key_cache_default_def)

lemma con_ok_new: "con_ok (connection_new client address now)"
  by (auto simp: con_ok_def connection_new_def codec_ok_def packet_codec_default_def Let_def
      resender_ok_default channel_ok_def get_channel_def)

text \<open>The fields the invariant does not mention.\<close>

lemma con_ok_logs [simp]:
  "con_ok (push_item it con) = con_ok con" "con_ok (send_event e con) = con_ok con"
  "con_ok (con\<lparr>acks_to_send := as\<rparr>) = con_ok con" "con_ok (con\<lparr>stream_items := its\<rparr>) = con_ok con"
  "con_ok (con\<lparr>con_sent := ds\<rparr>) = con_ok con"
  by (simp_all add: con_ok_def in_dir_def push_item_def send_event_def)

lemma is_client_logs [simp]:
  "is_client (push_item it con) = is_client con" "is_client (send_event e con) = is_client con"
  by (simp_all add: push_item_def send_event_def)

lemma con_ok_resender:
  "con_ok con \<Longrightarrow> con_ok (con\<lparr>con_resender := r\<rparr>) \<longleftrightarrow> resender_ok r"
  by (simp add: con_ok_def in_dir_def)

lemma con_okD:
  "con_ok con \<Longrightarrow> resender_ok (con_resender con)" "con_ok con \<Longrightarrow> codec_ok (in_dir con) (con_codec con)"
  by (simp_all add: con_ok_def)

lemma resender_ok_fields:
  "resender_ok (r\<lparr>rs_counter := c\<rparr>) = resender_ok r" "resender_ok (r\<lparr>rs_stats := s\<rparr>) = resender_ok r"
  "resender_ok (r\<lparr>rs_timers := t\<rparr>) = resender_ok r" "resender_ok (r\<lparr>last_pings := ps\<rparr>) = resender_ok r"
  "resender_ok (r\<lparr>last_receive := i\<rparr>) = resender_ok r" "resender_ok (r\<lparr>last_stat := i\<rparr>) = resender_ok r"
  "resender_ok (r\<lparr>rs_state := st\<rparr>) = resender_ok r" "resender_ok (r\<lparr>last_send := i\<rparr>) = resender_ok r"
  by (simp_all add: resender_ok_def queues_ok_def queue_complete_def)

section \<open>Operations that keep the invariant and do not panic\<close>

definition no_panic :: "('a \<Rightarrow> bool) \<Rightarrow> ('e, 'a) outcome \<Rightarrow> bool" where
  "no_panic Q m \<longleftrightarrow> (case m of Ok x \<Rightarrow> Q x | Err _ \<Rightarrow> True | Panic \<Rightarrow> False)"

lemma no_panic_simps [simp]:
  "no_panic Q (Ok x) = Q x" "no_panic Q (Err e)" "\<not> no_panic Q Panic"
  by (simp_all add: no_panic_def)

lemma no_panic_bind:
  "no_panic P m \<Longrightarrow> (\<And>x. m = Ok x \<Longrightarrow> P x \<Longrightarrow> no_panic Q (f x)) \<Longrightarrow> no_panic Q (bind_out m f)"
  by (cases m) auto

lemma no_panic_weaken: "no_panic P m \<Longrightarrow> (\<And>x. P x \<Longrightarrow> Q x) \<Longrightarrow> no_panic Q m"
  by (cases m) auto

lemma no_panic_ok_or [simp]: "no_panic Q (ok_or e x) \<longleftrightarrow> (\<forall>y. x = Some y \<longrightarrow> Q y)"
  by (cases x) simp_all

text \<open>
  The operation ends in a valid connection of the same role and its value, if it has one, satisfies
  \<open>Q\<close>; it panics only where that is allowed.
\<close>

definition yields :: "bool \<Rightarrow> bool \<Rightarrow> ('a \<Rightarrow> bool) \<Rightarrow> 'a con_result \<Rightarrow> bool" where
  "yields allow client Q m \<longleftrightarrow> allow \<and> fst m = Panic \<or>
     con_ok (snd m) \<and> is_client (snd m) = client \<and> no_panic Q (fst m)"

lemma yields_Ok [intro]: "con_ok con \<Longrightarrow> is_client con = client \<Longrightarrow> Q x \<Longrightarrow> yields allow client Q (Ok x, con)"
  and yields_Err [intro]: "con_ok con \<Longrightarrow> is_client con = client \<Longrightarrow> yields allow client Q (Err e, con)"
  by (simp_all add: yields_def)

lemma yields_bind:
  assumes "yields allow client P m"
    and "\<And>x con. P x \<Longrightarrow> con_ok con \<Longrightarrow> is_client con = client \<Longrightarrow> yields allow client Q (f x con)"
  shows "yields allow client Q (bind_con m f)"
  using assms by (cases m; cases "fst m") (auto simp: yields_def)

lemma yields_bind_lift:
  assumes "no_panic P m" "con_ok con" "is_client con = client"
    and "\<And>x. m = Ok x \<Longrightarrow> P x \<Longrightarrow> yields allow client Q (f x con)"
  shows "yields allow client Q (bind_con (m, con) f)"
  using assms by (cases m) (auto simp: yields_def)

lemma yields_weaken: "yields allow client P m \<Longrightarrow> (\<And>x. P x \<Longrightarrow> Q x) \<Longrightarrow> yields allow client Q m"
  by (auto simp: yields_def intro: no_panic_weaken)

lemma yields_no_panic: "yields False client Q m \<Longrightarrow> fst m \<noteq> Panic"
  by (auto simp: yields_def)

lemma yields_pair: "yields allow client Q (res, con) \<longleftrightarrow> allow \<and> res = Panic \<or>
    con_ok con \<and> is_client con = client \<and> no_panic Q res"
  by (simp add: yields_def)

lemma yields_resender:
  assumes "con_ok con" "is_client con = client"
    "no_panic resender_ok (f (con_resender con))"
  shows "yields allow client (\<lambda>_. True) (on_resender f con)"
  using assms by (auto simp: on_resender_def yields_pair con_ok_resender split: outcome.splits)

lemma yields_lift:
  assumes "con_ok con" "is_client con = client" "no_panic Q m"
  shows "yields allow client Q (m, con)"
  using assms by (simp add: yields_pair)

section \<open>Command packets\<close>

lemma decompress_in_place_ok:
  assumes "in_packet_new dir d = (Ok packet :: (ts_error, _) outcome)"
  shows "no_panic (stored_ok dir) (decompress_in_place decompress packet d)"
  using assms unfolding decompress_in_place_def
  by (intro no_panic_bind [where P = "\<lambda>_. True"])
    (auto simp: in_packet_new_Ok_iff stored_ok_def)

lemma in_packet_new_no_panic:
  "stored_ok dir d \<Longrightarrow> no_panic (\<lambda>p. in_packet_new dir d = (Ok p :: (ts_error, _) outcome))
     (in_packet_new dir d :: (ts_error, _) outcome)"
  by (simp add: stored_ok_def in_packet_new_eq)

lemma stored_ok_append: "stored_ok dir d \<Longrightarrow> stored_ok dir (d @ x)"
  by (simp add: stored_ok_def)

lemma handle_fragment_ok:
  assumes "stored_ok dir d" "\<forall>f. frag = Some f \<longrightarrow> stored_ok dir f"
    and "handle_fragment decompress dir frag d = (res, frag')"
  shows "no_panic (\<lambda>x. \<forall>d. x = Some d \<longrightarrow> stored_ok dir d) res \<and>
    (\<forall>f. frag' = Some f \<longrightarrow> stored_ok dir f)"
proof -
  obtain packet where p: "in_packet_new dir d = (Ok packet :: (ts_error, _) outcome)"
    using assms(1) by (simp add: stored_ok_def in_packet_new_eq)
  let ?flags = "hdr_flags (pkt_header packet)"
  let ?ok = "\<lambda>x. \<forall>d. x = Some d \<longrightarrow> stored_ok dir d"
  have comp: "no_panic ?ok (bind_out (if has_flag (hdr_flags (pkt_header q)) COMPRESSED
      then decompress_in_place decompress q d' else Ok d') (\<lambda>d. Ok (Some d)))"
    if "in_packet_new dir d' = (Ok q :: (ts_error, _) outcome)" "stored_ok dir d'" for q d'
    by (rule no_panic_bind [where P = "stored_ok dir"])
      (use decompress_in_place_ok [OF that(1)] that(2) in auto)
  show ?thesis
  proof (cases frag)
    case None
    then show ?thesis
      using assms(1,3) comp [OF p assms(1)] by (auto simp: handle_fragment_def p Let_def split: if_splits)
  next
    case (Some f)
    let ?f = "f @ pkt_content packet"
    have f: "stored_ok dir ?f" using assms(2) Some by (simp add: stored_ok_append)
    have "no_panic ?ok (bind_out (in_packet_new dir ?f :: (ts_error, _) outcome) (\<lambda>header.
        bind_out (if has_flag (hdr_flags (pkt_header header)) COMPRESSED
          then decompress_in_place decompress header ?f else Ok ?f) (\<lambda>d. Ok (Some d))))"
      by (rule no_panic_bind [OF in_packet_new_no_panic [OF f]]) (rule comp [OF _ f])
    then show ?thesis
      using assms(2,3) f Some by (auto simp: handle_fragment_def p Let_def split: if_splits)
  qed
qed

lemma deliver_loop_ok:
  assumes "channel_ok dir ch" "stored_ok dir d" "\<forall>p \<in> set packets. stored_ok dir p"
    and "deliver_loop decompress dir pid d packets ch = (res, ch')"
  shows "no_panic (\<lambda>ps. \<forall>p \<in> set ps. stored_ok dir p) res \<and> channel_ok dir ch'"
  using assms
proof (induction "length (ch_queue ch)" arbitrary: pid d packets ch res ch' rule: less_induct)
  case (less ch pid d packets)
  let ?ch = "ch\<lparr>ch_next := ppid_add (ch_next ch) 1\<rparr>"
  obtain r frag where hf: "handle_fragment decompress dir (ch_frag ch) d = (r, frag)"
    by (cases "handle_fragment decompress dir (ch_frag ch) d")
  have "\<forall>f. ch_frag ch = Some f \<longrightarrow> stored_ok dir f" using less.prems(1) by (simp add: channel_ok_def)
  note hf_ok = handle_fragment_ok [OF less.prems(2) this hf]
  note h = conjunct1 [OF hf_ok] conjunct2 [OF hf_ok]
  have ch: "channel_ok dir (?ch\<lparr>ch_frag := frag\<rparr>)"
    using less.prems(1) h(2) by (simp add: channel_ok_def)
  show ?case
  proof (cases r)
    case Panic
    with h(1) show ?thesis by simp
  next
    case (Err e)
    then have "deliver_loop decompress dir pid d packets ch = (Err e, ?ch\<lparr>ch_frag := frag\<rparr>)"
      by (subst deliver_loop.simps) (simp add: hf)
    with less.prems(4) ch show ?thesis by auto
  next
    case (Ok res1)
    let ?ps = "case res1 of Some p \<Rightarrow> packets @ [p] | None \<Rightarrow> packets"
    have ps: "\<forall>p \<in> set ?ps. stored_ok dir p"
      using h(1) Ok less.prems(3) by (auto split: option.split)
    show ?thesis
    proof (cases "position (\<lambda>p. stored_id dir p = pid + 1) (ch_queue ch)")
      case None
      with Ok have "deliver_loop decompress dir pid d packets ch = (Ok ?ps, ?ch\<lparr>ch_frag := frag\<rparr>)"
        by (subst deliver_loop.simps) (simp add: hf)
      with less.prems(4) ch ps show ?thesis by auto
    next
      case (Some pos)
      let ?ch2 = "?ch\<lparr>ch_frag := frag, ch_queue := remove_at pos (ch_queue ch)\<rparr>"
      have "channel_ok dir ?ch2"
        using ch set_remove_at [of pos "ch_queue ch"] by (auto simp: channel_ok_def)
      moreover have "stored_ok dir (ch_queue ch ! pos)"
        using less.prems(1) position_Some [OF Some] by (auto simp: channel_ok_def)
      moreover have "deliver_loop decompress dir (pid + 1) (ch_queue ch ! pos) ?ps ?ch2 = (res, ch')"
        using Ok Some unfolding less.prems(4) [symmetric]
        by (subst (2) deliver_loop.simps) (simp add: hf)
      ultimately show ?thesis
        using less.hyps [of ?ch2 "ch_queue ch ! pos" ?ps "pid + 1" res ch'] position_Some [OF Some] ps
        by (cases "ch_queue ch") (simp_all add: length_remove_at)
    qed
  qed
qed

lemma handle_command_ok:
  assumes "channel_ok dir ch" "stored_ok dir d" "handle_command decompress dir d ch = (res, ch')"
  shows "no_panic (\<lambda>ps. \<forall>p \<in> set ps. stored_ok dir p) res \<and> channel_ok dir ch'"
proof (cases "packet_id (ch_next ch) = stored_id dir d")
  case True
  then show ?thesis
    using assms(3) deliver_loop_ok [OF assms(1,2), of "[]"] by (simp add: handle_command_def)
next
  case False
  then show ?thesis
    using assms by (auto simp: handle_command_def channel_ok_def Let_def split: if_splits)
qed

text \<open>Reading and writing the part of the codec that belongs to one kind of command packets.\<close>

lemma get_channel_ok:
  "codec_ok dir c \<Longrightarrow> is_command t \<Longrightarrow> channel_ok dir (get_channel t c)"
  by (auto simp: codec_ok_def is_command_def)

lemma put_channel_ok:
  assumes "codec_ok dir c" "is_command t" "channel_ok dir ch"
  shows "codec_ok dir (put_channel t ch c)"
proof -
  have "get_channel Command (put_channel t ch c) = (if t = Command then ch else get_channel Command c)"
    "get_channel CommandLow (put_channel t ch c) = (if t = CommandLow then ch else get_channel CommandLow c)"
    using assms(1,2) by (auto simp: codec_ok_def is_command_def get_channel_def put_channel_def Let_def
        type_index_def)
  with assms show ?thesis by (auto simp: codec_ok_def put_channel_def Let_def)
qed

lemma con_ok_codec:
  "con_ok con \<Longrightarrow> con_ok (con\<lparr>con_codec := c\<rparr>) \<longleftrightarrow> codec_ok (in_dir con) c"
  by (simp add: con_ok_def in_dir_def)

lemma yields_handle_command_packet:
  assumes "con_ok con" "is_client con = client" "is_command t" "stored_ok (in_dir con) d"
  shows "yields allow client (\<lambda>ps. \<forall>p \<in> set ps. stored_ok (in_dir con) p)
    (handle_command_packet env t d con)"
proof -
  let ?ch = "get_channel t (con_codec con)"
  obtain res ch where h: "handle_command (env_decompress env) (in_dir con) d ?ch = (res, ch)"
    by (cases "handle_command (env_decompress env) (in_dir con) d ?ch")
  have c: "codec_ok (in_dir con) (con_codec con)" by (rule con_okD(2) [OF assms(1)])
  from handle_command_ok [OF get_channel_ok [OF c assms(3)] assms(4) h]
  have "no_panic (\<lambda>ps. \<forall>p \<in> set ps. stored_ok (in_dir con) p) res" "channel_ok (in_dir con) ch"
    by blast+
  with put_channel_ok [OF c assms(3)] show ?thesis
    using assms(1,2) by (simp add: handle_command_packet_def h yields_pair con_ok_codec)
qed

section \<open>Acknowledgements\<close>

lemma resend_ack_packet_client:
  "is_client (snd (resend_ack_packet now t i con)) = is_client con"
  "con_params (snd (resend_ack_packet now t i con)) = con_params con"
  "con_codec (snd (resend_ack_packet now t i con)) = con_codec con"
  by (auto simp: resend_ack_packet_def ack_ping_def push_item_def Let_def
      split: option.splits list.splits prod.splits if_splits)

lemma yields_ack_packet:
  assumes "con_ok con" "is_client con = client" "t = Ping \<or> packet_type_to_index t \<noteq> None"
  shows "yields allow client (\<lambda>_. True) (resend_ack_packet now t i con)"
proof -
  obtain res con' where r: "resend_ack_packet now t i con = (res, con')"
    by (cases "resend_ack_packet now t i con")
  have "res = Ok ()"
  proof (cases "t = Ping")
    case True
    with r show ?thesis by (auto simp: resend_ack_packet_def)
  next
    case False
    with assms(3) obtain qi where qi: "packet_type_to_index t = Some qi" by auto
    show ?thesis
    proof (cases "bt_entries (full_send_queue (con_resender con) ! qi)")
      case Nil
      with r qi False show ?thesis by (auto simp: resend_ack_packet_def Let_def)
    next
      case (Cons e rest)
      with ack_result [OF qi, of con "fst e" "snd e" rest now i] r show ?thesis by auto
    qed
  qed
  moreover have "con_ok con'"
    using ack_packet_ok [OF con_okD(1) [OF assms(1)] r] assms(1) resend_ack_packet_client [of now t i con]
    by (simp add: r con_ok_def in_dir_def)
  ultimately show ?thesis
    using resend_ack_packet_client(1) [of now t i con] assms(2) by (simp add: r yields_pair)
qed

section \<open>Outgoing packets keep their type\<close>

definition packet_of :: "packet_type \<Rightarrow> direction \<Rightarrow> out_packet \<Rightarrow> bool" where
  "packet_of t dir p \<longleftrightarrow> wf_out p \<and> out_dir p = dir \<and> hdr_packet_type (out_header p) = Some t"

lemma packet_of_parts:
  "packet_of t dir p \<longleftrightarrow> (\<exists>h tb c. p = \<lparr>out_dir = dir, out_data = h @ tb # c\<rparr> \<and>
     length h = get_off dir \<and> packet_type_from_u8 (tb AND 0xf) = Some t)"
proof
  assume p: "packet_of t dir p"
  then obtain h tb c where "p = \<lparr>out_dir = dir, out_data = h @ tb # c\<rparr>" "length h = get_off dir"
    using wf_out_parts [of p] by (auto simp: packet_of_def)
  moreover from this p have "packet_type_from_u8 (tb AND 0xf) = Some t"
    by (simp add: packet_of_def)
  ultimately show "\<exists>h tb c. p = \<lparr>out_dir = dir, out_data = h @ tb # c\<rparr> \<and>
     length h = get_off dir \<and> packet_type_from_u8 (tb AND 0xf) = Some t" by blast
qed (auto simp: packet_of_def wf_out_def header_len_Suc)

lemma splice_front: "off + length new \<le> length h \<Longrightarrow> splice off new (h @ x) = splice off new h @ x"
  by (simp add: splice_def)

lemma get_off_10: "10 \<le> get_off dir"
  by (cases dir) simp_all

lemma packet_of_splice:
  assumes "packet_of t dir p" "off + length new \<le> get_off dir"
  shows "packet_of t dir (p\<lparr>out_data := splice off new (out_data p)\<rparr>)"
proof -
  from assms obtain h tb c where p: "p = \<lparr>out_dir = dir, out_data = h @ tb # c\<rparr>" "length h = get_off dir"
    "packet_type_from_u8 (tb AND 0xf) = Some t" by (auto simp: packet_of_parts)
  with assms(2) show ?thesis
    unfolding packet_of_parts
    by (intro exI [of _ "splice off new h"] exI [of _ tb] exI [of _ c]) (simp add: splice_front length_splice)
qed

lemma packet_of_set_packet_id: "packet_of t dir p \<Longrightarrow> packet_of t dir (set_packet_id i p)"
  using get_off_10 [of dir] by (simp add: set_packet_id_def packet_of_splice)

lemma packet_of_set_mac: "packet_of t dir p \<Longrightarrow> length mac = 8 \<Longrightarrow> packet_of t dir (set_mac mac p)"
  using get_off_10 [of dir] by (simp add: set_mac_def packet_of_splice)

lemma packet_of_set_client_id:
  assumes "packet_of t C2S p"
  shows "\<exists>p'. set_client_id i p = (Ok p' :: ('e, out_packet) outcome) \<and> packet_of t C2S p'"
proof -
  have "out_dir p = C2S" using assms by (simp add: packet_of_def)
  then show ?thesis
    using packet_of_splice [OF assms, of 10 "write_be16 i"] by (simp add: set_client_id_def)
qed

lemma type_nibble: "((tb AND 0xf) OR ((tb AND 0xf0) OR f)) AND 0xf = tb AND 0xf" if "f AND 0xf = 0" for tb f :: u8
  unfolding nibbles using that by (simp add: bit.conj_disj_distrib2)

lemma packet_of_or_flags:
  assumes "packet_of t dir p" "f AND 0xf = 0"
  shows "packet_of t dir (or_flags f p)"
proof -
  from assms(1) obtain h tb c where p: "p = \<lparr>out_dir = dir, out_data = h @ tb # c\<rparr>" "length h = get_off dir"
    "packet_type_from_u8 (tb AND 0xf) = Some t" by (auto simp: packet_of_parts)
  then show ?thesis
    using type_nibble [OF assms(2), of tb] unfolding packet_of_parts or_flags_def
    by (intro exI [of _ h] exI [of _ "(tb AND 0xf) OR ((tb AND 0xf0) OR f)"] exI [of _ c]) simp
qed

text \<open>What the connection relies on of the cipher.\<close>

definition env_ok :: "env \<Rightarrow> bool" where
  "env_ok env \<longleftrightarrow>
     (\<forall>k n a m c t. env_enc env k n a m = Some (c, t) \<longrightarrow> length c = length m \<and> length t = 8) \<and>
     (\<forall>k n a c t m. env_dec env k n a c t = Some m \<longrightarrow> length m = length c)"

lemma packet_of_encrypt:
  assumes "env_ok env" "packet_of t dir p"
  shows "no_panic (packet_of t dir) (encrypt_key_nonce (env_enc env) p kn)"
proof -
  have "wf_out p" "out_dir p = dir" using assms(2) by (simp_all add: packet_of_def)
  then obtain m r tb c where p: "p = \<lparr>out_dir = dir, out_data = (m @ r) @ tb # c\<rparr>"
    and l: "length m = 8" "length (m @ r) = get_off dir"
    using packet_mac_parts [of p] by metis
  have t: "packet_type_from_u8 (tb AND 0xf) = Some t"
    using assms(2) out_parts(3) [OF l(2), of tb c] hdr_parts(1) [OF l(2), of tb] by (simp add: packet_of_def p)
  have meta: "get_meta (out_header p) = r @ [tb]" "out_content p = c"
    using out_parts(1,3) [of "m @ r" dir tb c] l by (simp_all add: get_meta_def p)
  show ?thesis
  proof (cases "env_enc env (fst kn) (snd kn) (r @ [tb]) c")
    case None
    then show ?thesis by (simp add: encrypt_key_nonce_def meta)
  next
    case (Some cm)
    obtain c' mac where cm: "cm = (c', mac)" by (cases cm)
    have e: "length c' = length c" "length mac = 8"
      using assms(1) Some by (auto simp: env_ok_def cm)
    have "packet_of t dir \<lparr>out_dir = dir, out_data = (mac @ r) @ tb # c'\<rparr>"
      unfolding packet_of_parts using t e(2) l
      by (intro exI [of _ "mac @ r"] exI [of _ tb] exI [of _ c']) simp
    then show ?thesis
      unfolding p
      using encrypt_key_nonce_parts [where enc = "env_enc env" and kn = kn and r = r and tb = tb
          and c = c and c' = c' and mac = mac, OF l] Some e by (simp add: cm)
  qed
qed

lemma create_key_nonce_shape:
  assumes "cache_shape cache" "t \<noteq> Init"
  shows "\<exists>kn cache'. create_key_nonce sha256 t c_id pid gen iv cache =
    (Ok (kn, cache') :: (ts_error, _) outcome) \<and> cache_shape cache'"
proof -
  have i: "type_index t < length cache" using assms type_index_less by (simp add: cache_shape_def)
  moreover from i assms(1) have row: "length (cache ! type_index t) = 2" by (simp add: cache_shape_def)
  moreover have "cache_shape (cache[type_index t := (cache ! type_index t)[j := e]])" for j e
    using assms(1) row set_update_subset_insert [of cache "type_index t"] by (fastforce simp: cache_shape_def)
  ultimately show ?thesis
    by (auto simp: create_key_nonce_def Let_def outcome_simps)
qed

lemma encrypt_ok:
  assumes "env_ok env" "packet_of t dir p" "cache_shape cache" "t \<noteq> Init"
  shows "no_panic (\<lambda>(p', cache'). packet_of t dir p' \<and> cache_shape cache')
    (encrypt (env_sha256 env) (env_enc env) p gen iv cache)"
proof -
  have t: "hdr_packet_type (out_header p) = Some t" using assms(2) by (simp add: packet_of_def)
  obtain kn cache' where c: "create_key_nonce (env_sha256 env) t (hdr_client_id (out_header p))
      (hdr_packet_id (out_header p)) gen iv cache = (Ok (kn, cache') :: (ts_error, _) outcome)"
    "cache_shape cache'"
    using create_key_nonce_shape [OF assms(3,4)] by blast
  from packet_of_encrypt [OF assms(1,2), of kn] c show ?thesis
    by (cases "encrypt_key_nonce (env_enc env) p kn") (simp_all add: encrypt_def t Let_def)
qed

section \<open>Encoding\<close>

lemma encode_one_params:
  "encode_one env t should fake p con = (res, con') \<Longrightarrow>
   (con_params con' = None) = (con_params con = None) \<and> is_client con' = is_client con"
  by (auto simp: encode_one_def Let_def bind_con_cases split: if_splits option.splits outcome.splits)

lemma con_ok_params:
  "con_ok con \<Longrightarrow> con_params con = Some params \<Longrightarrow> cache_shape cache \<Longrightarrow>
   con_ok (con\<lparr>con_params := Some (params\<lparr>par_key_cache := cache\<rparr>)\<rparr>)"
  by (simp add: con_ok_def in_dir_def)

lemma codec_ok_outgoing:
  "codec_ok dir c \<Longrightarrow> length ids = 8 \<Longrightarrow> codec_ok dir (c\<lparr>outgoing_p_ids := ids\<rparr>)"
  "codec_ok dir c \<Longrightarrow> length ids = 8 \<Longrightarrow> codec_ok dir (c\<lparr>incoming_p_ids := ids\<rparr>)"
  by (simp_all add: codec_ok_def get_channel_def channel_ok_def Let_def)

lemma yields_encode_one:
  assumes "env_ok env" "con_ok con" "is_client con = client" "packet_of t dir p"
    and "should \<Longrightarrow> t \<noteq> Init \<and> (fake \<or> con_params con \<noteq> None)"
  shows "yields allow client (\<lambda>u. packet_of t dir (udp_data u)) (encode_one env t should fake p con)"
proof -
  define p_id where "p_id = (if t = Init then PartialPacketId 0 0
    else outgoing_p_ids (con_codec con) ! type_index t)"
  define q where "q = (if t = Init then p else set_packet_id (packet_id p_id) p)"
  have q: "packet_of t dir q" using assms(4) by (auto simp: q_def packet_of_set_packet_id)
  let ?finish = "\<lambda>packet con. let p_id = ppid_add p_id 1; c = con_codec con;
      con = (if t = Init then con else con\<lparr>con_codec := c\<lparr>outgoing_p_ids :=
                (outgoing_p_ids c)[type_index t := p_id]\<rparr>\<rparr>)
    in (Ok \<lparr>udp_generation_id = generation_id p_id, udp_data = packet\<rparr>, con)"
  let ?m = "if fake then (encrypt_fake (env_enc env) q, con)
    else if should then
      (case con_params con of
         None \<Rightarrow> (Panic, con)
       | Some params \<Rightarrow>
           (case encrypt (env_sha256 env) (env_enc env) q (generation_id p_id)
                   (par_shared_iv params) (par_key_cache params) of
              Ok (packet, cache) \<Rightarrow>
                (Ok packet, con\<lparr>con_params := Some (params\<lparr>par_key_cache := cache\<rparr>)\<rparr>)
            | Err e \<Rightarrow> (Err e, con)
            | Panic \<Rightarrow> (Panic, con)))
    else (Ok q, con)"
  have "yields allow client (packet_of t dir) ?m"
  proof (cases "fake \<or> \<not> should")
    case True
    then show ?thesis
      using packet_of_encrypt [OF assms(1) q] assms(2,3) q
      by (auto simp: encrypt_fake_def yields_pair)
  next
    case False
    then obtain params where params: "con_params con = Some params" and t: "t \<noteq> Init"
      using assms(5) by auto
    have "cache_shape (par_key_cache params)" using assms(2) params by (simp add: con_ok_def)
    from encrypt_ok [OF assms(1) q this t, of "generation_id p_id" "par_shared_iv params"] False params
    show ?thesis
      using assms(2,3) by (auto simp: yields_pair con_ok_params no_panic_def split: outcome.splits)
  qed
  then have "yields allow client (\<lambda>u. packet_of t dir (udp_data u)) (bind_con ?m ?finish)"
  proof (rule yields_bind)
    fix x con1 assume x: "packet_of t dir x" and con1: "con_ok con1" "is_client con1 = client"
    have c: "codec_ok (in_dir con1) (con_codec con1)" "length (outgoing_p_ids (con_codec con1)) = 8"
      using con_okD(2) [OF con1(1)] by (simp_all add: codec_ok_def)
    then show "yields allow client (\<lambda>u. packet_of t dir (udp_data u)) (?finish x con1)"
      using x con1 by (simp add: Let_def yields_pair con_ok_codec codec_ok_outgoing)
  qed
  then show ?thesis
    unfolding encode_one_def Let_def p_id_def [symmetric] q_def [symmetric] by (simp add: Let_def)
qed

lemma yields_encode_all:
  assumes "env_ok env" "con_ok con" "is_client con = client" "\<forall>p \<in> set ps. packet_of t dir p"
    and "should \<Longrightarrow> t \<noteq> Init \<and> (fake \<or> con_params con \<noteq> None)"
  shows "yields allow client (\<lambda>us. length us = length ps \<and> (\<forall>u \<in> set us. packet_of t dir (udp_data u)))
    (encode_all env t should fake ps con)"
  using assms(2-)
proof (induction ps arbitrary: con)
  case (Cons p ps)
  obtain r con1 where one: "encode_one env t should fake p con = (r, con1)"
    by (cases "encode_one env t should fake p con")
  have y: "yields allow client (\<lambda>u. packet_of t dir (udp_data u)) (r, con1)"
    using yields_encode_one [OF assms(1) Cons.prems(1,2), of t dir p should fake] Cons.prems(3,4)
    by (simp add: one)
  show ?case
  proof (cases r)
    case (Ok u)
    have c1: "con_ok con1" "is_client con1 = client" "packet_of t dir (udp_data u)"
      using y Ok by (simp_all add: yields_pair)
    have "yields allow client (\<lambda>us. length us = length ps \<and> (\<forall>u \<in> set us. packet_of t dir (udp_data u)))
        (encode_all env t should fake ps con1)"
      by (rule Cons.IH [OF c1(1,2)]) (use Cons.prems(3,4) encode_one_params [OF one] in auto)
    then have "yields allow client (\<lambda>us. length us = length (p # ps) \<and> (\<forall>u \<in> set us. packet_of t dir (udp_data u)))
        (bind_con (encode_all env t should fake ps con1) (\<lambda>us con. (Ok (u # us), con)))"
      by (rule yields_bind) (use c1(3) in \<open>auto simp: yields_pair\<close>)
    then show ?thesis by (simp add: one Ok)
  qed (use y one in \<open>auto simp: yields_pair\<close>)
qed (simp add: yields_pair)

lemma fragment_byte_type: "fragment_byte tb compressed len i AND 0xf = tb AND 0xf"
  by (auto simp: fragment_byte_def bit.conj_disj_distrib2 COMPRESSED_def FRAGMENTED_def)

lemma compress_and_split_packets:
  assumes "packet_of t (dir_of client) p" "is_command t"
  shows "\<exists>ps. compress_and_split compress client p = (Ok ps :: ('e, _) outcome) \<and> ps \<noteq> [] \<and>
    (\<forall>q \<in> set ps. packet_of t (dir_of client) q)"
proof -
  from assms(1) obtain h tb c where p: "p = \<lparr>out_dir = dir_of client, out_data = h @ tb # c\<rparr>"
    "length h = get_off (dir_of client)" "packet_type_from_u8 (tb AND 0xf) = Some t"
    by (auto simp: packet_of_parts)
  have "t \<noteq> VoiceWhisper" using assms(2) by (auto simp: is_command_def)
  note eq = compress_and_split_parts [OF p(1,2) refl p(3) this, of compress]
  have "packet_of t (dir_of client) \<lparr>out_dir = dir_of client, out_data =
      h @ fragment_byte tb comp len i # v\<rparr>" for comp len i v
    unfolding packet_of_parts using p(2,3)
    by (intro exI [of _ h] exI [of _ "fragment_byte tb comp len i"] exI [of _ v])
      (simp add: fragment_byte_type)
  moreover have "enumerate 0 (wire_pieces compress p) \<noteq> []"
    by (metis length_0_conv length_enumerate split_loop_nonempty wire_pieces_def)
  ultimately show ?thesis
    unfolding eq by (auto split: prod.splits)
qed

text \<open>The setters keep the length of a packet, so the content keeps its length.\<close>

lemma length_out_content: "length (out_content p) = length (out_data p) - header_len (out_dir p)"
  by (simp add: out_content_def)

lemma length_setters:
  assumes "packet_of t dir p"
  shows "length (out_data (or_flags f p)) = length (out_data p)"
    and "length mac = 8 \<Longrightarrow> length (out_data (set_mac mac p)) = length (out_data p)"
    and "set_client_id i p = (Ok q :: ('e, _) outcome) \<Longrightarrow> length (out_data q) = length (out_data p)"
  using assms header_len_bounds [of dir]
  by (auto simp: packet_of_def wf_out_def or_flags_def set_flags_def set_mac_def set_client_id_def
      Let_def length_splice split: if_splits)

lemma packet_of_splice_content:
  assumes "packet_of t dir p"
  shows "packet_of t dir (p\<lparr>out_data := splice (header_len dir) new (out_data p)\<rparr>)"
proof -
  from assms obtain h tb c where p: "p = \<lparr>out_dir = dir, out_data = h @ tb # c\<rparr>" "length h = get_off dir"
    "packet_type_from_u8 (tb AND 0xf) = Some t" by (auto simp: packet_of_parts)
  then show ?thesis
    unfolding packet_of_parts
    by (intro exI [of _ h] exI [of _ tb] exI [of _ "new @ drop (length new) c"])
      (simp add: splice_def header_len_Suc)
qed

lemma flags_low: "NEWPROTOCOL AND 0xf = 0" "UNENCRYPTED AND 0xf = 0"
  by (simp_all add: flag_defs)

text \<open>
  Encoding succeeds or fails with an error; on the client the two bytes of the inner id of a voice
  packet have to be there.
\<close>

lemma should_encrypt_Init [simp]: "\<not> should_encrypt Init v"
  by (simp add: should_encrypt_def is_voice_def)

lemma yields_encode_packet:
  assumes "env_ok env" "con_ok con" "is_client con = client" "packet_of t (dir_of client) p"
    and "client \<and> is_voice t \<Longrightarrow> 2 \<le> length (out_content p)"
  shows "yields allow client (\<lambda>us. us \<noteq> [] \<and> (\<not> is_command t \<longrightarrow> length us = 1) \<and>
      (\<forall>u \<in> set us. packet_of t (dir_of client) (udp_data u))) (encode_packet env p con)"
proof -
  let ?dir = "dir_of client" and ?Q = "\<lambda>q. packet_of t (dir_of client) q \<and> length (out_data q) = length (out_data p)"
  let ?R = "\<lambda>us. us \<noteq> [] \<and> (\<not> is_command t \<longrightarrow> length us = 1) \<and>
      (\<forall>u \<in> set us. packet_of t (dir_of client) (udp_data u))"
  define p1 where "p1 = (if is_command t \<and> client then or_flags NEWPROTOCOL p else p)"
  have p1: "?Q p1"
    using assms(4) by (auto simp: p1_def packet_of_or_flags flags_low length_setters)
  define fake0 where "fake0 = fake_encrypt client t (if t = Init then PartialPacketId 0 0
    else outgoing_p_ids (con_codec con) ! type_index t) p1"
  define should where "should = (case con_params con of
    Some params \<Rightarrow> should_encrypt t (par_voice_encryption params) | None \<Rightarrow> should_encrypt t False)"
  define fake where "fake = (case con_params con of
    Some params \<Rightarrow> fake0 | None \<Rightarrow> fake0 \<or> should_encrypt t False)"
  define c_id where "c_id = (case con_params con of Some params \<Rightarrow> par_c_id params | None \<Rightarrow> 0)"
  have sfc: "(case con_params con of
        Some params \<Rightarrow> (should_encrypt t (par_voice_encryption params), fake0, par_c_id params)
      | None \<Rightarrow> (should_encrypt t False, fake0 \<or> should_encrypt t False, 0)) = (should, fake, c_id)"
    by (simp add: should_def fake_def c_id_def split: option.split)
  have ok: "should \<Longrightarrow> t \<noteq> Init \<and> (fake \<or> con_params con \<noteq> None)"
    by (cases "t = Init"; cases "con_params con") (simp_all add: should_def fake_def)
  let ?mark = "\<lambda>packet. if \<not> should \<and> \<not> fake then
      (case con_params con of
         Some params \<Rightarrow> set_mac (par_shared_mac params) (or_flags UNENCRYPTED packet)
       | None \<Rightarrow> or_flags UNENCRYPTED packet)
    else packet"
  have mark: "?Q (?mark q)" if q: "?Q q" for q
  proof -
    let ?u = "or_flags UNENCRYPTED q"
    have u: "packet_of t ?dir ?u" "length (out_data ?u) = length (out_data p)"
      using q packet_of_or_flags [OF conjunct1 [OF q] flags_low(2)] length_setters(1) [OF conjunct1 [OF q]]
      by simp_all
    show ?thesis
    proof (cases "con_params con")
      case None
      with u q show ?thesis by simp
    next
      case (Some params)
      then have "length (par_shared_mac params) = 8" using assms(2) by (simp add: con_ok_def)
      with u q Some show ?thesis
        using packet_of_set_mac [OF u(1)] length_setters(2) [OF u(1)] by simp
    qed
  qed
  let ?pieces = "\<lambda>packet. if is_command t then compress_and_split (env_compress env) client packet
    else if client \<and> is_voice t then
      (if length (out_content packet) < 2 then Panic
       else Ok [packet\<lparr>out_data := splice (content_offset packet)
             (write_be16 (packet_id (outgoing_p_ids (con_codec con) ! type_index t))) (out_data packet)\<rparr>])
    else Ok [packet]"
  have pieces: "no_panic (\<lambda>ps. ps \<noteq> [] \<and> (\<not> is_command t \<longrightarrow> length ps = 1) \<and>
      (\<forall>q \<in> set ps. packet_of t ?dir q)) (?pieces q :: (ts_error, _) outcome)" if Qq: "?Q q" for q
  proof -
    have d: "out_dir q = ?dir" "out_dir p = ?dir" using that assms(4) by (simp_all add: packet_of_def)
    show ?thesis
    proof (cases "is_command t")
      case True
      then obtain ps where "compress_and_split (env_compress env) client q = (Ok ps :: (ts_error, _) outcome)"
        "ps \<noteq> []" "\<forall>q \<in> set ps. packet_of t ?dir q"
        using Qq compress_and_split_packets [where 'e = ts_error, of t client q "env_compress env"] by blast
      with True show ?thesis by simp
    next
      case False
      with that assms(5) d show ?thesis
        by (auto simp: length_out_content packet_of_splice_content)
    qed
  qed
  have rest: "yields allow client ?R (bind_con (?pieces q, con)
      (\<lambda>packets con. encode_all env t should fake packets con))" if "?Q q" for q
  proof (rule yields_bind_lift [OF pieces [OF that] assms(2,3)])
    fix ps assume "ps \<noteq> [] \<and> (\<not> is_command t \<longrightarrow> length ps = 1) \<and> (\<forall>q \<in> set ps. packet_of t ?dir q)"
    then show "yields allow client ?R (encode_all env t should fake ps con)"
      by (intro yields_weaken [OF yields_encode_all [OF assms(1-3) _ ok]]) auto
  qed
  have "no_panic ?Q (if client then set_client_id c_id p1 else Ok p1 :: (ts_error, _) outcome)"
  proof (cases client)
    case True
    then have "packet_of t C2S p1" using p1 by (simp add: dir_of_def)
    then obtain q where q: "set_client_id c_id p1 = (Ok q :: (ts_error, _) outcome)" "packet_of t C2S q"
      using packet_of_set_client_id by blast
    with p1 True show ?thesis
      using length_setters(3) [OF \<open>packet_of t C2S p1\<close> q(1)] by (simp add: dir_of_def)
  qed (use p1 in simp)
  note np = this
  have "hdr_packet_type (out_header p) = Some t" using assms(4) by (simp add: packet_of_def)
  then show ?thesis
    unfolding encode_packet_def
    by (simp only: Let_def assms(3) p1_def [symmetric] fake0_def [symmetric] sfc unwrap.simps
        bind_con.simps prod.case)
      (rule yields_bind_lift [OF np assms(2,3)], rule rest, rule mark)
qed

section \<open>Incoming packets\<close>

lemma static_poll_con:
  assumes "static_poll_send_udp_packet env packet con = (res, con')"
  shows "con_ok con' = con_ok con" "is_client con' = is_client con" "res \<noteq> Some Panic"
  using assms
  by (auto simp: static_poll_send_udp_packet_def Let_def split: send_poll.splits if_splits)

lemma handle_loss_outgoing_ok:
  assumes "packet_of t dir (udp_data u)" "resender_ok r"
  shows "no_panic resender_ok (handle_loss_outgoing u r)"
  using assms
  by (simp add: handle_loss_outgoing_def udp_packet_type_def packet_of_def Let_def resender_ok_fields)

lemma handle_loss_incoming_ok:
  assumes "hdr_packet_type (pkt_header p) \<noteq> None" "resender_ok r"
  shows "no_panic resender_ok (handle_loss_incoming p w n r)"
  using assms by (auto simp: handle_loss_incoming_def Let_def resender_ok_fields)

lemma yields_send_ack:
  assumes "env_ok env" "con_ok con" "is_client con = client" "packet_of t (dir_of client) p"
    and "\<not> is_command t" "\<not> is_voice t"
  shows "yields allow client (\<lambda>_. True) (send_ack_packet env p con)"
  unfolding send_ack_packet_def
proof (rule yields_bind)
  show "yields allow client (\<lambda>us. us \<noteq> [] \<and> (\<not> is_command t \<longrightarrow> length us = 1) \<and>
      (\<forall>u \<in> set us. packet_of t (dir_of client) (udp_data u)))
      (encode_packet env p (send_event (SendPacket p) con))"
    by (rule yields_encode_packet [OF assms(1)]) (use assms in simp_all)
  fix us :: "out_udp_packet list" and con1
  assume us: "us \<noteq> [] \<and> (\<not> is_command t \<longrightarrow> length us = 1) \<and>
      (\<forall>u \<in> set us. packet_of t (dir_of client) (udp_data u))"
    and con1: "con_ok con1" "is_client con1 = client"
  obtain u where u: "us = [u]" "packet_of t (dir_of client) (udp_data u)"
    using us assms(5) by (cases us) auto
  obtain sent con2 where s: "static_poll_send_udp_packet env u con1 = (sent, con2)"
    by (cases "static_poll_send_udp_packet env u con1")
  note c2 = static_poll_con [OF s]
  have "yields allow client (\<lambda>_. True) (bind_con (res, con2)
      (\<lambda>_ con. on_resender (handle_loss_outgoing u) con))" if "sent = Some res" for res
  proof (rule yields_bind_lift)
    show "no_panic (\<lambda>_. True) res" using c2(3) that by (cases res) simp_all
    show "con_ok con2" "is_client con2 = client" using c2 con1 by simp_all
    then show "yields allow client (\<lambda>_. True) (on_resender (handle_loss_outgoing u) con2)" for x :: unit
      using handle_loss_outgoing_ok [OF u(2)] con_okD(1) by (intro yields_resender) auto
  qed
  then show "yields allow client (\<lambda>_. True) (case us of
       [packet] \<Rightarrow>
         (case static_poll_send_udp_packet env packet con1 of
            (None, con) \<Rightarrow> (Ok (), con\<lparr>acks_to_send := acks_to_send con @ [packet]\<rparr>)
          | (Some res, con) \<Rightarrow>
              bind_con (res, con) (\<lambda>_ con. on_resender (handle_loss_outgoing packet) con))
     | _ \<Rightarrow> (Panic, con1))"
    using c2 con1 by (cases sent) (simp_all add: u(1) s yields_pair)
qed

lemma reverse_in_dir: "reverse_dir (in_dir con) = dir_of (is_client con)"
  by (simp add: in_dir_def dir_of_def)

lemma out_ack_packet:
  assumes "t \<in> {Command, CommandLow, Ping}"
  shows "\<exists>p. out_ack dir t pid = (Ok p :: (ts_error, _) outcome) \<and>
    (\<exists>t'. packet_of t' dir p \<and> \<not> is_command t' \<and> \<not> is_voice t')"
proof -
  have ok: "packet_of t' dir (out_extend (write_be16 pid) (out_new_with_dir dir 0 t'))" for t'
    unfolding packet_of_parts
    by (rule exI [of _ "replicate (get_off dir) 0"], rule exI [of _ "packet_type_to_u8 t'"],
        rule exI [of _ "write_be16 pid"])
      (use type_byte_low [of 0 t'] in \<open>simp add: out_extend_def out_new_with_dir_eq\<close>)
  show ?thesis
    using assms ok by (auto simp: out_ack_def is_command_def is_voice_def)
qed

text \<open>A datagram whose header is complete and of a known type.\<close>

definition datagram_of :: "packet_type \<Rightarrow> direction \<Rightarrow> bytes \<Rightarrow> bool" where
  "datagram_of t dir d \<longleftrightarrow> stored_ok dir d \<and> packet_type_from_u8 (d ! get_off dir AND 0xf) = Some t"

lemma datagram_packet:
  assumes "datagram_of t dir d"
  obtains p where "in_packet_new dir d = (Ok p :: (ts_error, _) outcome)"
    and "hdr_packet_type (pkt_header p) = Some t" "hdr_direction (pkt_header p) = dir"
    and "hdr_data (pkt_header p) = take (header_len dir) d" "pkt_content p = drop (header_len dir) d"
proof -
  have "header_len dir \<le> length d" using assms by (simp add: datagram_of_def stored_ok_def)
  with assms show ?thesis
    by (intro that [of "\<lparr>pkt_header = \<lparr>hdr_direction = dir, hdr_data = take (header_len dir) d\<rparr>,
          pkt_content = drop (header_len dir) d\<rparr>"])
      (simp_all add: in_packet_new_eq datagram_of_def hdr_packet_type_def header_len_Suc)
qed

lemma datagram_same_header:
  assumes "datagram_of t dir d" "take (header_len dir) d' = take (header_len dir) d" "length d' = length d"
  shows "datagram_of t dir d'"
proof -
  have "d' ! get_off dir = d ! get_off dir"
    using assms nth_take [of "get_off dir" "header_len dir" d'] nth_take [of "get_off dir" "header_len dir" d]
    by (simp add: header_len_Suc)
  with assms show ?thesis by (simp add: datagram_of_def stored_ok_def)
qed

lemma decrypt_key_nonce_no_panic:
  assumes "env_ok env" "hdr_packet_type (pkt_header p) = Some t"
  shows "no_panic (\<lambda>c. length c = length (pkt_content p)) (decrypt_key_nonce (env_dec env) p kn)"
  using assms by (auto simp: decrypt_key_nonce_def Let_def env_ok_def split: option.split)

lemma map_err_no_panic: "no_panic Q m \<Longrightarrow> no_panic Q (map_err f m)"
  by (cases m) simp_all

lemma yields_decrypt_with_params:
  assumes "env_ok env" "hdr_packet_type (pkt_header p) = Some t" "t \<noteq> Init"
    and "con_ok con" "is_client con = client" "con_params con = Some params"
  shows "yields allow client (no_panic (\<lambda>c. length c = length (pkt_content p)))
    (decrypt_with_params env p gen params con)"
proof -
  have "cache_shape (par_key_cache params)" using assms(4,6) by (simp add: con_ok_def)
  then obtain kn cache' where c: "create_key_nonce (env_sha256 env) t (hdr_client_id (pkt_header p))
      (hdr_packet_id (pkt_header p)) gen (par_shared_iv params) (par_key_cache params) =
      (Ok (kn, cache') :: (ts_error, _) outcome)" "cache_shape cache'"
    using create_key_nonce_shape [OF _ assms(3)] by blast
  from map_err_no_panic [OF decrypt_key_nonce_no_panic [OF assms(1,2), of kn]] c assms show ?thesis
    by (simp add: decrypt_with_params_def decrypt_def Let_def yields_pair con_ok_params)
qed

lemma params_error_no_panic:
  assumes "hdr_direction (pkt_header p) = in_dir con" "hdr_packet_type (pkt_header p) = Some t"
  shows "no_panic (\<lambda>r. r = None \<longrightarrow> con_params con = None \<or> t \<noteq> Init) (params_error con p t gen pid)"
  using assms
  by (auto simp: params_error_def hdr_client_id_def in_dir_def Let_def split: option.split)

lemma yields_decrypt_incoming:
  assumes "env_ok env" "con_ok con" "is_client con = client" "datagram_of t dir d"
    and p: "in_packet_new dir d = (Ok p :: (ts_error, _) outcome)"
    and init: "con_params con = None \<or> t \<noteq> Init"
  shows "yields allow client (\<lambda>r. \<forall>d'. r = Some d' \<longrightarrow> datagram_of t dir d' \<and> length d' = length d)
    (decrypt_incoming env p t gen pid d con)"
proof -
  let ?Q = "\<lambda>r. \<forall>d'. r = Some d' \<longrightarrow> datagram_of t dir d' \<and> length d' = length d"
  have pt: "hdr_packet_type (pkt_header p) = Some t" "hdr_data (pkt_header p) = take (header_len dir) d"
    "pkt_content p = drop (header_len dir) d" "header_len dir \<le> length d"
    using datagram_packet [OF assms(4)] p assms(4) by (metis outcome.inject(1) datagram_of_def stored_ok_def)+
  define finish :: "(ts_error, bytes) outcome \<Rightarrow> connection \<Rightarrow> bytes option con_result" where "finish = (\<lambda>res con. case res of
      Err e \<Rightarrow> (Ok None, push_item (ItemError e) con)
    | Panic \<Rightarrow> (Panic, con)
    | Ok new_content \<Rightarrow>
        let start = length (hdr_data (pkt_header p)) in
        if length new_content \<noteq> length d - start then (Panic, con)
        else (Ok (Some (take start d @ new_content)), con))"
  have same: "datagram_of t dir (take (header_len dir) d @ c)" if "length c = length d - header_len dir" for c
    by (rule datagram_same_header [OF assms(4)]) (use pt(4) that in auto)
  have fin: "yields allow client ?Q (finish res con1)"
    if "no_panic (\<lambda>c. length c = length (pkt_content p)) res" "con_ok con1" "is_client con1 = client" for res con1
    using that same pt by (cases res) (auto simp: finish_def yields_pair Let_def)
  have params: "yields allow client ?Q (bind_con (decrypt_with_params env p gen params con) finish)"
    if "con_params con = Some params" for params
  proof -
    have "t \<noteq> Init" using init that by simp
    from yields_bind [OF yields_decrypt_with_params [OF assms(1) pt(1) this assms(2,3) that] fin]
    show ?thesis .
  qed
  have fake: "no_panic (\<lambda>c. length c = length (pkt_content p)) (decrypt_fake (env_dec env) p)"
    unfolding decrypt_fake_def by (rule decrypt_key_nonce_no_panic [OF assms(1) pt(1)])
  have "yields allow client ?Q (case decrypt_fake (env_dec env) p of
        Ok c \<Rightarrow> finish (Ok c) con
      | Panic \<Rightarrow> (Panic, con)
      | Err _ \<Rightarrow>
          (case con_params con of
             Some params \<Rightarrow> bind_con (decrypt_with_params env p gen params con) finish
           | None \<Rightarrow> finish (Err (WrongMac t gen pid)) con))"
    using fake fin [OF _ assms(2,3)] params
    by (cases "decrypt_fake (env_dec env) p"; cases "con_params con") simp_all
  moreover have "yields allow client ?Q (case con_params con of
        Some params \<Rightarrow> bind_con (decrypt_with_params env p gen params con) finish
      | None \<Rightarrow> finish (Err (WrongMac t gen pid)) con)"
    using fin [OF _ assms(2,3)] params by (cases "con_params con") simp_all
  ultimately show ?thesis
    using assms(2-4) unfolding decrypt_incoming_def finish_def [symmetric] Let_def [of "is_client con"]
    by (auto simp: yields_pair Let_def [of finish])
qed

lemma yields_handshake_ack:
  "con_ok con \<Longrightarrow> is_client con = client \<Longrightarrow> yields allow client (\<lambda>_. True) (handshake_ack env c con)"
  by (auto simp: handshake_ack_def yields_pair intro: yields_ack_packet)

lemma yields_deliver_commands:
  "con_ok con \<Longrightarrow> is_client con = client \<Longrightarrow> \<forall>d \<in> set ds. stored_ok dir d \<Longrightarrow>
   yields allow client (\<lambda>_. True) (deliver_commands env dir ds con)"
proof (induction ds arbitrary: con)
  case (Cons d ds)
  obtain p where p: "in_packet_new dir d = (Ok p :: (ts_error, _) outcome)"
    using Cons.prems(3) by (auto simp: stored_ok_def in_packet_new_eq)
  have "yields allow client (\<lambda>_. True)
    (bind_con (handshake_ack env (pkt_content p) (send_event (ReceivePacket p) con))
      (\<lambda>_ con. deliver_commands env dir ds (push_item (ItemCommand p) con)))"
    by (rule yields_bind [OF yields_handshake_ack]) (use Cons in auto)
  then show ?case by (simp add: p)
qed (simp add: yields_pair)

text \<open>The datagrams on which a server panics: voice packets with an unknown codec that are too short.\<close>

definition bad_voice :: "connection \<Rightarrow> packet_type \<Rightarrow> nat \<Rightarrow> bool" where
  "bad_voice con t len \<longleftrightarrow> \<not> is_client con \<and> is_voice t \<and> (len = 3 \<or> len = 4)"

lemma into_audio_no_panic:
  assumes "hdr_packet_type (pkt_header p) = Some t" "hdr_direction (pkt_header p) = in_dir con"
    and "\<not> bad_voice con t (length (pkt_content p))" "is_voice t"
  shows "into_audio p \<noteq> Panic"
  using assms
  by (auto simp: into_audio_def Let_def bind_out_eq_Panic_iff audio_parse_panics bad_voice_def in_dir_def
      split: if_splits)

lemma yields_other_item:
  assumes "hdr_packet_type (pkt_header p) = Some t" "hdr_direction (pkt_header p) = in_dir con"
    and "allow \<or> \<not> bad_voice con t (length (pkt_content p))" and "con_ok con" "is_client con = client"
  shows "yields allow client (\<lambda>_. True) (other_item (is_client con) t p con)"
  using assms(3-5) into_audio_no_panic [OF assms(1,2)] checks_no_panic [OF assms(1)]
  by (auto simp: other_item_def yields_pair split: outcome.split)

lemma ack_packet_type:
  assumes "ack_packet p = Ok (Some i)" "hdr_packet_type (pkt_header p) = Some t"
  shows "acked_type t = Ping \<or> packet_type_to_index (acked_type t) \<noteq> None"
proof -
  have "is_ack t \<or> t = Init"
    using assms by (auto simp: ack_packet_def split: if_splits)
  then show ?thesis by (auto simp: is_ack_def acked_type_def)
qed

lemma yields_handle_other:
  assumes "con_ok con" "is_client con = client" "datagram_of t (in_dir con) d"
    and "allow \<or> \<not> bad_voice con t (length d - header_len (in_dir con))"
  shows "yields allow client (\<lambda>_. True) (handle_other env t gen pid d con)"
proof -
  obtain p where p: "in_packet_new (in_dir con) d = (Ok p :: (ts_error, _) outcome)"
    "hdr_packet_type (pkt_header p) = Some t" "hdr_direction (pkt_header p) = in_dir con"
    "pkt_content p = drop (header_len (in_dir con)) d"
    using datagram_packet [OF assms(3)] by metis
  define con1 where "con1 = (if t = Init then con
    else let (next, next_gen) = overflowing_add16 pid 1 in
      con\<lparr>con_codec := (con_codec con)\<lparr>incoming_p_ids := (incoming_p_ids (con_codec con))[type_index t :=
        PartialPacketId (if next_gen then gen + 1 else gen) next]\<rparr>\<rparr>)"
  have "codec_ok (in_dir con) (con_codec con)" by (rule con_okD(2) [OF assms(1)])
  then have c1: "con_ok con1" "is_client con1 = client"
    using assms(1,2) codec_ok_outgoing(2) [of "in_dir con" "con_codec con"]
    by (auto simp: con1_def con_ok_codec codec_ok_def split: prod.split)
  have d1: "in_dir con1 = in_dir con" using c1(2) assms(2) by (simp add: in_dir_def)
  have item: "yields allow client (\<lambda>_. True) (bind_con
      (other_item (is_client con2) t p (send_event (ReceivePacket p) con2)) (\<lambda>_ con. (Ok True, con)))"
    if c2: "con_ok con2" "is_client con2 = client" for con2
  proof -
    let ?con = "send_event (ReceivePacket p) con2"
    have "in_dir ?con = in_dir con" "bad_voice ?con = bad_voice con"
      using c2(2) assms(2) by (simp_all add: in_dir_def bad_voice_def fun_eq_iff)
    then have "yields allow client (\<lambda>_. True) (other_item (is_client ?con) t p ?con)"
      using assms(4) p c2 by (intro yields_other_item) simp_all
    from yields_bind [OF this, of "\<lambda>_. True" "\<lambda>_ con. (Ok True, con)"] show ?thesis
      by (simp add: yields_pair)
  qed
  have "yields allow client (\<lambda>_. True) (case ack_packet p of
           Err e \<Rightarrow> (Ok False, push_item (ItemError (CreateAck e)) con1)
         | Panic \<Rightarrow> (Panic, con1)
         | Ok ack_id \<Rightarrow>
             bind_con
               (case ack_id of
                  Some i \<Rightarrow> resend_ack_packet (env_now env) (acked_type t) i con1
                | None \<Rightarrow> (Ok (), con1))
               (\<lambda>_ con. bind_con
                  (other_item (is_client con) t p (send_event (ReceivePacket p) con))
                  (\<lambda>_ con. (Ok True, con))))"
  proof (cases "ack_packet p")
    case (Ok a)
    have "yields allow client (\<lambda>_. True) (case a of
        Some i \<Rightarrow> resend_ack_packet (env_now env) (acked_type t) i con1 | None \<Rightarrow> (Ok (), con1))"
    proof (cases a)
      case (Some i)
      with yields_ack_packet [OF c1 ack_packet_type [OF Ok [unfolded Some] p(2)]] show ?thesis by simp
    qed (use c1 in \<open>simp add: yields_pair\<close>)
    from yields_bind [OF this item] Ok show ?thesis by simp
  qed (use c1 checks_no_panic(1) [OF p(2)] in \<open>auto simp: yields_pair\<close>)
  then show ?thesis
    unfolding handle_other_def Let_def [of "con_codec con"] con1_def [symmetric] Let_def [of con1]
    by (simp add: d1 p(1))
qed

lemma same_client:
  "is_client con1 = is_client con \<Longrightarrow> in_dir con1 = in_dir con"
  "is_client con1 = is_client con \<Longrightarrow> bad_voice con1 = bad_voice con"
  by (simp_all add: in_dir_def bad_voice_def fun_eq_iff)

abbreviation answered :: "packet_type \<Rightarrow> bool \<Rightarrow> bool" where
  "answered t ack \<equiv> ack \<longrightarrow> t \<in> {Command, CommandLow, Ping}"

lemma yields_process_packet:
  assumes "con_ok con" "is_client con = client" "datagram_of t (in_dir con) d"
    and "allow \<or> \<not> bad_voice con t (length d - header_len (in_dir con))"
  shows "yields allow client (answered t) (process_packet env t gen pid d con)"
proof (cases "is_command t")
  case True
  have "yields allow client (answered t) (bind_con (handle_command_packet env t d con) (\<lambda>commands con.
      bind_con (deliver_commands env (in_dir con) commands con) (\<lambda>_ con. (Ok True, con))))"
  proof (rule yields_bind [OF yields_handle_command_packet [OF assms(1,2) True]])
    show "stored_ok (in_dir con) d" using assms(3) by (simp add: datagram_of_def)
    fix ps con2
    assume "\<forall>p \<in> set ps. stored_ok (in_dir con) p" "con_ok con2" "is_client con2 = client"
    then have "yields allow client (\<lambda>_. True) (deliver_commands env (in_dir con2) ps con2)"
      using same_client(1) [of con2 con] assms(2) by (simp add: yields_deliver_commands)
    from yields_bind [OF this, of "answered t" "\<lambda>_ con. (Ok True, con)"] True
    show "yields allow client (answered t)
        (bind_con (deliver_commands env (in_dir con2) ps con2) (\<lambda>_ con. (Ok True, con)))"
      by (auto simp: yields_pair is_command_def)
  qed
  with True show ?thesis by (simp add: process_packet_def)
next
  case False
  from yields_bind [OF yields_handle_other [OF assms], of "answered t"
      "\<lambda>go_on con. (Ok (go_on \<and> t = Ping), con)"] False
  show ?thesis by (simp add: yields_pair process_packet_def)
qed

lemma yields_receive_packet:
  assumes "env_ok env" "con_ok con" "is_client con = client" "datagram_of t (in_dir con) d"
    and "allow \<or> \<not> bad_voice con t (length d - header_len (in_dir con))"
    and p: "in_packet_new (in_dir con) d = (Ok p :: (ts_error, _) outcome)"
    and init: "con_params con = None \<or> t \<noteq> Init"
  shows "yields allow client (answered t) (receive_packet env p t gen pid d con)"
  unfolding receive_packet_def
proof (rule yields_bind [OF yields_decrypt_incoming [OF assms(1-4) p init]])
  fix r con1
  assume r: "\<forall>d'. r = Some d' \<longrightarrow> datagram_of t (in_dir con) d' \<and> length d' = length d"
    and c1: "con_ok con1" "is_client con1 = client"
  have same: "in_dir con1 = in_dir con" "bad_voice con1 = bad_voice con"
    using same_client [of con1 con] c1(2) assms(3) by simp_all
  show "yields allow client (answered t) (case r of
         None \<Rightarrow> (Ok False, con1)
       | Some packet_data \<Rightarrow> process_packet env t gen pid packet_data con1)"
  proof (cases r)
    case None
    with c1 show ?thesis by (simp add: yields_pair)
  next
    case (Some d')
    with yields_process_packet [OF c1, of t d' allow env gen pid] r assms(5) show ?thesis by (simp add: same)
  qed
qed

lemma yields_outside_window:
  "con_ok con \<Longrightarrow> is_client con = client \<Longrightarrow>
   yields allow client (answered t) (outside_window t pid nxt limit con)"
  by (auto simp: outside_window_def handle_loss_resend_ack_def Let_def yields_pair is_command_def
      con_ok_resender resender_ok_fields dest: con_okD(1))

lemma yields_answer_packet:
  assumes "env_ok env" "con_ok con" "is_client con = client" "answered t ack"
  shows "yields allow client (\<lambda>_. True) (answer_packet env t pid ack con)"
proof (cases ack)
  case True
  with assms(4) have t: "t \<in> {Command, CommandLow, Ping}" by simp
  obtain q t' where q: "out_ack (dir_of client) t pid = (Ok q :: (ts_error, _) outcome)"
    "packet_of t' (dir_of client) q" "\<not> is_command t'" "\<not> is_voice t'"
    using out_ack_packet [OF t] by blast
  show ?thesis
    using yields_send_ack [OF assms(1-3) q(2-4)] q(1) True reverse_in_dir [of con] assms(3)
    by (simp add: answer_packet_def)
qed (use assms in \<open>simp add: yields_pair answer_packet_def\<close>)

lemma yields_codec_handle_udp_packet:
  assumes "env_ok env" "con_ok con" "is_client con = client" "datagram_of t (in_dir con) d"
    and "allow \<or> \<not> bad_voice con t (length d - header_len (in_dir con))"
  shows "yields allow client (\<lambda>_. True) (codec_handle_udp_packet env d con)"
proof -
  obtain p where p: "in_packet_new (in_dir con) d = (Ok p :: (ts_error, _) outcome)"
    "hdr_packet_type (pkt_header p) = Some t" "hdr_direction (pkt_header p) = in_dir con"
    using datagram_packet [OF assms(4)] by metis
  let ?pid = "hdr_packet_id (pkt_header p)"
  obtain w gen nxt limit where win: "con_receive_window con t ?pid = (w, gen, nxt, limit)"
    by (metis prod_cases4)
  have loss: "yields allow client (\<lambda>_. True) (on_resender (handle_loss_incoming p w nxt) con)"
    by (rule yields_resender [OF assms(2,3) handle_loss_incoming_ok])
      (use p(2) con_okD(1) [OF assms(2)] in auto)
  show ?thesis
    unfolding codec_handle_udp_packet_def p(1) bind_con.simps p(2) unwrap.simps Let_def
      win prod.case
  proof (rule yields_bind [OF loss])
    fix u :: unit and con1 assume c1: "con_ok con1" "is_client con1 = client"
    have same: "in_dir con1 = in_dir con" "bad_voice con1 = bad_voice con"
      using same_client [of con1 con] c1(2) assms(3) by simp_all
    have "yields allow client (answered t)
        (if t \<in> {Ack, AckLow, Voice, VoiceWhisper} \<or> w
         then receive_packet env p t gen ?pid d con1 else outside_window t ?pid nxt limit con1)"
      if init: "con_params con1 = None \<or> t \<noteq> Init"
      using yields_receive_packet [OF assms(1) c1 _ _ _ init, of d allow p gen ?pid] yields_outside_window [OF c1]
        assms(4,5) p(1) by (simp add: same)
    then have rest: "yields allow client (\<lambda>_. True) (bind_con
        (if t \<in> {Ack, AckLow, Voice, VoiceWhisper} \<or> w
         then receive_packet env p t gen ?pid d con1 else outside_window t ?pid nxt limit con1)
        (answer_packet env t ?pid))" if "con_params con1 = None \<or> t \<noteq> Init"
      by (rule yields_bind) (use that yields_answer_packet [OF assms(1)] in blast)+
    show "yields allow client (\<lambda>_. True) (bind_con (params_error con1 p t gen ?pid, con1) (\<lambda>dropped con.
        case dropped of
          Some e \<Rightarrow> (Ok (), push_item (ItemError e) con)
        | None \<Rightarrow> bind_con
            (if t \<in> {Ack, AckLow, Voice, VoiceWhisper} \<or> w
             then receive_packet env p t gen ?pid d con else outside_window t ?pid nxt limit con)
            (answer_packet env t ?pid)))"
      by (rule yields_bind_lift [OF params_error_no_panic c1])
        (use p rest c1 in \<open>auto simp: same yields_pair split: option.split\<close>)
  qed
qed

section \<open>The invariant in every reachable state\<close>

text \<open>A datagram on which a server may panic.\<close>

definition short_voice :: "bytes \<Rightarrow> bool" where
  "short_voice d \<longleftrightarrow> (\<exists>t. datagram_of t C2S d \<and> is_voice t \<and>
     length d - header_len C2S \<in> {3, 4})"

lemma in_packet_try_new_datagram:
  assumes "in_packet_try_new dir d = Ok p"
  shows "\<exists>t. datagram_of t dir d"
  using in_packet_try_new_safe [OF assms] assms
  by (auto simp: in_packet_try_new_Ok_iff in_packet_new_Ok_iff datagram_of_def stored_ok_def
      hdr_packet_type_def header_len_Suc)

lemma yields_con_handle_udp_packet:
  assumes "env_ok env" "con_ok con" "is_client con = client"
    and "allow \<or> client \<or> \<not> short_voice d"
  shows "yields allow client (\<lambda>_. True) (con_handle_udp_packet env d addr con)"
proof (cases "addr = con_address con")
  case False
  with assms(2,3) show ?thesis by (simp add: con_handle_udp_packet_def yields_pair)
next
  case True
  show ?thesis
  proof (cases "in_packet_try_new (in_dir con) d")
    case (Err e)
    with True assms(2,3) show ?thesis by (simp add: con_handle_udp_packet_def yields_pair)
  next
    case Panic
    with in_packet_try_new_total [of "in_dir con" d] show ?thesis by simp
  next
    case (Ok p)
    then obtain t where t: "datagram_of t (in_dir con) d" using in_packet_try_new_datagram by blast
    let ?con = "(send_event (ReceiveUdpPacket p) con)\<lparr>con_resender :=
      received_packet (env_now env) (con_resender (send_event (ReceiveUdpPacket p) con))\<rparr>"
    have c: "con_ok ?con" "is_client ?con = client"
      using assms(2,3) con_okD(1) [OF assms(2)]
      by (simp_all add: con_ok_resender received_packet_def resender_ok_fields send_event_def
          con_ok_def in_dir_def)
    have same: "in_dir ?con = in_dir con" "bad_voice ?con = bad_voice con"
      using same_client [of ?con con] c(2) assms(3) by simp_all
    have "allow \<or> \<not> bad_voice con t (length d - header_len (in_dir con))"
      using assms(3,4) t by (auto simp: bad_voice_def short_voice_def in_dir_def)
    with yields_codec_handle_udp_packet [OF assms(1) c, of t d allow] t
    have "yields allow client (\<lambda>_. True) (codec_handle_udp_packet env d ?con)"
      by (simp add: same)
    with True Ok show ?thesis by (simp add: con_handle_udp_packet_def Let_def)
  qed
qed

text \<open>Sending keeps the invariant, whatever is sent.\<close>

definition keeps :: "connection \<Rightarrow> 'a con_result \<Rightarrow> bool" where
  "keeps con m \<longleftrightarrow> con_ok (snd m) \<and> is_client (snd m) = is_client con"

lemma keeps_pair [simp]: "keeps con (res, con') \<longleftrightarrow> con_ok con' \<and> is_client con' = is_client con"
  by (simp add: keeps_def)

lemma keeps_bind:
  assumes "keeps con m"
    and "\<And>x con'. m = (Ok x, con') \<Longrightarrow> con_ok con' \<Longrightarrow> is_client con' = is_client con \<Longrightarrow> keeps con (f x con')"
  shows "keeps con (bind_con m f)"
  using assms by (cases m; cases "fst m") auto

lemma keeps_bind_lift:
  assumes "con_ok con'" "is_client con' = is_client con"
    and "\<And>x. m = Ok x \<Longrightarrow> keeps con (f x con')"
  shows "keeps con (bind_con (m, con') f)"
  using assms by (cases m) auto

lemma encrypt_cache_shape:
  assumes "encrypt sha256 enc p gen iv cache = Ok (p', cache')" "cache_shape cache"
  shows "cache_shape cache'"
  using assms set_update_subset_insert
  by (fastforce simp: encrypt_def create_key_nonce_def Let_def bind_out_eq_Ok_iff index_def cache_shape_def
      split: if_splits)

lemma keeps_encode_one:
  assumes "con_ok con"
  shows "keeps con (encode_one env t should fake p con)"
proof -
  have ids: "codec_ok (in_dir con1) ((con_codec con1)\<lparr>outgoing_p_ids := (outgoing_p_ids (con_codec con1))[i := x]\<rparr>)"
    if "con_ok con1" for con1 i x
    using con_okD(2) [OF that] by (simp add: codec_ok_outgoing codec_ok_def [of "in_dir con1" "con_codec con1"])
  show ?thesis
    unfolding encode_one_def Let_def
    by (rule keeps_bind)
      (use assms ids in \<open>auto simp: con_ok_codec con_ok_params con_ok_def [of con] dest: encrypt_cache_shape
        split: option.splits outcome.splits\<close>)
qed

lemma keeps_trans: "keeps con m \<Longrightarrow> is_client con = is_client con0 \<Longrightarrow> keeps con0 m"
  by (simp add: keeps_def)

lemma keeps_encode_all: "con_ok con \<Longrightarrow> keeps con (encode_all env t should fake ps con)"
proof (induction ps arbitrary: con)
  case (Cons p ps)
  show ?case
    unfolding encode_all.simps
  proof (rule keeps_bind [OF keeps_encode_one [OF Cons.prems]])
    fix u con1 assume c1: "con_ok con1" "is_client con1 = is_client con"
    show "keeps con (bind_con (encode_all env t should fake ps con1) (\<lambda>us con. (Ok (u # us), con)))"
      by (rule keeps_bind [OF keeps_trans [OF Cons.IH [OF c1(1)] c1(2)]]) simp
  qed
qed simp

lemma keeps_encode_packet:
  assumes "con_ok con"
  shows "keeps con (encode_packet env p con)"
  unfolding encode_packet_def Let_def case_prod_beta
  by (intro keeps_bind_lift [OF assms refl] keeps_encode_all assms)

lemma keeps_resender:
  assumes "con_ok con" "\<And>r. f (con_resender con) = Ok r \<Longrightarrow> resender_ok r"
  shows "keeps con (on_resender f con)"
  using assms by (auto simp: on_resender_def con_ok_resender split: outcome.split)

lemma keeps_send_udp_packet:
  assumes "con_ok con"
  shows "keeps con (send_udp_packet env p con)"
  unfolding send_udp_packet_def
proof (rule keeps_bind_lift [OF assms refl])
  fix t
  have "keeps con (resend_send_packet env p con)"
    unfolding resend_send_packet_def
    by (rule keeps_resender [OF assms]) (rule resender_ok_add [OF con_okD(1) [OF assms]])
  then show "keeps con (if t = Init \<or> is_command t then resend_send_packet env p con
      else (Ok (), con\<lparr>acks_to_send := acks_to_send con @ [p]\<rparr>))"
    using assms by simp
qed

lemma keeps_send_udp_packets: "con_ok con \<Longrightarrow> keeps con (send_udp_packets env ps con)"
proof (induction ps arbitrary: con)
  case (Cons p ps)
  show ?case
    unfolding send_udp_packets.simps
    by (rule keeps_bind [OF keeps_send_udp_packet [OF Cons.prems]]) (rule keeps_trans [OF Cons.IH])
qed simp

lemma keeps_send_packet:
  assumes "con_ok con"
  shows "keeps con (send_packet env p con)"
proof -
  have "keeps con (encode_packet env p (send_event (SendPacket p) con))"
    using keeps_encode_packet [of "send_event (SendPacket p) con" env p] assms by (simp add: keeps_def)
  then show ?thesis
    unfolding send_packet_def
  proof (rule keeps_bind)
    fix us :: "out_udp_packet list" and con1 assume c1: "con_ok con1" "is_client con1 = is_client con"
    have "keeps con (bind_con (send_udp_packets env us con1) (\<lambda>_ con. (Ok ident, con)))" for ident
      by (rule keeps_bind [OF keeps_trans [OF keeps_send_udp_packets [OF c1(1)] c1(2)]]) simp
    then have "keeps con (bind_con (udp_ident (last us), con1) (\<lambda>ident con.
        bind_con (send_udp_packets env us con) (\<lambda>_ con. (Ok ident, con))))"
      by (rule keeps_bind_lift [OF c1])
    then show "keeps con (if us = [] then (Panic, con1)
        else bind_con (udp_ident (last us), con1) (\<lambda>ident con.
          bind_con (send_udp_packets env us con) (\<lambda>_ con. (Ok ident, con))))"
      using c1 by simp
  qed
qed

text \<open>Polling.\<close>

lemma keeps_poll_send_acks: "con_ok con \<Longrightarrow> keeps con (poll_send_acks env con)"
proof (induction env con rule: poll_send_acks.induct)
  case (1 env con)
  show ?case
  proof (cases "acks_to_send con")
    case Nil
    with "1.prems" show ?thesis by (simp add: poll_send_acks.simps)
  next
    case (Cons p ps)
    obtain sent con1 where s: "static_poll_send_udp_packet env p con = (sent, con1)"
      by (cases "static_poll_send_udp_packet env p con")
    have c1: "con_ok con1" "is_client con1 = is_client con"
      using static_poll_con [OF s] "1.prems" by simp_all
    obtain res con2 where o: "on_resender (handle_loss_outgoing p) con1 = (res, con2)"
      by (cases "on_resender (handle_loss_outgoing p) con1")
    have "keeps con1 (on_resender (handle_loss_outgoing p) con1)"
      by (rule keeps_resender [OF c1(1)])
        (use con_okD(1) [OF c1(1)] in \<open>auto simp: handle_loss_outgoing_def bind_out_eq_Ok_iff Let_def resender_ok_fields\<close>)
    with o c1 have c2: "con_ok con2" "is_client con2 = is_client con" by simp_all
    show ?thesis
    proof (cases "sent = Some (Ok ()) \<and> res = Ok ()")
      case True
      then have "poll_send_acks env con = poll_send_acks env (con2\<lparr>acks_to_send := tl (acks_to_send con2)\<rparr>)"
        by (subst poll_send_acks.simps) (simp add: Cons s o)
      moreover have "keeps (con2\<lparr>acks_to_send := tl (acks_to_send con2)\<rparr>)
          (poll_send_acks env (con2\<lparr>acks_to_send := tl (acks_to_send con2)\<rparr>))"
        by (rule "1.IH" [OF Cons s [symmetric] _ refl o [symmetric]]) (use True c2 in auto)
      ultimately show ?thesis using c2(2) by (simp add: keeps_def)
    next
      case False
      then show ?thesis
        using c1 c2 by (subst poll_send_acks.simps)
          (auto simp: Cons s o split: option.split outcome.split)
    qed
  qed
qed

lemma poll_resend_step_rest:
  assumes "poll_resend_step env timeout con = (res, con')"
  shows "is_client con' = is_client con" "con_params con' = con_params con" "con_codec con' = con_codec con"
proof -
  have "is_client con1 = is_client con \<and> con_params con1 = con_params con \<and> con_codec con1 = con_codec con"
    if "static_poll_send_udp_packet env p con = (sent, con1)" for p sent con1
    using that by (auto simp: static_poll_send_udp_packet_def Let_def send_event_def split: send_poll.splits)
  then show "is_client con' = is_client con" "con_params con' = con_params con" "con_codec con' = con_codec con"
    using assms
    by (auto simp: poll_resend_step_def Let_def bind_con_eq_iff split: option.splits if_splits prod.splits)
qed

lemma keeps_poll_resend_step:
  assumes "con_ok con" "poll_resend_step env timeout con = (res, con')"
  shows "con_ok con'" "is_client con' = is_client con"
  using poll_resend_step_ok [OF con_okD(1) [OF assms(1)] assms(2)] poll_resend_step_rest [OF assms(2)] assms(1)
  by (simp_all add: con_ok_def in_dir_def)

lemma keeps_poll_resend_loop:
  "con_ok con \<Longrightarrow> poll_resend_loop n env timeout con = Some m \<Longrightarrow> keeps con m"
proof (induction n arbitrary: con)
  case (Suc n)
  obtain res con1 where s: "poll_resend_step env timeout con = (res, con1)"
    by (cases "poll_resend_step env timeout con")
  note c1 = keeps_poll_resend_step [OF Suc.prems(1) s]
  show ?case
  proof (cases "res = Ok True")
    case True
    with Suc.prems(2) s have "poll_resend_loop n env timeout con1 = Some m" by simp
    from keeps_trans [OF Suc.IH [OF c1(1) this] c1(2)] show ?thesis .
  next
    case False
    with Suc.prems(2) s c1 show ?thesis by (auto split: outcome.splits bool.splits)
  qed
qed simp

lemma set_timers_ok [simp]:
  "con_ok (set_timers f con) = con_ok con" "is_client (set_timers f con) = is_client con"
  by (simp_all add: set_timers_def con_ok_def in_dir_def resender_ok_fields)

lemma keeps_poll_stats: "con_ok con \<Longrightarrow> con_ok (poll_stats env con) \<and> is_client (poll_stats env con) = is_client con"
proof (induction env con rule: poll_stats.induct)
  case (1 env con)
  let ?next = "last_stat (con_resender con) + from_secs STAT_SECONDS"
  let ?con = "set_timers (\<lambda>t. t\<lparr>tm_stats_timeout := ?next\<rparr>) con"
  let ?con2 = "push_item ItemNetworkStatsUpdated
    (?con\<lparr>con_resender := reset_stats (env_now env) (con_resender ?con)\<rparr>)"
  show ?case
  proof (cases "?next \<le> env_now env")
    case True
    have c: "con_ok ?con" using "1.prems" by simp
    have "resender_ok (reset_stats (env_now env) (con_resender ?con))"
      using con_okD(1) [OF c] by (simp add: reset_stats_def Let_def resender_ok_fields)
    then have "con_ok ?con2" using c by (simp add: con_ok_resender)
    from "1.IH" [OF refl refl True this] True show ?thesis by (subst (1 2) poll_stats.simps) (simp add: Let_def)
  next
    case False
    then show ?thesis using "1.prems" by (subst (1 2) poll_stats.simps) (simp add: Let_def)
  qed
qed

lemma con_ok_last_pings [simp]:
  "con_ok con \<Longrightarrow> con_ok (con\<lparr>con_resender := (con_resender con)\<lparr>last_pings := ps\<rparr>\<rparr>)"
  using con_okD(1) [of con] by (simp add: con_ok_resender resender_ok_fields)

lemma keeps_ping_step:
  assumes "con_ok con"
  shows "keeps con (ping_step env con)"
proof -
  obtain d ps where np: "next_ping (con_resender con) = (d, ps)" by (cases "next_ping (con_resender con)")
  define con1 where "con1 = set_timers (\<lambda>t. t\<lparr>tm_ping_timeout := d\<rparr>)
    (con\<lparr>con_resender := (con_resender con)\<lparr>last_pings := ps\<rparr>\<rparr>)"
  have c1: "con_ok con1" "is_client con1 = is_client con" using assms by (simp_all add: con1_def)
  have "keeps con (bind_con (send_packet env (ping_packet con1) con1) (\<lambda>p_id con.
      (Ok True, con\<lparr>con_resender := (con_resender con)\<lparr>last_pings :=
         add_ping \<lparr>ping_id = pid_part p_id, ping_sent = env_now env\<rparr> (last_pings (con_resender con))\<rparr>\<rparr>)))"
    by (rule keeps_bind [OF keeps_trans [OF keeps_send_packet [OF c1(1)] c1(2)]]) simp
  with c1 show ?thesis by (simp add: ping_step_def np con1_def [symmetric] Let_def)
qed

lemma keeps_poll_pings: "con_ok con \<Longrightarrow> keeps con (poll_pings env con)"
proof (induction env con rule: poll_pings.induct)
  case (1 env con)
  obtain res con1 where s: "ping_step env con = (res, con1)" by (cases "ping_step env con")
  have c1: "con_ok con1" "is_client con1 = is_client con"
    using keeps_ping_step [OF "1.prems", of env] by (simp_all add: s)
  show ?case
  proof (cases "res = Ok True")
    case True
    with s have "poll_pings env con = poll_pings env con1" by (subst poll_pings.simps) simp
    with keeps_trans [OF "1.IH" [OF s [symmetric] True _ c1(1)] c1(2)] show ?thesis by simp
  next
    case False
    then show ?thesis using c1
      by (subst poll_pings.simps) (auto simp: s split: outcome.split bool.split)
  qed
qed

lemma keeps_poll_ping:
  assumes "con_ok con"
  shows "keeps con (poll_ping env con)"
proof -
  have state: "keeps con (poll_state env con)"
    using assms by (simp add: poll_state_def Let_def)
  show ?thesis
    unfolding poll_ping_def
  proof (rule keeps_bind [OF state])
    fix x con1 assume c1: "con_ok con1" "is_client con1 = is_client con"
    note stats = keeps_poll_stats [OF c1(1), of env]
    have "keeps con (poll_pings env (poll_stats env con1))"
      using keeps_trans [OF keeps_poll_pings] stats c1(2) by simp
    with stats c1(2) show "keeps con (let con = poll_stats env con1; r = con_resender con
       in if rs_state r = Connected \<and> \<not> (\<exists>q \<in> set (full_send_queue r). q \<noteq> [])
          then poll_pings env con else (Ok (), con))"
      by (simp add: Let_def)
  qed
qed

lemma poll_incoming_loop_ok:
  assumes "env_ok env" "con_ok con" "poll_incoming_loop env evs con = ((res, con'), evs')" "res \<noteq> Panic"
  shows "con_ok con' \<and> is_client con' = is_client con"
  using assms(2-)
proof (induction evs arbitrary: con)
  case (Cons ev evs)
  show ?case
  proof (cases ev)
    case SocketClosed
    with Cons.prems show ?thesis by auto
  next
    case (Datagram addr d)
    let ?d = "take MAX_UDP_PACKET_LENGTH d"
    obtain r con1 where h: "con_handle_udp_packet env ?d addr con = (r, con1)"
      by (cases "con_handle_udp_packet env ?d addr con")
    have "r \<noteq> Panic" using Cons.prems(2,3) by (auto simp: Datagram h)
    then have c1: "con_ok con1" "is_client con1 = is_client con"
      using yields_con_handle_udp_packet [OF assms(1) Cons.prems(1) refl, of True ?d addr]
      by (auto simp: h yields_pair)
    show ?thesis
    proof (cases "r = Ok () \<and> stream_items con1 = []")
      case True
      with Cons.prems(2) have "poll_incoming_loop env evs con1 = ((res, con'), evs')"
        by (simp add: Datagram h)
      from Cons.IH [OF c1(1) this Cons.prems(3)] c1(2) show ?thesis by simp
    next
      case False
      with Cons.prems(2) c1 show ?thesis
        by (auto simp: Datagram h split: outcome.splits list.splits)
    qed
  qed
qed simp

lemma poll_next_ok:
  assumes "env_ok env" "con_ok con" "poll_next fuel env evs con = Some ((res, con'), evs')" "res \<noteq> Panic"
  shows "con_ok con' \<and> is_client con' = is_client con"
proof -
  obtain r1 con1 where s1: "poll_send_acks env con = (r1, con1)" by (cases "poll_send_acks env con")
  have c1: "con_ok con1" "is_client con1 = is_client con"
    using keeps_poll_send_acks [OF assms(2), of env] by (simp_all add: s1)
  show ?thesis
  proof (cases "r1 = Ok () \<and> \<not> (rs_state (con_resender con1) = Disconnected \<and> acks_to_send con1 = [])")
    case False
    with assms(3) c1 show ?thesis
      by (auto simp: poll_next_def s1 split: outcome.splits if_splits)
  next
    case True
    then obtain m2 where s2: "poll_resend fuel env con1 = Some m2"
      using assms(3) by (auto simp: poll_next_def s1 split: option.splits)
    have "keeps con m2"
      using keeps_trans [OF keeps_poll_resend_loop [OF c1(1) s2 [unfolded poll_resend_def]] c1(2)] .
    then have "keeps con (bind_con m2 (\<lambda>_ con. poll_ping env con))"
      by (rule keeps_bind) (rule keeps_trans [OF keeps_poll_ping])
    then obtain r3 con3 where s3: "bind_con m2 (\<lambda>_ con. poll_ping env con) = (r3, con3)"
      and c3: "con_ok con3" "is_client con3 = is_client con"
      by (cases "bind_con m2 (\<lambda>_ con. poll_ping env con)") auto
    show ?thesis
    proof (cases "r3 = Ok () \<and> stream_items con3 = []")
      case False
      with True assms(3) c3 show ?thesis
        by (auto simp: poll_next_def s1 s2 s3 split: outcome.splits list.splits)
    next
      case t3: True
      obtain r4 con4 ev4 where s4: "poll_incoming_udp_packet env evs con3 = ((r4, con4), ev4)"
        by (metis prod.collapse)
      have fin: "bind_con (r4, con4) (\<lambda>item con.
          (Ok (case item of None \<Rightarrow> NextPending | Some it \<Rightarrow> NextItem it), con)) = (res, con')"
        using assms(3) True t3 by (auto simp: poll_next_def s1 s2 s3 s4)
      then have "r4 \<noteq> Panic" "con4 = con'" using assms(4) by (cases r4; auto)+
      then show ?thesis
        using poll_incoming_loop_ok [OF assms(1) c3(1), of evs r4 con4 ev4] s4 c3
        by (auto simp: poll_incoming_udp_packet_def split: if_splits)
    qed
  qed
qed

text \<open>
  The steps of a connection: it is polled, a datagram arrives, the program sends a packet, changes the
  state of the resender, or installs or changes the parameters of the connection. A step that
  panics ends the program.
\<close>

inductive con_step :: "connection \<Rightarrow> connection \<Rightarrow> bool" where
  step_poll: "env_ok env \<Longrightarrow> poll_next fuel env evs con = Some ((res, con'), evs') \<Longrightarrow> res \<noteq> Panic \<Longrightarrow>
    con_step con con'"
| step_receive: "env_ok env \<Longrightarrow> con_handle_udp_packet env d addr con = (res, con') \<Longrightarrow> res \<noteq> Panic \<Longrightarrow>
    con_step con con'"
| step_send: "send_packet env p con = (res, con') \<Longrightarrow> con_step con con'"
| step_state: "con_step con (con\<lparr>con_resender := set_state now st (con_resender con)\<rparr>)"
| step_params: "length mac = 8 \<Longrightarrow>
    con_step con (con\<lparr>con_params := Some (connected_params_new public_key iv mac)\<rparr>)"
| step_client_id: "con_params con = Some params \<Longrightarrow>
    con_step con (con\<lparr>con_params := Some (params\<lparr>par_c_id := i, par_voice_encryption := v\<rparr>)\<rparr>)"

definition reachable :: "bool \<Rightarrow> connection \<Rightarrow> bool" where
  "reachable client con \<longleftrightarrow> (\<exists>address now. con_step\<^sup>*\<^sup>* (connection_new client address now) con)"

lemma con_step_ok:
  assumes "con_step con con'" "con_ok con"
  shows "con_ok con' \<and> is_client con' = is_client con"
  using assms
proof cases
  case (step_poll env fuel evs res evs')
  then show ?thesis using poll_next_ok assms(2) by blast
next
  case (step_receive env d addr res)
  then show ?thesis
    using yields_con_handle_udp_packet [OF step_receive(1) assms(2) refl, of True d addr]
    by (auto simp: yields_pair)
next
  case (step_send env p res)
  then show ?thesis using keeps_send_packet [OF assms(2), of env p] by simp
next
  case (step_state now st)
  then show ?thesis
    using assms(2) con_okD(1) [OF assms(2)]
    by (simp add: con_ok_resender set_state_def Let_def resender_ok_fields)
next
  case (step_params mac public_key iv)
  then show ?thesis
    using assms(2) by (simp add: con_ok_def in_dir_def connected_params_new_def cache_shape_default)
next
  case (step_client_id params i v)
  then show ?thesis using assms(2) by (simp add: con_ok_def in_dir_def)
qed

lemma reachable_ok:
  assumes "reachable client con"
  shows "con_ok con \<and> is_client con = client"
proof -
  obtain address now where "con_step\<^sup>*\<^sup>* (connection_new client address now) con"
    using assms by (auto simp: reachable_def)
  then show ?thesis
  proof induction
    case base
    show ?case using con_ok_new by (simp add: connection_new_def Let_def)
  next
    case (step con1 con2)
    then show ?case using con_step_ok by metis
  qed
qed

end
