(* ===== verification/Connection_Safety.thy ===== *)
theory Connection_Safety
  imports Connection_Invariant
begin

text \<open>
  What holds of a connection as a whole: its invariant in every reachable state, the datagrams on
  which it cannot panic and those on which a server does, and that polling returns.
\<close>

section \<open>Properties\<close>

lemma plain_env_ok [simp]: "env_ok (plain_env now)"
  by (simp add: env_ok_def plain_env_def)

text \<open>
  C5: In every reachable state of a connection (any sequence of polls, datagrams, sent packets, state
  changes and parameter changes) the queues of the resender are ordered maps from ids to records
  of their packet type, every unacknowledged packet below the send index is in the send queue, the
  tables of the codec have their sizes, and every stored packet and fragment has a complete header.
\<close>

theorem reachable_invariant:
  assumes "reachable client con"
  shows "is_client con = client \<and> queues_ok (con_resender con) \<and> queue_complete (con_resender con) \<and>
    codec_ok (in_dir con) (con_codec con)"
  using reachable_ok [OF assms] by (simp add: con_ok_def resender_ok_def)

text \<open>
  C6: A client does not panic on any datagram, from any address and in any reachable state, and
  stays in a valid state; a server does not panic on a datagram that is not a voice packet of three
  or four bytes.
\<close>

theorem datagram_never_panics:
  assumes "reachable client con" "env_ok env" "client \<or> \<not> short_voice d"
  shows "fst (con_handle_udp_packet env d addr con) \<noteq> Panic \<and>
    con_ok (snd (con_handle_udp_packet env d addr con))"
  using yields_con_handle_udp_packet [of env con client False d addr] reachable_ok [OF assms(1)] assms(2,3)
  by (auto simp: yields_def)

text \<open>A voice packet whose codec byte is unknown, in the clear, at a server without parameters.\<close>

definition short_voice_packet :: bytes where
  "short_voice_packet = replicate 12 0 @ [0x80, 0, 0, 9]"

definition short_voice_in :: in_packet where
  "short_voice_in =
     \<lparr>pkt_header = \<lparr>hdr_direction = C2S, hdr_data = replicate 12 0 @ [0x80]\<rparr>, pkt_content = [0, 0, 9]\<rparr>"

lemma short_voice_parsed:
  "in_packet_new C2S short_voice_packet = Ok short_voice_in"
  "in_packet_try_new C2S short_voice_packet = Ok short_voice_in"
  unfolding short_voice_packet_def short_voice_in_def
  using in_packet_new_parts [of "replicate 12 0" C2S "0x80" "[0, 0, 9]"]
    in_packet_try_new_parts [of "replicate 12 0" C2S "0x80" "[0, 0, 9]"] by simp_all

lemma short_voice_header:
  "hdr_packet_type (pkt_header short_voice_in) = Some Voice"
  "has_flag (hdr_flags (pkt_header short_voice_in)) UNENCRYPTED"
  "hdr_direction (pkt_header short_voice_in) = C2S" "pkt_content short_voice_in = [0, 0, 9]"
  using hdr_parts [of "replicate 12 0" C2S "0x80"]
  by (simp_all add: short_voice_in_def packet_type_from_u8_def has_flag_def flag_defs)

lemma process_short_voice:
  assumes "\<not> is_client con"
  shows "fst (process_packet env Voice gen pid short_voice_packet con) = Panic"
proof -
  have "into_audio short_voice_in = Panic"
    by (simp add: into_audio_def short_voice_header Let_def audio_parse_panics codec_from_u8_def
        bind_out_eq_Panic_iff)
  moreover have "ack_packet short_voice_in = Ok None"
    by (simp add: ack_packet_def short_voice_header is_ack_def)
  moreover have "in_packet_new C2S short_voice_packet = (Ok short_voice_in :: (ts_error, _) outcome)"
    by (rule short_voice_parsed)
  ultimately show ?thesis
    using assms
    by (simp add: process_packet_def handle_other_def Let_def is_command_def in_dir_def other_item_def
        is_voice_def send_event_def split: prod.split)
qed

text \<open>
  C38: A new server panics on an unencrypted voice packet of three bytes with an unknown codec,
  whoever sends it from the connection's address: one datagram of sixteen bytes ends the program.
\<close>

theorem short_voice_panics:
  "fst (con_handle_udp_packet env short_voice_packet addr (connection_new False addr now)) = Panic"
proof -
  let ?con = "connection_new False addr now"
  have server: "\<not> is_client ?con" "con_params ?con = None" "con_address ?con = addr"
    by (simp_all add: connection_new_def Let_def)
  have loss: "\<exists>r. handle_loss_incoming short_voice_in w n r0 = Ok r" for w n r0
    by (simp add: handle_loss_incoming_def short_voice_header Let_def)
  have receive: "fst (receive_packet env short_voice_in Voice gen pid short_voice_packet con) = Panic"
    if "\<not> is_client con" for gen pid con
    using process_short_voice [OF that]
    by (simp add: receive_packet_def decrypt_incoming_def short_voice_header Let_def)
  have rest: "fst (codec_handle_udp_packet env short_voice_packet con) = Panic"
    if con: "\<not> is_client con" "con_params con = None" for con
  proof -
    let ?pid = "hdr_packet_id (pkt_header short_voice_in)"
    obtain w gen nxt limit where win: "con_receive_window con Voice ?pid = (w, gen, nxt, limit)"
      by (metis prod_cases4)
    obtain r where r: "handle_loss_incoming short_voice_in w nxt (con_resender con) = Ok r" using loss by blast
    have panic: "fst (bind_con (receive_packet env short_voice_in Voice gen ?pid short_voice_packet c) f) = Panic"
      if "\<not> is_client c" for c and f :: "bool \<Rightarrow> connection \<Rightarrow> unit con_result"
      using receive [OF that, of gen ?pid]
      by (cases "receive_packet env short_voice_in Voice gen ?pid short_voice_packet c") simp
    show ?thesis
      using con panic win r
      by (simp add: codec_handle_udp_packet_def in_dir_def short_voice_parsed(1) short_voice_header
          on_resender_def params_error_def Let_def)
  qed
  show ?thesis
    using server rest
    by (simp add: con_handle_udp_packet_def in_dir_def short_voice_parsed(2) Let_def send_event_def)
qed

text \<open>The queued acknowledgements touch only the statistics of the resender.\<close>

lemma poll_send_acks_rest:
  "rs_config (con_resender (snd (poll_send_acks env con))) = rs_config (con_resender con) \<and>
   rs_state (con_resender (snd (poll_send_acks env con))) = rs_state (con_resender con)"
proof (induction env con rule: poll_send_acks.induct)
  case (1 env con)
  show ?case
  proof (cases "acks_to_send con")
    case Nil
    then show ?thesis by (simp add: poll_send_acks.simps)
  next
    case (Cons p ps)
    obtain sent con1 where s: "static_poll_send_udp_packet env p con = (sent, con1)"
      by (cases "static_poll_send_udp_packet env p con")
    note r1 = static_poll_resender [OF s]
    obtain res con2 where o: "on_resender (handle_loss_outgoing p) con1 = (res, con2)"
      by (cases "on_resender (handle_loss_outgoing p) con1")
    have r2: "rs_config (con_resender con2) = rs_config (con_resender con)"
      "rs_state (con_resender con2) = rs_state (con_resender con)"
      using o r1 by (auto simp: on_resender_def handle_loss_outgoing_def Let_def split: outcome.splits
          dest!: bind_out_eq_Ok_iff [THEN iffD1])
    show ?thesis
    proof (cases "sent = Some (Ok ()) \<and> res = Ok ()")
      case True
      then have eq: "poll_send_acks env con = poll_send_acks env (con2\<lparr>acks_to_send := tl (acks_to_send con2)\<rparr>)"
        by (subst poll_send_acks.simps) (simp add: Cons s o)
      show ?thesis
        unfolding eq using "1.IH" [OF Cons s [symmetric] _ refl o [symmetric]] True r2 by simp
    next
      case False
      then show ?thesis
        using r1 r2 by (subst (1 2) poll_send_acks.simps)
          (auto simp: Cons s o split: option.split outcome.split)
    qed
  qed
qed

text \<open>
  C22: Polling a connection returns: for a reachable connection whose retransmission timeout is
  positive, with a positive clock and a connection timeout of at least a second, some amount of fuel
  suffices for the resend loop inside \<open>Stream::poll_next\<close>, and more fuel does not change the result.
\<close>

theorem poll_next_returns:
  assumes "reachable client con" "0 < retransmission_timeout (con_resender con)"
    and "0 < env_now env" "from_secs 1 \<le> get_timeout (con_resender con)"
  shows "\<exists>n result. \<forall>fuel \<ge> n. poll_next fuel env evs con = Some result"
proof -
  obtain r1 con1 where s1: "poll_send_acks env con = (r1, con1)" by (cases "poll_send_acks env con")
  have "con_ok con1"
    using keeps_poll_send_acks [of con env] reachable_ok [OF assms(1)] by (simp add: s1)
  moreover have "retransmission_timeout (con_resender con1) = retransmission_timeout (con_resender con)"
    "get_timeout (con_resender con1) = get_timeout (con_resender con)"
    using poll_send_acks_rest [of env con] by (simp_all add: s1 retransmission_timeout_def get_timeout_def
        split: resender_state.split)
  ultimately obtain n res con2 where r: "\<And>fuel. fuel \<ge> n \<Longrightarrow> poll_resend fuel env con1 = Some (res, con2)"
    using poll_resend_loop_returns [of con1 env "get_timeout (con_resender con1)"] con_okD(1) assms(2-4)
    unfolding poll_resend_def by metis
  have "poll_next fuel env evs con = poll_next n env evs con" if "fuel \<ge> n" for fuel
    unfolding poll_next_def s1 prod.case r [OF that] r [OF order_refl] ..
  moreover obtain r3 con3 where "bind_con (res, con2) (\<lambda>_ con. poll_ping env con) = (r3, con3)"
    by (cases "bind_con (res, con2) (\<lambda>_ con. poll_ping env con)")
  then have "\<exists>result. poll_next n env evs con = Some result"
    by (cases r1; cases r3; cases "stream_items con3"; cases "poll_incoming_udp_packet env evs con3")
      (simp_all add: poll_next_def s1 r)
  ultimately show ?thesis by metis
qed

section \<open>Witnesses\<close>

text \<open>A client whose parameters were installed.\<close>

definition example_connection :: connection where
  "example_connection = (connection_new True 1 0)\<lparr>con_params :=
     Some (connected_params_new (replicate 32 7) (replicate 64 9) (replicate 8 0))\<rparr>"

lemma example_reachable: "reachable True example_connection"
  unfolding reachable_def example_connection_def
  by (rule exI [of _ 1], rule exI [of _ 0], rule r_into_rtranclp, rule step_params) simp

theorem reachable_invariant_witness: "queue_complete (con_resender example_connection)"
  using reachable_invariant [OF example_reachable] by simp

theorem datagram_never_panics_witness:
  "fst (con_handle_udp_packet (plain_env 5) short_voice_packet 1 example_connection) \<noteq> Panic"
  using datagram_never_panics [OF example_reachable plain_env_ok, of short_voice_packet 5 1] by simp

theorem poll_next_returns_witness:
  "\<exists>n result. \<forall>fuel \<ge> n. poll_next fuel (plain_env (from_secs 5)) [Datagram 1 [1, 2, 3]] example_connection
     = Some result"
  by (rule poll_next_returns [OF example_reachable])
    (simp_all add: example_connection_def connection_new_def Let_def resender_default_def
      resend_config_default_def retransmission_timeout_def get_timeout_def plain_env_def
      from_secs_def from_millis_def)

end
