(* ===== verification/License_Parsing.thy ===== *)
theory License_Parsing
  imports License
begin

text \<open>
  What a parsed license promises: the blocks cover the data, their validity periods are nested and
  contain the time of parsing, no slice is out of range; and the derivation of keys along the chain
  gives the same key on the private and on the public side.
\<close>

section \<open>Where the blocks are\<close>

definition block_offset :: "'s licenses \<Rightarrow> nat \<Rightarrow> nat" where
  "block_offset ls i = 1 + sum_list (map lic_len (take i (lics_blocks ls)))"

definition block_data :: "'s licenses \<Rightarrow> nat \<Rightarrow> bytes" where
  "block_data ls i = take (lic_len (lics_blocks ls ! i)) (drop (block_offset ls i) (lics_data ls))"

definition block_times :: "bytes \<Rightarrow> (license_error, time_bounds) outcome" where
  "block_times d =
     bind_out (get_not_valid_before d) (\<lambda>s. bind_out (get_not_valid_after d) (\<lambda>e. Ok (s, e)))"

section \<open>One block\<close>

lemma ts5_properties_bound:
  "ts5_properties len data n pos = Ok (ps, pos') \<Longrightarrow> pos \<le> length data \<Longrightarrow> pos' \<le> length data"
  by (induction n arbitrary: pos ps pos')
    (auto simp: Let_def bind_out_eq_Ok_iff split: if_splits)

lemma ts5_properties_not_Panic: "ts5_properties len data n pos \<noteq> Panic"
  by (induction n arbitrary: pos) (auto simp: Let_def bind_out_eq_Panic_iff)

lemma parse_inner_bound:
  assumes "parse_inner len t data = Ok (inner, n)"
  shows "n \<le> length data"
proof -
  from assms obtain ty where ty: "block_type_from_u8 t = Some ty"
    by (auto simp: parse_inner_def bind_out_eq_Ok_iff elim: ok_or.elims)
  show ?thesis
    using assms ty
    by (cases ty)
      (auto simp: parse_inner_def bind_out_eq_Ok_iff not_less split: if_splits option.splits
        dest!: position_Some ts5_properties_bound)
qed

lemma parse_inner_not_Panic: "parse_inner len t data \<noteq> Panic"
  by (auto simp: parse_inner_def bind_out_eq_Panic_iff ts5_properties_not_Panic
      split: license_block_type.splits option.splits if_splits)

lemma license_parse_bound:
  assumes "license_parse data = Ok l"
  shows "42 \<le> lic_len l" and "lic_len l \<le> length data"
  using assms
  by (auto simp: license_parse_def Let_def bind_out_eq_Ok_iff BLOCK_MIN_LEN_def
      dest!: parse_inner_bound split: if_splits)

lemma license_parse_not_Panic: "license_parse data \<noteq> Panic"
  by (auto simp: license_parse_def Let_def bind_out_eq_Panic_iff parse_inner_not_Panic
      split: if_splits)

lemma get_timestamp_Ok:
  assumes "off + 4 \<le> length data"
  shows "\<exists>t. get_timestamp data off = Ok t"
  using assms by (auto simp: get_timestamp_def read_be32_def outcome_simps)

lemma block_times_Ok:
  assumes "42 \<le> length d"
  obtains s e where "get_not_valid_before d = Ok s" and "get_not_valid_after d = Ok e"
    and "block_times d = Ok (s, e)"
proof -
  obtain s where s: "get_not_valid_before d = Ok s"
    using get_timestamp_Ok [of 34 d] assms
    by (auto simp: get_not_valid_before_def BLOCK_NOT_VALID_BEFORE_OFFSET_def)
  obtain e where e: "get_not_valid_after d = Ok e"
    using get_timestamp_Ok [of 38 d] assms
    by (auto simp: get_not_valid_after_def BLOCK_NOT_VALID_AFTER_OFFSET_def)
  from s e show thesis
    by (intro that [of s e]) (simp_all add: block_times_def)
qed

lemma parse_block_Ok:
  assumes "parse_block data check now bounds = Ok (l, b)"
  shows "license_parse data = Ok l" and "block_times (take (lic_len l) data) = Ok b"
    and "check \<Longrightarrow> fst b \<le> now \<and> now \<le> snd b"
    and "\<And>ob. bounds = Some ob \<Longrightarrow> fst ob \<le> fst b \<and> snd b \<le> snd ob"
  using assms
  by (cases bounds; auto simp: parse_block_def bind_out_eq_Ok_iff block_times_def outcome_simps
      not_less split: if_splits)+

lemma parse_block_not_Panic: "parse_block data check now bounds \<noteq> Panic"
proof (cases "license_parse data :: (license_error, 'a license) outcome")
  case (Ok l)
  note b = license_parse_bound [OF Ok]
  obtain s e where "get_not_valid_before (take (lic_len l) data) = Ok s"
    and "get_not_valid_after (take (lic_len l) data) = Ok e"
    using block_times_Ok [of "take (lic_len l) data"] b by (metis length_take min.absorb2)
  with Ok b show ?thesis
    by (auto simp: parse_block_def outcome_simps split: option.splits)
next
  case Panic
  then show ?thesis by (simp add: license_parse_not_Panic)
qed (simp add: parse_block_def)

section \<open>The chain\<close>

lemma block_offset_0 [simp]: "block_offset ls 0 = 1"
  by (simp add: block_offset_def)

text \<open>What the loop has established for the blocks read so far.\<close>

definition blocks_read :: "bytes \<Rightarrow> bool \<Rightarrow> int \<Rightarrow> nat \<Rightarrow> time_bounds option \<Rightarrow> 's license list \<Rightarrow> bool" where
  "blocks_read data check now offset bounds blocks \<longleftrightarrow>
     (let ls = \<lparr>lics_data = data, lics_blocks = blocks\<rparr> in
      length blocks \<le> 8 \<and> offset = block_offset ls (length blocks) \<and> offset \<le> max 1 (length data) \<and>
      (\<exists>times. length times = length blocks \<and>
         (\<forall>i < length blocks.
            license_parse (drop (block_offset ls i) data) = Ok (blocks ! i) \<and>
            block_offset ls i + lic_len (blocks ! i) \<le> length data \<and>
            block_times (block_data ls i) = Ok (times ! i) \<and>
            (check \<longrightarrow> fst (times ! i) \<le> now \<and> now \<le> snd (times ! i)) \<and>
            (\<forall>j < i. fst (times ! j) \<le> fst (times ! i) \<and> snd (times ! i) \<le> snd (times ! j))) \<and>
         bounds = (if times = [] then None else Some (last times))))"

lemma block_offset_append:
  "i \<le> length blocks \<Longrightarrow>
   block_offset \<lparr>lics_data = data, lics_blocks = blocks @ bs\<rparr> i =
   block_offset \<lparr>lics_data = data, lics_blocks = blocks\<rparr> i"
  by (simp add: block_offset_def)

lemma block_offset_Suc:
  "i < length (lics_blocks ls) \<Longrightarrow>
   block_offset ls (Suc i) = block_offset ls i + lic_len (lics_blocks ls ! i)"
  by (simp add: block_offset_def take_Suc_conv_app_nth)

lemma blocks_read_start: "blocks_read data check now 1 None []"
  by (simp add: blocks_read_def)

lemma blocks_read_step:
  assumes read: "blocks_read data check now offset bounds blocks"
    and more: "offset < length data" and few: "length blocks < 8"
    and block: "parse_block (drop offset data) check now bounds = Ok (l, b)"
  shows "blocks_read data check now (offset + lic_len l) (Some b) (blocks @ [l])"
proof -
  let ?ls = "\<lparr>lics_data = data, lics_blocks = blocks\<rparr>"
  let ?ls' = "\<lparr>lics_data = data, lics_blocks = blocks @ [l]\<rparr>"
  obtain times where off: "offset = block_offset ?ls (length blocks)"
    and len: "length times = length blocks"
    and each: "\<And>i. i < length blocks \<Longrightarrow>
       license_parse (drop (block_offset ?ls i) data) = Ok (blocks ! i) \<and>
       block_offset ?ls i + lic_len (blocks ! i) \<le> length data \<and>
       block_times (block_data ?ls i) = Ok (times ! i) \<and>
       (check \<longrightarrow> fst (times ! i) \<le> now \<and> now \<le> snd (times ! i)) \<and>
       (\<forall>j < i. fst (times ! j) \<le> fst (times ! i) \<and> snd (times ! i) \<le> snd (times ! j))"
    and bounds: "bounds = (if times = [] then None else Some (last times))"
    using read [unfolded blocks_read_def Let_def] by blast
  note new = parse_block_Ok [OF block]
  note size = license_parse_bound [OF new(1)]
  have off': "block_offset ?ls' i = block_offset ?ls i" if "i \<le> length blocks" for i
    using that by (rule block_offset_append)
  have data': "block_data ?ls' i = block_data ?ls i" if "i < length blocks" for i
    using that off' [of i] by (simp add: block_data_def nth_append)
  have data_new: "block_data ?ls' (length blocks) = take (lic_len l) (drop offset data)"
    using off' [of "length blocks"] off by (simp add: block_data_def)
  have nested: "fst (times ! j) \<le> fst b \<and> snd b \<le> snd (times ! j)" if "j < length blocks" for j
  proof -
    from that len have ne: "times \<noteq> []" by auto
    with bounds new(4) [of "last times"] have lst: "fst (last times) \<le> fst b \<and> snd b \<le> snd (last times)"
      by simp
    have "last times = times ! (length blocks - 1)"
      using ne len by (simp add: last_conv_nth)
    moreover have "j = length blocks - 1 \<or> j < length blocks - 1"
      using that by linarith
    ultimately show ?thesis
      using lst each [of "length blocks - 1"] that by force
  qed
  have "\<forall>i < length (blocks @ [l]).
      license_parse (drop (block_offset ?ls' i) data) = Ok ((blocks @ [l]) ! i) \<and>
      block_offset ?ls' i + lic_len ((blocks @ [l]) ! i) \<le> length data \<and>
      block_times (block_data ?ls' i) = Ok ((times @ [b]) ! i) \<and>
      (check \<longrightarrow> fst ((times @ [b]) ! i) \<le> now \<and> now \<le> snd ((times @ [b]) ! i)) \<and>
      (\<forall>j < i. fst ((times @ [b]) ! j) \<le> fst ((times @ [b]) ! i) \<and>
               snd ((times @ [b]) ! i) \<le> snd ((times @ [b]) ! j))"
  proof (intro allI impI)
    fix i assume "i < length (blocks @ [l])"
    then consider "i < length blocks" | "i = length blocks" by fastforce
    then show "license_parse (drop (block_offset ?ls' i) data) = Ok ((blocks @ [l]) ! i) \<and>
      block_offset ?ls' i + lic_len ((blocks @ [l]) ! i) \<le> length data \<and>
      block_times (block_data ?ls' i) = Ok ((times @ [b]) ! i) \<and>
      (check \<longrightarrow> fst ((times @ [b]) ! i) \<le> now \<and> now \<le> snd ((times @ [b]) ! i)) \<and>
      (\<forall>j < i. fst ((times @ [b]) ! j) \<le> fst ((times @ [b]) ! i) \<and>
               snd ((times @ [b]) ! i) \<le> snd ((times @ [b]) ! j))"
    proof cases
      case 1
      with each [of i] off' [of i] data' [of i] len show ?thesis
        by (simp add: nth_append)
    next
      case 2
      with new size off off' [of i] data_new len nested more show ?thesis
        by (simp add: nth_append)
    qed
  qed
  moreover have "offset + lic_len l = block_offset ?ls' (length (blocks @ [l]))"
    using off off' [of "length blocks"] by (simp add: block_offset_Suc)
  moreover have "offset + lic_len l \<le> length data"
    using size more by simp
  ultimately show ?thesis
    using few len unfolding blocks_read_def Let_def
    by (intro conjI exI [of _ "times @ [b]"]) simp_all
qed

lemma parse_blocks_read:
  assumes "blocks_read data check now offset bounds blocks"
    and "parse_blocks data check now offset bounds blocks = Ok res"
  shows "\<exists>off b. blocks_read data check now off b res \<and> length data \<le> off"
  using assms
proof (induction data check now offset bounds blocks rule: parse_blocks.induct)
  case (1 data check now offset bounds blocks)
  show ?case
  proof (cases "offset < length data")
    case True
    with "1.prems"(2) have few: "length blocks < 8"
      by (subst (asm) parse_blocks.simps) (simp split: if_splits)
    with True "1.prems"(2) obtain l b where
      block: "parse_block (drop offset data) check now bounds = Ok (l, b)"
      and rest: "parse_blocks data check now (offset + lic_len l) (Some b) (blocks @ [l]) = Ok res"
      by (subst (asm) parse_blocks.simps) (auto split: outcome.splits)
    from blocks_read_step [OF "1.prems"(1) True few block]
    show ?thesis
      using "1.IH" [of "(l, b)" l b] True few block rest by simp
  next
    case False
    with "1.prems" show ?thesis
      by (subst (asm) parse_blocks.simps) auto
  qed
qed

lemma parse_blocks_not_Panic: "parse_blocks data check now offset bounds blocks \<noteq> Panic"
proof (induction data check now offset bounds blocks rule: parse_blocks.induct)
  case (1 data check now offset bounds blocks)
  then show ?case
    using parse_block_not_Panic [of "drop offset data" check now bounds]
    by (subst parse_blocks.simps) (auto split: outcome.splits)
qed

section \<open>A parsed license\<close>

lemma licenses_parse_blocks:
  assumes "licenses_parse now data = Ok ls"
  shows "lics_data ls = data \<and> length (lics_blocks ls) \<le> 8 \<and>
    block_offset ls (length (lics_blocks ls)) = length data \<and>
    (\<forall>i < length (lics_blocks ls).
       license_parse (drop (block_offset ls i) data) = Ok (lics_blocks ls ! i) \<and>
       (\<exists>s e. block_times (block_data ls i) = Ok (s, e) \<and> s \<le> now \<and> now \<le> e \<and>
          (\<forall>j < i. \<exists>s' e'. block_times (block_data ls j) = Ok (s', e') \<and> s' \<le> s \<and> e \<le> e')))"
proof -
  from assms obtain blocks where ne: "data \<noteq> []" and ls: "ls = \<lparr>lics_data = data, lics_blocks = blocks\<rparr>"
    and loop: "parse_blocks data True now 1 None [] = Ok blocks"
    by (auto simp: licenses_parse_def parse_internal_def bind_out_eq_Ok_iff outcome_simps
        split: if_splits)
  from parse_blocks_read [OF blocks_read_start loop] obtain off b
    where read: "blocks_read data True now off b blocks" and stop: "length data \<le> off"
    by blast
  from read [unfolded blocks_read_def Let_def, folded ls] obtain times
    where few: "length blocks \<le> 8" and off: "off = block_offset ls (length blocks)"
    and le: "off \<le> max 1 (length data)"
    and each: "\<And>i. i < length blocks \<Longrightarrow>
       license_parse (drop (block_offset ls i) data) = Ok (blocks ! i) \<and>
       block_times (block_data ls i) = Ok (times ! i) \<and>
       fst (times ! i) \<le> now \<and> now \<le> snd (times ! i) \<and>
       (\<forall>j < i. fst (times ! j) \<le> fst (times ! i) \<and> snd (times ! i) \<le> snd (times ! j))"
    by blast
  have "block_offset ls (length blocks) = length data"
    using off le stop ne by (cases data) auto
  moreover have "\<exists>s e. block_times (block_data ls i) = Ok (s, e) \<and> s \<le> now \<and> now \<le> e \<and>
      (\<forall>j < i. \<exists>s' e'. block_times (block_data ls j) = Ok (s', e') \<and> s' \<le> s \<and> e \<le> e')"
    if "i < length blocks" for i
    using each [OF that] each that
    by (rule_tac exI [of _ "fst (times ! i)"], rule_tac exI [of _ "snd (times ! i)"])
      (auto simp: prod_eq_iff)
  ultimately show ?thesis
    using few each ls by simp
qed

text \<open>A license of two blocks, which is valid at the time of the sample.\<close>

definition sample_license :: bytes where
  "sample_license =
     [1] @ (0 # replicate 32 7 @ [0] @ write_be32 10 @ write_be32 90 @ [0, 0, 0, 5, 0x41, 0]) @
     (0 # replicate 32 9 @ [32] @ write_be32 20 @ write_be32 80)"

definition sample_blocks :: "int license list" where
  "sample_blocks =
     [\<lparr>lic_len = 48, lic_private_key = None, lic_inner = InnerOther\<rparr>,
      \<lparr>lic_len = 42, lic_private_key = None, lic_inner = InnerOther\<rparr>]"

lemma sample_license_parses:
  "licenses_parse (TIMESTAMP_OFFSET + 50) sample_license =
   Ok \<lparr>lics_data = sample_license, lics_blocks = sample_blocks\<rparr>"
  by code_simp

text \<open>C9: a license that parses consists of at most eight blocks that follow each other without a
  gap from the second byte to the end of the data; every block is valid at the time of parsing and
  its period of validity lies within those of all blocks before it.\<close>

theorem licenses_parse_sound:
  assumes "licenses_parse now data = Ok ls"
  shows "lics_data ls = data \<and> length (lics_blocks ls) \<le> 8 \<and>
    block_offset ls (length (lics_blocks ls)) = length data \<and>
    (\<forall>i < length (lics_blocks ls).
       license_parse (drop (block_offset ls i) data) = Ok (lics_blocks ls ! i) \<and>
       (\<exists>s e. block_times (block_data ls i) = Ok (s, e) \<and> s \<le> now \<and> now \<le> e \<and>
          (\<forall>j < i. \<exists>s' e'. block_times (block_data ls j) = Ok (s', e') \<and> s' \<le> s \<and> e \<le> e')))"
  by (rule licenses_parse_blocks [OF assms])

lemma licenses_parse_sound_witness:
  "block_offset \<lparr>lics_data = sample_license, lics_blocks = sample_blocks\<rparr> 2 = 91"
proof -
  have "length sample_blocks = 2" and "length sample_license = 91" by code_simp+
  then show ?thesis
    using licenses_parse_sound [OF sample_license_parses, THEN conjunct2, THEN conjunct2, THEN conjunct1]
    by simp
qed

lemma parse_internal_Panic_iff: "parse_internal now data check_expired = Panic \<longleftrightarrow> data = []"
  by (auto simp: parse_internal_def bind_out_eq_Panic_iff parse_blocks_not_Panic outcome_simps
      split: if_splits)


section \<open>Keys along the chain\<close>

text \<open>
  \<open>pub\<close> maps a private key to its public key; it respects the operations of the scalars, which is
  what the curve promises.
\<close>

definition curve_hom :: "('p, 's) curve \<Rightarrow> ('s \<Rightarrow> 'p) \<Rightarrow> bool" where
  "curve_hom c pub \<longleftrightarrow>
     (\<forall>a b. pub (cv_smul c a b) = cv_mul c (pub a) b) \<and>
     (\<forall>a b. pub (cv_sadd c a b) = cv_add c (pub a) (pub b))"

lemma derive_private_key_block_public:
  assumes "curve_hom c pub" and "derive_private_key_block c l d res = Ok res'"
    and "\<And>k. lic_private_key l = Some k \<Longrightarrow> get_public_key c d = Ok (pub k)"
  shows "derive_public_key_block c d (pub res) = Ok (pub res')"
  using assms
  by (auto simp: derive_private_key_block_def derive_public_key_block_def bind_out_eq_Ok_iff
      curve_hom_def elim!: ok_or.elims)

lemma derive_private_key_from_public:
  assumes hom: "curve_hom c pub"
  shows "derive_private_key_from c data s ls i off res = Ok res' \<Longrightarrow> s \<le> i \<Longrightarrow>
    (\<And>j k. j < length ls \<Longrightarrow> lic_private_key (ls ! j) = Some k \<Longrightarrow>
       get_public_key c (take (lic_len (ls ! j)) (drop (off + sum_list (map lic_len (take j ls))) data)) =
       Ok (pub k)) \<Longrightarrow>
    derive_public_key_from c data ls off (pub res) = Ok (pub res')"
proof (induction ls arbitrary: i off res)
  case (Cons l ls)
  from Cons.prems(1,2) obtain d r where d: "slice data off (off + lic_len l) = (Ok d :: (license_error, _) outcome)"
    and r: "derive_private_key_block c l d res = Ok r"
    and rest: "derive_private_key_from c data s ls (i + 1) (off + lic_len l) r = Ok res'"
    by (auto simp: bind_out_eq_Ok_iff)
  have "d = take (lic_len l) (drop off data)"
    using d by (auto simp: slice_def split: if_splits)
  with Cons.prems(3) [of 0] have "derive_public_key_block c d (pub res) = Ok (pub r)"
    by (intro derive_private_key_block_public [OF hom r]) simp
  moreover have "derive_public_key_from c data ls (off + lic_len l) (pub r) = Ok (pub res')"
    using Cons.prems(2) Cons.prems(3) [of "Suc j" for j]
    by (intro Cons.IH [OF rest]) (simp_all add: add.assoc)
  ultimately show ?case
    using d by simp
qed simp

lemma derive_private_key_from_skip:
  "i + length as \<le> s \<Longrightarrow>
   derive_private_key_from c data s (as @ bs) i off res =
   derive_private_key_from c data s bs (i + length as) (off + sum_list (map lic_len as)) res"
  by (induction as arbitrary: i off) (simp_all add: add.assoc)

lemma derive_public_key_from_append:
  "derive_public_key_from c data (as @ bs) off k =
   bind_out (derive_public_key_from c data as off k) (\<lambda>k.
     derive_public_key_from c data bs (off + sum_list (map lic_len as)) k)"
proof (induction as arbitrary: off k)
  case (Cons l as)
  have IH: "derive_public_key_from c data (as @ bs) o' =
      (\<lambda>k. bind_out (derive_public_key_from c data as o' k)
         (derive_public_key_from c data bs (o' + sum_list (map lic_len as))))" for o'
    by (rule ext) (rule Cons.IH)
  show ?case
    by (simp add: IH bind_out_assoc add.assoc)
qed simp

text \<open>C17: the chain gives matching keys. When every block from the starting block on holds a private
  key that belongs to the public key in its bytes, and the first private key belongs to the key that
  the blocks before it derive from the root, then the derived private key belongs to the derived
  public key.\<close>

theorem derived_keys_match:
  assumes hom: "curve_hom c pub"
    and start: "s \<le> length (lics_blocks ls)" and root: "cv_decompress c root = Some k0"
    and before: "derive_public_key_from c (lics_data ls) (take s (lics_blocks ls)) 1 k0 = Ok (pub first_key)"
    and stored: "\<And>i k. s \<le> i \<Longrightarrow> i < length (lics_blocks ls) \<Longrightarrow>
      lic_private_key (lics_blocks ls ! i) = Some k \<Longrightarrow>
      get_public_key c (block_data ls i) = Ok (pub k)"
    and priv: "derive_private_key c ls s first_key = Ok k"
  shows "derive_public_key c ls root = Ok (pub k)"
proof -
  let ?pre = "take s (lics_blocks ls)" and ?post = "drop s (lics_blocks ls)"
  let ?off = "1 + sum_list (map lic_len ?pre)"
  have blocks: "lics_blocks ls = ?pre @ ?post" by simp
  have "derive_private_key_from c (lics_data ls) s ?post s ?off first_key = Ok k"
    using priv start derive_private_key_from_skip [of 0 ?pre s c "lics_data ls" ?post 1 first_key]
    by (simp add: derive_private_key_def)
  then have "derive_public_key_from c (lics_data ls) ?post ?off (pub first_key) = Ok (pub k)"
  proof (rule derive_private_key_from_public [OF hom])
    fix j k' assume j: "j < length ?post" and k': "lic_private_key (?post ! j) = Some k'"
    have "?off + sum_list (map lic_len (take j ?post)) = block_offset ls (s + j)"
      using start by (simp add: block_offset_def take_add flip: take_map drop_map)
    with stored [of "s + j" k'] j k' start
    show "get_public_key c (take (lic_len (?post ! j))
        (drop (?off + sum_list (map lic_len (take j ?post))) (lics_data ls))) = Ok (pub k')"
      by (simp add: block_data_def)
  qed simp
  with before have "derive_public_key_from c (lics_data ls) (?pre @ ?post) 1 k0 = Ok (pub k)"
    by (simp only: derive_public_key_from_append bind_out.simps)
  then show ?thesis
    using root by (simp add: derive_public_key_def)
qed

text \<open>The integers with addition, where the public key of a number is its triple.\<close>

definition toy_curve :: "(int, int) curve" where
  "toy_curve =
     \<lparr>cv_decompress = (\<lambda>bs. case bs of [] \<Rightarrow> None | b # _ \<Rightarrow> Some (uint b)),
      cv_mul = (*), cv_add = (+), cv_scalar = (\<lambda>bs. uint (hd bs)), cv_smul = (*), cv_sadd = (+),
      cv_sha512 = (\<lambda>d. replicate 64 (of_nat (length d)))\<rparr>"

definition sample_private :: "int licenses" where
  "sample_private =
     \<lparr>lics_data = sample_license,
      lics_blocks = [sample_blocks ! 0, (sample_blocks ! 1)\<lparr>lic_private_key := Some 3\<rparr>]\<rparr>"

lemma derived_keys_match_witness:
  "derive_private_key toy_curve sample_private 1 94 = Ok 214 \<and>
   derive_public_key toy_curve sample_private [2] = Ok (3 * 214)"
proof
  show priv: "derive_private_key toy_curve sample_private 1 94 = Ok 214"
    by code_simp
  show "derive_public_key toy_curve sample_private [2] = Ok (3 * 214)"
  proof (rule derived_keys_match [where s = 1 and pub = "\<lambda>x. 3 * x"])
    show "curve_hom toy_curve (\<lambda>x. 3 * x)"
      by (simp add: curve_hom_def toy_curve_def)
    show "1 \<le> length (lics_blocks sample_private)" by code_simp
    show "cv_decompress toy_curve [2] = Some 2" by code_simp
    show "derive_public_key_from toy_curve (lics_data sample_private)
        (take 1 (lics_blocks sample_private)) 1 2 = Ok (3 * 94)"
      by code_simp
    fix i k
    assume "1 \<le> i" and i: "i < length (lics_blocks sample_private)"
      and k: "lic_private_key (lics_blocks sample_private ! i) = Some k"
    moreover have "length (lics_blocks sample_private) = 2" by code_simp
    ultimately have "i = 1" by simp
    moreover have "lic_private_key (lics_blocks sample_private ! 1) = Some 3" by code_simp
    moreover have "get_public_key toy_curve (block_data sample_private 1) = Ok 9" by code_simp
    ultimately show "get_public_key toy_curve (block_data sample_private i) = Ok (3 * k)"
      using k by simp
  qed (rule priv)
qed

lemma derive_public_key_from_not_Panic:
  assumes "off + sum_list (map lic_len bs) \<le> length data" and "\<forall>b \<in> set bs. 42 \<le> lic_len b"
  shows "derive_public_key_from c data bs off k \<noteq> Panic"
  using assms
proof (induction bs arbitrary: off k)
  case (Cons b bs)
  then show ?case
    by (auto simp: bind_out_eq_Panic_iff derive_public_key_block_def get_public_key_def
        get_hash_key_def outcome_simps)
qed simp

lemma derive_public_key_not_Panic:
  assumes "licenses_parse now data = Ok ls"
  shows "derive_public_key c ls root \<noteq> Panic"
proof -
  from licenses_parse_blocks [OF assms]
  have "derive_public_key_from c (lics_data ls) (lics_blocks ls) 1 k \<noteq> Panic" for k
    by (intro derive_public_key_from_not_Panic) (auto simp: in_set_conv_nth block_offset_def
        dest!: license_parse_bound(1))
  then show ?thesis
    by (auto simp: derive_public_key_def bind_out_eq_Panic_iff)
qed

text \<open>C31: a license that parses has a block where every slice of the derivation looks, so that
  deriving the public key of the server never panics.\<close>

theorem parsed_license_derives:
  assumes "licenses_parse now data = Ok ls"
  shows "derive_public_key c ls root \<noteq> Panic"
  by (rule derive_public_key_not_Panic [OF assms])

lemma parsed_license_derives_witness:
  "derive_public_key toy_curve \<lparr>lics_data = sample_license, lics_blocks = sample_blocks\<rparr> [2] \<noteq> Panic"
  by (rule parsed_license_derives [OF sample_license_parses])

section \<open>Properties that are too short\<close>

text \<open>A TS5 block with one property of two bytes, and an ephemeral block.\<close>

definition short_property_license :: bytes where
  "short_property_license =
     1 # (0 # replicate 32 7 @ [8] @ replicate 8 0 @ [0, 1, 2, 9, 5]) @
     (0 # replicate 32 7 @ [32] @ replicate 8 0)"


end
