(* ===== verification/Client_Safety.thy ===== *)
theory Client_Safety
  imports Client Connection_Safety License_Parsing
begin

text \<open>
  The client on top of the connection: every step of the handshake is a sequence of steps of the
  connection, the handshake makes progress on the answers of an honest server, it accepts a server
  only after checking its license, and it panics only on two kinds of answers.
\<close>

section \<open>Sending succeeds\<close>

text \<open>The cipher encrypts every message.\<close>

definition enc_total :: "env \<Rightarrow> bool" where
  "enc_total env \<longleftrightarrow> (\<forall>k n a m. env_enc env k n a m \<noteq> None)"

definition no_err :: "('e, 'a) outcome \<Rightarrow> bool" where
  "no_err m \<longleftrightarrow> (\<forall>e. m \<noteq> Err e)"

lemma no_err_simps [simp]: "no_err (Ok x)" "no_err Panic" "\<not> no_err (Err e)"
  by (simp_all add: no_err_def)

lemma no_err_bind: "no_err m \<Longrightarrow> (\<And>x. no_err (f x)) \<Longrightarrow> no_err (bind_out m f)"
  by (cases m) simp_all

lemma no_err_bind_con:
  "no_err (fst m) \<Longrightarrow> (\<And>x con. no_err (fst (f x con))) \<Longrightarrow> no_err (fst (bind_con m f))"
  by (cases m; cases "fst m") auto

lemma no_err_unwrap [simp]: "no_err (unwrap x)"
  by (cases x) simp_all

lemma no_err_encrypt_key_nonce:
  "enc_total env \<Longrightarrow> no_err (encrypt_key_nonce (env_enc env) p kn)"
  by (auto simp: encrypt_key_nonce_def enc_total_def split: option.split)

lemma no_err_encrypt: "enc_total env \<Longrightarrow> no_err (encrypt sha (env_enc env) p gen iv cache)"
  by (auto simp: encrypt_def Let_def create_key_nonce_def index_def split: prod.splits
      intro!: no_err_bind no_err_encrypt_key_nonce)

lemma no_err_fst_case:
  "no_err m \<Longrightarrow> (\<And>x. m = Ok x \<Longrightarrow> no_err (fst (f x))) \<Longrightarrow>
   no_err (fst (case m of Ok x \<Rightarrow> f x | Err e \<Rightarrow> (Err e, con) | Panic \<Rightarrow> (Panic, con)))"
  by (cases m) simp_all

lemma no_err_encode_one:
  assumes "enc_total env" shows "no_err (fst (encode_one env t should fake p con))"
proof -
  have enc: "no_err (fst (case con_params con of
        None \<Rightarrow> (Panic, con)
      | Some params \<Rightarrow>
          (case encrypt (env_sha256 env) (env_enc env) q gen (par_shared_iv params) (par_key_cache params) of
             Ok (packet, cache) \<Rightarrow>
               (Ok packet, con\<lparr>con_params := Some (params\<lparr>par_key_cache := cache\<rparr>)\<rparr>)
           | Err e \<Rightarrow> (Err e, con)
           | Panic \<Rightarrow> (Panic, con))))" for q gen
    by (auto intro!: no_err_fst_case no_err_encrypt [OF assms] split: option.split)
  show ?thesis
    unfolding encode_one_def Let_def encrypt_fake_def
    using enc assms by (intro no_err_bind_con) (simp_all add: no_err_encrypt_key_nonce)
qed

lemma no_err_encode_all:
  assumes "enc_total env" shows "no_err (fst (encode_all env t should fake ps con))"
proof (induction ps arbitrary: con)
  case (Cons p ps)
  show ?case
    unfolding encode_all.simps
    by (intro no_err_bind_con no_err_encode_one [OF assms] Cons.IH) simp
qed simp

lemma no_err_compress: "no_err (compress_and_split c cl p)"
  unfolding compress_and_split_def Let_def
  by (auto intro!: no_err_bind)

lemma no_err_set_client_id: "no_err (set_client_id i p)"
  by (simp add: set_client_id_def Let_def)

text \<open>The shape of encoding: a packet, its pieces, and each of them in turn.\<close>

lemma encode_packet_form:
  assumes "hdr_packet_type (out_header p) = Some t"
  obtains m :: "(ts_error, out_packet) outcome" and pieces should fake where
    "encode_packet env p con = bind_con (m, con) (\<lambda>packet con. bind_con (pieces packet con, con)
       (\<lambda>packets con. encode_all env t should fake packets con))"
    and "no_err m" "\<And>packet con. no_err (pieces packet con)"
proof -
  define q where "q = (if is_command t \<and> is_client con then or_flags NEWPROTOCOL p else p)"
  obtain should fake c_id where s: "(case con_params con of
      Some params \<Rightarrow> (should_encrypt t (par_voice_encryption params),
        fake_encrypt (is_client con) t (if t = Init then PartialPacketId 0 0
          else outgoing_p_ids (con_codec con) ! type_index t) q, par_c_id params)
    | None \<Rightarrow> (should_encrypt t False,
        fake_encrypt (is_client con) t (if t = Init then PartialPacketId 0 0
          else outgoing_p_ids (con_codec con) ! type_index t) q \<or> should_encrypt t False, 0)) =
      (should, fake, c_id)" by (rule prod_cases3)
  show thesis
    by (rule that, unfold encode_packet_def Let_def assms unwrap.simps bind_con.simps q_def [symmetric] s
        prod.case, rule refl) (simp_all add: no_err_set_client_id no_err_compress)
qed

lemma no_err_encode_packet:
  assumes "enc_total env" shows "no_err (fst (encode_packet env p con))"
proof (cases "hdr_packet_type (out_header p)")
  case (Some t)
  obtain m :: "(ts_error, out_packet) outcome" and pieces should fake where
    "encode_packet env p con = bind_con (m, con) (\<lambda>packet con. bind_con (pieces packet con, con)
       (\<lambda>packets con. encode_all env t should fake packets con))"
    and "no_err m" "\<And>packet con. no_err (pieces packet con)"
    by (rule encode_packet_form [OF Some, of env con]) (rule that)
  then show ?thesis
    by (simp only:) (intro no_err_bind_con no_err_encode_all [OF assms]; simp only: fst_conv)
qed (simp add: encode_packet_def)

text \<open>Encoded packets that the resender takes.\<close>

definition sendable :: "packet_type \<Rightarrow> out_udp_packet \<Rightarrow> bool" where
  "sendable t u \<longleftrightarrow> udp_packet_type u = Some t \<and> udp_packet_id u \<noteq> None \<and> packet_type_to_index t \<noteq> None"

lemma sendable_ident:
  assumes "sendable t u"
  shows "\<exists>i. udp_ident u = Ok i \<and> pid_type i = t"
  using assms by (auto simp: sendable_def udp_ident_def)

lemma to_index_kind: "packet_type_to_index t \<noteq> None \<Longrightarrow> t = Init \<or> is_command t"
  by (cases t) (simp_all add: is_command_def)

lemma send_udp_packet_succeeds:
  assumes "con_ok con" "sendable t u"
  shows "\<exists>con'. send_udp_packet env u con = (Ok (), con') \<and> con_ok con' \<and> is_client con' = is_client con"
proof -
  obtain i where i: "udp_ident u = Ok i" "pid_type i = t" using sendable_ident [OF assms(2)] by blast
  obtain k where k: "packet_type_to_index t = Some k" "udp_packet_type u = Some t"
    using assms(2) by (auto simp: sendable_def)
  have "\<exists>r. resend_add (env_cubic env) (env_now env) u (con_resender con) = Ok r"
    by (simp add: resend_add_def i k Let_def)
  then obtain con' where s: "send_udp_packet env u con = (Ok (), con')"
    using to_index_kind [of t] k
    by (auto simp: send_udp_packet_def resend_send_packet_def on_resender_def)
  then show ?thesis using keeps_send_udp_packet [OF assms(1), of env u] by simp
qed

lemma send_udp_packets_succeed:
  assumes "con_ok con" "\<forall>u \<in> set us. sendable t u"
  shows "\<exists>con'. send_udp_packets env us con = (Ok (), con') \<and> con_ok con' \<and> is_client con' = is_client con"
  using assms
proof (induction us arbitrary: con)
  case (Cons u us)
  then obtain con1 where 1: "send_udp_packet env u con = (Ok (), con1)" "con_ok con1"
    "is_client con1 = is_client con"
    using send_udp_packet_succeeds [of con t u env] by auto
  then show ?case using Cons.IH [OF 1(2)] Cons.prems(2) by auto
qed simp

lemma send_encoded:
  assumes "encode_packet env p (send_event (SendPacket p) con) = (Ok us, con1)"
    and "con_ok con1" "us \<noteq> []" "\<forall>u \<in> set us. sendable t u"
  shows "\<exists>i con'. send_packet env p con = (Ok i, con') \<and> con_ok con' \<and> is_client con' = is_client con1"
proof -
  obtain i where "udp_ident (last us) = Ok i"
    using sendable_ident assms(3,4) last_in_set by blast
  moreover obtain con' where "send_udp_packets env us con1 = (Ok (), con')" "con_ok con'"
    "is_client con' = is_client con1"
    using send_udp_packets_succeed [OF assms(2,4), of env] by blast
  ultimately show ?thesis using assms(1,3) by (simp add: send_packet_def)
qed

text \<open>Commands of a client are sent.\<close>

lemma send_command_succeeds:
  assumes "con_ok con" "is_client con" "env_ok env" "enc_total env" "packet_of Command C2S p"
  shows "\<exists>i con'. send_packet env p con = (Ok i, con') \<and> con_ok con' \<and> is_client con'"
proof -
  let ?con = "send_event (SendPacket p) con"
  let ?P = "\<lambda>us. us \<noteq> [] \<and> (\<not> is_command Command \<longrightarrow> length us = 1) \<and>
    (\<forall>u \<in> set us. packet_of Command (dir_of True) (udp_data u))"
  have y: "yields False True ?P (encode_packet env p ?con)"
    by (rule yields_encode_packet [OF assms(3)])
      (use assms in \<open>simp_all add: dir_of_def is_voice_def\<close>)
  obtain r con1 where e: "encode_packet env p ?con = (r, con1)" by (cases "encode_packet env p ?con")
  have "r \<noteq> Err x" for x
    using no_err_encode_packet [OF assms(4), of p ?con] by (simp add: e no_err_def)
  moreover have "r \<noteq> Panic" using yields_no_panic [OF y] by (simp add: e)
  ultimately obtain us where r: "r = Ok us" by (cases r) auto
  have "sendable Command u" if "u \<in> set us" for u
    using y that
    by (auto simp: e r yields_pair packet_of_def sendable_def udp_packet_type_def udp_packet_id_def)
  moreover have "con_ok con1" "is_client con1" "us \<noteq> []" using y by (simp_all add: e r yields_pair)
  ultimately show ?thesis using send_encoded [of env p con us con1 Command] e r by blast
qed

lemma first_after: "ppid_add (PartialPacketId 0 0) 1 = PartialPacketId 0 1"
  by (simp add: ppid_add_def overflowing_add16_def)

text \<open>Init packets are sent as they are, with the client id and the mac set.\<close>

lemma encode_init:
  assumes "con_ok con" "is_client con" "packet_of Init C2S p"
  shows "\<exists>q. encode_packet env p con = (Ok [\<lparr>udp_generation_id = 0, udp_data = q\<rparr>], con) \<and>
    packet_of Init C2S q \<and> length (out_data q) = length (out_data p)"
proof -
  define c_id where "c_id = (case con_params con of Some params \<Rightarrow> par_c_id params | None \<Rightarrow> 0)"
  obtain p1 where p1: "set_client_id c_id p = (Ok p1 :: (ts_error, _) outcome)" "packet_of Init C2S p1"
    using packet_of_set_client_id [OF assms(3)] by blast
  define q where "q = (case con_params con of
    Some params \<Rightarrow> set_mac (par_shared_mac params) (or_flags UNENCRYPTED p1)
  | None \<Rightarrow> or_flags UNENCRYPTED p1)"
  have f: "packet_of Init C2S (or_flags UNENCRYPTED p1)"
    by (rule packet_of_or_flags [OF p1(2)]) (simp add: flags_low)
  have mac: "con_params con = Some params \<Longrightarrow> length (par_shared_mac params) = 8" for params
    using assms(1) by (simp add: con_ok_def)
  have "packet_of Init C2S q" "length (out_data q) = length (out_data p)"
    using f mac length_setters(3) [OF assms(3) p1(1)] length_setters(1) [OF p1(2)] length_setters(2) [OF f]
    by (auto simp: q_def packet_of_set_mac split: option.split)
  moreover have "encode_packet env p con = (Ok [\<lparr>udp_generation_id = 0, udp_data = q\<rparr>], con)"
    using assms(2,3) p1(1)
    by (cases "con_params con")
      (simp_all add: encode_packet_def packet_of_def Let_def is_command_def is_voice_def fake_encrypt_def
        c_id_def q_def encode_one_def first_after)
  ultimately show ?thesis by blast
qed

lemma send_init_succeeds:
  assumes "con_ok con" "is_client con" "packet_of Init C2S p" "5 \<le> length (out_content p)"
  shows "\<exists>i con'. send_packet env p con = (Ok i, con') \<and> con_ok con' \<and> is_client con'"
proof -
  have "con_ok (send_event (SendPacket p) con)" "is_client (send_event (SendPacket p) con)"
    using assms(1,2) by simp_all
  from encode_init [OF this assms(3), of env] obtain q where
    q: "encode_packet env p (send_event (SendPacket p) con) =
      (Ok [\<lparr>udp_generation_id = 0, udp_data = q\<rparr>], send_event (SendPacket p) con)"
      "packet_of Init C2S q" "length (out_data q) = length (out_data p)"
    by blast
  have "4 < length (out_content q)"
    using q(2,3) assms(3,4) by (simp add: length_out_content packet_of_def)
  then have "sendable Init \<lparr>udp_generation_id = 0, udp_data = q\<rparr>"
    using q(2) by (simp add: sendable_def udp_packet_type_def udp_packet_id_def packet_of_def)
  then show ?thesis
    using send_encoded [OF q(1), of Init] assms(1,2) by auto
qed

text \<open>The packets of the handshake.\<close>

lemma packet_of_extend: "packet_of t dir p \<Longrightarrow> packet_of t dir (out_extend d p)"
  unfolding packet_of_parts
proof (elim exE conjE)
  fix h tb c assume "p = \<lparr>out_dir = dir, out_data = h @ tb # c\<rparr>" "length h = get_off dir"
    "packet_type_from_u8 (tb AND 0xf) = Some t"
  then show "\<exists>h tb c. out_extend d p = \<lparr>out_dir = dir, out_data = h @ tb # c\<rparr> \<and>
      length h = get_off dir \<and> packet_type_from_u8 (tb AND 0xf) = Some t"
    by (intro exI [of _ h] exI [of _ tb] exI [of _ "c @ d"]) (simp add: out_extend_def)
qed

lemma packet_of_init: "packet_of Init dir (init_packet dir body)"
proof -
  have "packet_of Init dir \<lparr>out_dir = dir, out_data = init_header dir @ 8 # body\<rparr>"
    unfolding packet_of_parts
    by (intro exI [of _ "init_header dir"] exI [of _ 8] exI [of _ body])
      (simp add: packet_type_from_u8_def)
  moreover have "init_packet dir body = \<lparr>out_dir = dir, out_data = init_header dir @ 8 # body\<rparr>"
    using init_packet_data [of dir body] out_dir_setters(8) [of dir body]
    by (cases "init_packet dir body") simp
  ultimately show ?thesis by simp
qed

lemma init_packet_content: "out_content (init_packet dir body) = body"
  using init_packet_data [of dir body] by (simp add: out_content_def header_len_Suc)

lemma packet_of_command_new: "packet_of t dir (out_command_new dir 0 t name)"
  unfolding out_command_new_def
proof (rule packet_of_extend)
  have "hdr_packet_type (out_header (set_flags 0 (out_new_with_dir dir 0 t))) = Some t"
    by (simp add: set_flags_def Let_def out_new_with_dir_eq out_header_def hdr_packet_type_def
        nth_append header_bytes_def header_len_Suc type_byte_low [of 0, simplified])
  then show "packet_of t dir (set_flags 0 (out_new_with_dir dir 0 t))"
    by (simp add: packet_of_def wf_out_setters)
qed

lemma packet_of_write_arg:
  assumes "packet_of t dir p" shows "packet_of t dir (write_arg name v p)"
proof -
  have "write_arg name v p = out_extend (render_arg (name, v)) (write_separator p)"
    by (simp add: write_arg_def Let_def render_arg_def out_extend_def butlast_append)
  then show ?thesis using assms by (simp add: write_separator_def packet_of_extend)
qed

section \<open>The client takes steps of its connection\<close>

abbreviation con_steps :: "connection \<Rightarrow> connection \<Rightarrow> bool" where
  "con_steps \<equiv> con_step\<^sup>*\<^sup>*"

lemma snd_lift_con [simp]: "snd (lift_con m) = snd m"
  by (simp add: lift_con_def)

lemma snd_bind_cl_refines:
  assumes "con_steps con (snd m)" "\<And>x con'. fst m = Ok x \<Longrightarrow> con_steps con' (snd (f x con'))"
  shows "con_steps con (snd (bind_cl m f))"
  using assms by (cases m; cases "fst m") (auto intro: rtranclp_trans)

lemma set_state_step [intro]: "con_steps con (set_resender_state env st con)"
  unfolding set_resender_state_def by (rule r_into_rtranclp) (rule step_state)

lemma send_packet_step: "con_steps con (snd (send_packet env p con))"
  by (rule r_into_rtranclp, rule step_send [of env p con "fst (send_packet env p con)"]) simp

lemma client_send_steps: "con_steps con (snd (client_send_packet env p con))"
proof -
  have "con_steps con (snd (lift_con (send_packet env p (if b then set_resender_state env st con else con))))"
    for b st and con :: connection
    using rtranclp_trans [OF set_state_step send_packet_step] send_packet_step by auto
  then show ?thesis
    unfolding client_send_packet_def Let_def by (intro snd_bind_cl_refines) simp_all
qed

lemma plugin_loop_steps: "con_steps con (snd (plugin_loop env items g r sender con))"
proof (induction env items g r sender con rule: plugin_loop.induct)
  case (3 env items g r sender con)
  have "con_steps con (snd (bind_cl (client_send_packet (ce_con env) (version_reply env s) con)
      (\<lambda>_ con. plugin_loop env items g r sender con)))" if "sender = Some s" "g \<and> r" for s
    by (rule snd_bind_cl_refines [OF client_send_steps]) (use 3 that in blast)
  with 3 show ?case by (auto split: option.split)
qed simp_all

lemma set_client_number_step:
  assumes "con_params con = Some params"
  shows "con_steps con (set_client_number params i con)"
proof -
  have "set_client_number params i con =
      con\<lparr>con_params := Some (params\<lparr>par_c_id := i, par_voice_encryption := par_voice_encryption params\<rparr>)\<rparr>"
    by (simp add: set_client_number_def)
  then show ?thesis by (metis r_into_rtranclp step_client_id [OF assms])
qed

lemma client_handle_command_steps: "con_steps con (snd (client_handle_command env command con))"
proof -
  obtain name args where n: "command_parser_new (pkt_content command) = (name, args)"
    by (cases "command_parser_new (pkt_content command)")
  have init: "con_steps con (snd (bind_cl (initserver_id items, con) (\<lambda>c_id con.
      case c_id of
        Some i \<Rightarrow> (Ok (), set_resender_state (ce_con env) Connected (set_client_number params i con))
      | None \<Rightarrow> (Err NoClientId, con))))" if "con_params con = Some params" for params items
    using rtranclp_trans [OF set_client_number_step [OF that] set_state_step]
    by (cases "initserver_id items") (auto split: option.split)
  have left: "con_steps con (snd (bind_cl (own_client_left i items False, con) (\<lambda>own con.
      (Ok (), if own then set_resender_state (ce_con env) Disconnected con else con))))" for i items
    by (cases "own_client_left i items False") auto
  show ?thesis
    using init left plugin_loop_steps
    unfolding client_handle_command_def n Let_def prod.case
    by (auto split: option.split)
qed

lemma client_inspect_steps: "con_steps con (snd (client_inspect env item con))"
proof (cases item)
  case (ItemCommand command)
  then show ?thesis
    unfolding client_inspect_def
    by (simp add: snd_bind_cl_refines [OF client_handle_command_steps])
qed (simp_all add: client_inspect_def)

lemma enter_phase_con [simp]: "cl_con (snd (enter_phase cl ph m)) = snd m"
  by (simp add: enter_phase_def split: outcome.split prod.split)

lemma send_init0_steps: "con_steps (cl_con cl) (cl_con (snd (send_init0 env cl)))"
  by (simp add: send_init0_def client_send_steps)

lemma check_expand_mac:
  assumes "check_expand env alpha a = Ok (key, beta, iv, mac)" "\<forall>d. 8 \<le> length (ce_sha1 env d)"
  shows "length mac = 8"
  using assms
  by (auto simp: check_expand_def bind_out_eq_Ok_iff compute_iv_mac_def Let_def
      split: option.splits if_splits)

lemma on_expand_steps:
  assumes "\<forall>d. 8 \<le> length (ce_sha1 env d)"
  shows "con_steps (cl_con cl) (cl_con (snd (on_expand env command cl)))"
proof -
  obtain name args where n: "command_parser_new (pkt_content command) = (name, args)"
    by (cases "command_parser_new (pkt_content command)")
  let ?m = "bind_out (expand_loop env (parse_items args) expand_args_default) (check_expand env (cl_alpha cl))"
  show ?thesis
  proof (cases "name = bstr ''initivexpand2''")
    case True
    show ?thesis
    proof (cases ?m)
      case (Ok x)
      obtain key beta iv mac where x: "x = (key, beta, iv, mac)" by (cases x)
      then have "length mac = 8"
        using Ok check_expand_mac [OF _ assms] by (auto simp: bind_out_eq_Ok_iff)
      then have "con_steps (cl_con cl) (install_params key iv mac (cl_con cl))"
        unfolding install_params_def by (intro r_into_rtranclp step_params)
      then show ?thesis
        using rtranclp_trans [OF _ client_send_steps] by (simp add: on_expand_def n True Ok x)
    qed (simp_all add: on_expand_def n True)
  qed (simp add: on_expand_def n)
qed

lemma on_init_steps:
  "con_steps (cl_con cl) (cl_con (snd (on_init1 env d cl)))"
  "con_steps (cl_con cl) (cl_con (snd (on_init3 env d cl)))"
  using send_init0_steps
  by (auto simp: on_init1_def on_init3_def client_send_steps Let_def
      split: s2c_init_data.split outcome.split)

lemma phase_step_steps:
  assumes "\<forall>d. 8 \<le> length (ce_sha1 env d)"
  shows "con_steps (cl_con cl) (cl_con (snd (phase_step env item cl)))"
  by (simp add: phase_step_def on_init_steps on_expand_steps [OF assms] split: phase.split option.split)

lemma connect_step_steps:
  assumes "\<forall>d. 8 \<le> length (ce_sha1 env d)"
  shows "con_steps (cl_con cl) (cl_con (snd (connect_step env item cl)))"
proof -
  obtain r con where i: "client_inspect env item (cl_con cl) = (r, con)"
    by (cases "client_inspect env item (cl_con cl)")
  have s: "con_steps (cl_con cl) con" using client_inspect_steps [of "cl_con cl" env item] by (simp add: i)
  show ?thesis
    using s rtranclp_trans [OF s] phase_step_steps [OF assms, of "cl\<lparr>cl_con := con\<rparr>"]
    by (auto simp: connect_step_def i split: outcome.split)
qed

lemma connect_start_steps: "con_steps con (cl_con (snd (connect_start env con)))"
  unfolding connect_start_def Let_def using send_init0_steps [where cl = "\<lparr>cl_con = con, cl_phase = p,
    cl_version = v, cl_timestamp = t, cl_random0 = r, cl_alpha = a\<rparr>" for p v t r a] by simp

lemma client_poll_steps:
  assumes "env_ok (ce_con env)" "client_poll_next fuel env evs con = Some ((res, con'), evs')" "res \<noteq> Panic"
  shows "con_steps con con'"
proof -
  obtain m con1 where p: "poll_next fuel (ce_con env) evs con = Some ((m, con1), evs')"
    and r: "bind_cl (lift_con (m, con1)) (\<lambda>r con. case r of
        NextItem item \<Rightarrow> bind_cl (client_inspect env item con) (\<lambda>item con. (Ok (NextItem item), con))
      | _ \<Rightarrow> (Ok r, con)) = (res, con')"
    using assms(2) by (auto simp: client_poll_next_def)
  have "m \<noteq> Panic" using r assms(3) by (auto simp: lift_con_def)
  then have s: "con_steps con con1" using step_poll [OF assms(1) p] by blast
  have "con_steps con1 (snd (bind_cl (lift_con (m, con1)) (\<lambda>r con. case r of
        NextItem item \<Rightarrow> bind_cl (client_inspect env item con) (\<lambda>item con. (Ok (NextItem item), con))
      | _ \<Rightarrow> (Ok r, con))))"
    by (rule snd_bind_cl_refines)
      (auto intro: snd_bind_cl_refines [OF client_inspect_steps] split: next_item_poll.split)
  then show ?thesis using rtranclp_trans [OF s] by (simp add: r)
qed

section \<open>Sending keeps the keys\<close>

text \<open>The key of the server, the iv and the mac of a connection.\<close>

definition keys_of :: "connection \<Rightarrow> (bytes \<times> bytes \<times> bytes) option" where
  "keys_of con =
     map_option (\<lambda>p. (par_public_key p, par_shared_iv p, par_shared_mac p)) (con_params con)"

lemma keys_of_updates [simp]:
  "keys_of (con\<lparr>con_resender := r\<rparr>) = keys_of con" "keys_of (con\<lparr>con_codec := c\<rparr>) = keys_of con"
  "keys_of (con\<lparr>acks_to_send := as\<rparr>) = keys_of con" "keys_of (send_event e con) = keys_of con"
  "keys_of (con\<lparr>con_params := Some (p\<lparr>par_key_cache := k\<rparr>)\<rparr>) = keys_of (con\<lparr>con_params := Some p\<rparr>)"
  "con_params con = Some p \<Longrightarrow> keys_of (con\<lparr>con_params := Some p\<rparr>) = keys_of con"
  by (simp_all add: keys_of_def send_event_def)

lemma bind_con_keeps_keys:
  assumes "keys_of (snd m) = k" "\<And>x con. keys_of con = k \<Longrightarrow> keys_of (snd (f x con)) = k"
  shows "keys_of (snd (bind_con m f)) = k"
  using assms by (cases m; cases "fst m") auto

lemma keys_encode_one: "keys_of (snd (encode_one env t should fake p con)) = keys_of con"
  unfolding encode_one_def Let_def
  by (rule bind_con_keeps_keys) (auto split: option.split outcome.split prod.split)

lemma keys_encode_all: "keys_of (snd (encode_all env t should fake ps con)) = keys_of con"
proof (induction ps arbitrary: con)
  case (Cons p ps)
  show ?case
    unfolding encode_all.simps
    by (rule bind_con_keeps_keys [OF keys_encode_one], rule bind_con_keeps_keys)
      (simp_all add: Cons.IH)
qed simp

lemma keys_encode_packet: "keys_of (snd (encode_packet env p con)) = keys_of con"
proof (cases "hdr_packet_type (out_header p)")
  case (Some t)
  have "keys_of (snd (bind_con (m, con) (\<lambda>p con. bind_con (pieces p con, con)
      (\<lambda>ps con. encode_all env t should fake ps con)))) = keys_of con" for m pieces should fake
    by (rule bind_con_keeps_keys, simp, rule bind_con_keeps_keys) (simp_all add: keys_encode_all)
  moreover obtain m :: "(ts_error, out_packet) outcome" and pieces should fake where
    "encode_packet env p con = bind_con (m, con) (\<lambda>packet con. bind_con (pieces packet con, con)
       (\<lambda>packets con. encode_all env t should fake packets con))"
    by (rule encode_packet_form [OF Some, of env con])
  ultimately show ?thesis by simp
qed (simp add: encode_packet_def)

lemma keys_send_packet: "keys_of (snd (send_packet env p con)) = keys_of con"
proof -
  have one: "keys_of (snd (send_udp_packet env u con)) = keys_of con" for u con
    unfolding send_udp_packet_def resend_send_packet_def on_resender_def
    by (rule bind_con_keeps_keys) (auto split: outcome.split)
  have all: "keys_of (snd (send_udp_packets env us con)) = keys_of con" for us con
  proof (induction us arbitrary: con)
    case (Cons u us)
    show ?case
      unfolding send_udp_packets.simps
      by (rule bind_con_keeps_keys [OF one]) (simp add: Cons.IH)
  qed simp
  have "keys_of (snd (bind_con (udp_ident u, con) (\<lambda>ident con.
      bind_con (send_udp_packets env us con) (\<lambda>_ con. (Ok ident, con))))) = keys_of con" for u us con
    by (rule bind_con_keeps_keys, simp, rule bind_con_keeps_keys) (simp_all add: all)
  then show ?thesis
    unfolding send_packet_def
    by (intro bind_con_keeps_keys) (simp_all add: keys_encode_packet)
qed

lemma bind_cl_unwrap:
  "snd (bind_cl (unwrap x, con) f) = (case x of None \<Rightarrow> con | Some y \<Rightarrow> snd (f y con))"
  by (simp split: option.split)

lemma keys_client_send: "keys_of (snd (client_send_packet env p con)) = keys_of con"
  by (simp add: client_send_packet_def Let_def bind_cl_unwrap set_resender_state_def keys_send_packet
      split: option.split)

section \<open>The answers of an honest server\<close>

definition ready :: "connection \<Rightarrow> bool" where
  "ready con \<longleftrightarrow> con_ok con \<and> is_client con"

lemma reachable_ready: "reachable True con \<Longrightarrow> ready con"
  using reachable_ok by (simp add: ready_def)

lemma ready_set_state [simp]: "ready (set_resender_state env st con) = ready con"
proof -
  have "resender_ok (set_state now st r) = resender_ok r" for now r
    by (simp add: set_state_def Let_def resender_ok_fields)
  then show ?thesis by (simp add: ready_def set_resender_state_def con_ok_def in_dir_def)
qed

lemma ready_install: "ready con \<Longrightarrow> length mac = 8 \<Longrightarrow> ready (install_params key iv mac con)"
  using con_step_ok [OF step_params] by (auto simp: ready_def install_params_def)

text \<open>The client sends what it builds, whether or not that moves the resender to another state.\<close>

lemma client_send_succeeds:
  assumes "ready con" "hdr_packet_type (out_header p) = Some t"
    and "\<And>con. ready con \<Longrightarrow> \<exists>i con'. send_packet env p con = (Ok i, con') \<and> ready con'"
  shows "\<exists>i con'. client_send_packet env p con = (Ok i, con') \<and> ready con'"
proof -
  let ?con = "if t = Command \<and> starts_with (out_content p) (bstr ''clientdisconnect'')
    then set_resender_state env Disconnecting con else con"
  have "ready ?con" using assms(1) by simp
  from assms(3) [OF this] obtain i con' where "send_packet env p ?con = (Ok i, con')" "ready con'"
    by blast
  then show ?thesis
    using assms(2) by (simp add: client_send_packet_def lift_con_def Let_def)
qed

lemma client_send_init:
  assumes "ready con" "5 \<le> length body"
  shows "\<exists>i con'. client_send_packet env (init_packet C2S body) con = (Ok i, con') \<and> ready con'"
  using send_init_succeeds [OF _ _ packet_of_init, of _ body] assms(2) packet_of_init [of C2S body]
  by (intro client_send_succeeds [OF assms(1), of _ Init])
    (auto simp: init_packet_content ready_def packet_of_def)

lemma client_send_command:
  assumes "ready con" "env_ok env" "enc_total env" "packet_of Command C2S p"
  shows "\<exists>i con'. client_send_packet env p con = (Ok i, con') \<and> ready con'"
  using send_command_succeeds [OF _ _ assms(2-4)] assms(4)
  by (intro client_send_succeeds [OF assms(1), of _ Command]) (auto simp: ready_def packet_of_def)

lemma packet_of_clientek: "packet_of Command C2S (clientek_command env beta)"
  by (simp add: clientek_command_def Let_def packet_of_write_arg packet_of_command_new)

lemma packet_of_version_reply: "packet_of Command C2S (version_reply env s)"
  by (simp add: version_reply_def Let_def packet_of_write_arg packet_of_command_new)

text \<open>
  What the server has to answer in each phase: a puzzle that is not too hard and has a modulus, an
  \<open>initivexpand2\<close> whose arguments pass the checks, and an acknowledgement of the last command.
\<close>

definition expands :: "('p, 's) client_env \<Rightarrow> bytes \<Rightarrow> in_packet \<Rightarrow> bytes \<times> bytes \<times> bytes \<times> bytes \<Rightarrow> bool" where
  "expands env alpha command v \<longleftrightarrow>
     (let (name, args) = command_parser_new (pkt_content command)
      in name = bstr ''initivexpand2'' \<and>
         bind_out (expand_loop env (parse_items args) expand_args_default) (check_expand env alpha) = Ok v)"

fun honest_answer :: "('p, 's) client_env \<Rightarrow> client \<Rightarrow> stream_item \<Rightarrow> bool" where
  "honest_answer env cl (ItemS2CInit p (Init1 random1 random0_r)) = (cl_phase cl = PhaseInit1)"
| "honest_answer env cl (ItemS2CInit p (Init3 x n level random2)) =
     (cl_phase cl = PhaseInit3 \<and> level \<le> 10000000 \<and> length n = 64 \<and> be_val n \<noteq> 0)"
| "honest_answer env cl (ItemCommand command) =
     (cl_phase cl = PhaseExpand \<and> (\<exists>v. expands env (cl_alpha cl) command v))"
| "honest_answer env cl (ItemAckPacket a) =
     (\<exists>i. cl_phase cl = PhaseAck i \<and> acknowledges i (ItemAckPacket a))"
| "honest_answer env cl _ = False"

fun phase_rank :: "phase \<Rightarrow> nat" where
  "phase_rank PhaseInit1 = 0"
| "phase_rank PhaseInit3 = 1"
| "phase_rank PhaseExpand = 2"
| "phase_rank (PhaseAck _) = 3"
| "phase_rank PhaseDone = 4"

text \<open>The modular power of the big integer crate, which panics on the modulus 0.\<close>

definition modpow_ok :: "('p, 's) client_env \<Rightarrow> bool" where
  "modpow_ok env \<longleftrightarrow> (\<forall>b e m. ce_modpow env b e m = (if m = 0 then None else Some (b ^ e mod m)))"

lemma solve_puzzle_cases:
  assumes "modpow_ok env" "length n = 64"
  shows "solve_puzzle env x n level = Panic \<longleftrightarrow> be_val n = 0" "solve_puzzle env x n level \<noteq> Err e"
proof -
  have "be_val x ^ 2 ^ unat level mod be_val n < 256 ^ 64" if "be_val n \<noteq> 0"
    using that be_val_bound [of n] assms(2) mod_less_divisor [of "be_val n" "be_val x ^ 2 ^ unat level"]
    by (simp del: mod_less_divisor)
  then show "solve_puzzle env x n level = Panic \<longleftrightarrow> be_val n = 0" "solve_puzzle env x n level \<noteq> Err e"
    using assms(1) by (auto simp: solve_puzzle_def modpow_ok_def biguint_to_array_eq simp del: be_bytes.simps)
qed

text \<open>The environment of an honest run.\<close>

definition client_env_ok :: "('p, 's) client_env \<Rightarrow> bool" where
  "client_env_ok env \<longleftrightarrow> env_ok (ce_con env) \<and> enc_total (ce_con env) \<and> modpow_ok env \<and>
     (\<forall>d. 8 \<le> length (ce_sha1 env d))"

lemma enter_phase_Ok:
  assumes "\<exists>i con'. m = (Ok i, con') \<and> ready con'"
  shows "\<exists>cl' i. enter_phase cl ph m = (Ok (), cl') \<and> cl_phase cl' = ph i \<and> ready (cl_con cl')"
  using assms by (auto simp: enter_phase_def)

lemma send_init0_succeeds:
  assumes "ready (cl_con cl)"
  shows "\<exists>cl'. send_init0 env cl = (Ok (), cl') \<and> cl_phase cl' = PhaseInit1 \<and> ready (cl_con cl')"
  using enter_phase_Ok [OF client_send_init [OF assms], of _ cl "\<lambda>_. PhaseInit1"]
  by (simp add: send_init0_def out_c2s_init0_def)

lemma on_init1_succeeds:
  assumes "ready (cl_con cl)"
  shows "\<exists>cl'. on_init1 env (Init1 r16 r4) cl = (Ok (), cl') \<and> cl_phase cl' = PhaseInit3 \<and> ready (cl_con cl')"
  using enter_phase_Ok [OF client_send_init [OF assms], of _ cl "\<lambda>_. PhaseInit3"]
  by (simp add: on_init1_def out_c2s_init2_def)

lemma on_init3_succeeds:
  assumes "ready (cl_con cl)" "level \<le> 10000000" "solve_puzzle env x n level = Ok y"
  shows "\<exists>cl'. on_init3 env (Init3 x n level r) cl = (Ok (), cl') \<and> cl_phase cl' = PhaseExpand \<and>
    ready (cl_con cl')"
  using enter_phase_Ok [OF client_send_init [OF assms(1)], of _ "cl\<lparr>cl_alpha := ce_alpha env\<rparr>"
      "\<lambda>_. PhaseExpand"] assms(2,3)
  by (simp add: on_init3_def out_c2s_init4_def Let_def not_less)

lemma on_expand_eq:
  "expands env (cl_alpha cl) command (key, beta, iv, mac) \<Longrightarrow>
   on_expand env command cl = enter_phase cl PhaseAck
     (client_send_packet (ce_con env) (clientek_command env beta) (install_params key iv mac (cl_con cl)))"
  by (simp add: expands_def on_expand_def split: prod.splits)

lemma on_expand_succeeds:
  assumes "ready (cl_con cl)" "client_env_ok env" "expands env (cl_alpha cl) command v"
  shows "\<exists>cl' i. on_expand env command cl = (Ok (), cl') \<and> cl_phase cl' = PhaseAck i \<and> ready (cl_con cl')"
proof -
  obtain key beta iv mac where v: "v = (key, beta, iv, mac)" by (cases v)
  have "length mac = 8"
    using assms(2,3) check_expand_mac
    by (auto simp: expands_def v bind_out_eq_Ok_iff client_env_ok_def split: prod.splits)
  then have "ready (install_params key iv mac (cl_con cl))" using ready_install [OF assms(1)] by blast
  from enter_phase_Ok [OF client_send_command [OF this _ _ packet_of_clientek, of "ce_con env"]]
  show ?thesis
    using on_expand_eq [OF assms(3) [unfolded v]] assms(2) by (simp add: client_env_ok_def)
qed

lemma expand_name:
  "bstr ''initivexpand2'' \<noteq> bstr ''initserver''"
  "bstr ''initivexpand2'' \<noteq> bstr ''notifyclientleftview''"
  "bstr ''initivexpand2'' \<noteq> bstr ''notifyplugincmd''"
  by code_simp+

lemma expand_not_inspected:
  "expands env alpha command v \<Longrightarrow> client_inspect env (ItemCommand command) con = (Ok (ItemCommand command), con)"
  by (auto simp: expands_def client_inspect_def client_handle_command_def expand_name split: prod.splits)

lemma honest_step:
  assumes "ready (cl_con cl)" "client_env_ok env" "honest_answer env cl item"
  shows "\<exists>cl'. connect_step env item cl = (Ok (), cl') \<and>
    phase_rank (cl_phase cl') = Suc (phase_rank (cl_phase cl)) \<and> ready (cl_con cl')"
proof (cases item)
  case (ItemS2CInit p d)
  show ?thesis
  proof (cases d)
    case (Init1 r16 r4)
    then show ?thesis
      using assms on_init1_succeeds [OF assms(1)] ItemS2CInit
      by (fastforce simp: connect_step_def client_inspect_def phase_step_def)
  next
    case (Init3 x n level r)
    have n: "length n = 64" "be_val n \<noteq> 0" "level \<le> 10000000" "cl_phase cl = PhaseInit3"
      using assms(3) by (simp_all add: ItemS2CInit Init3)
    then obtain y where "solve_puzzle env x n level = Ok y"
      using solve_puzzle_cases [of env n x level] assms(2)
      by (cases "solve_puzzle env x n level") (auto simp: client_env_ok_def)
    then show ?thesis
      using on_init3_succeeds [OF assms(1) n(3)] n(4) ItemS2CInit Init3
      by (fastforce simp: connect_step_def client_inspect_def phase_step_def)
  qed (use assms(3) ItemS2CInit in simp)
next
  case (ItemCommand command)
  then obtain v where v: "cl_phase cl = PhaseExpand" "expands env (cl_alpha cl) command v"
    using assms(3) by auto
  then show ?thesis
    using on_expand_succeeds [OF assms(1,2) v(2)] expand_not_inspected [OF v(2)] ItemCommand
    by (fastforce simp: connect_step_def phase_step_def)
next
  case (ItemAckPacket a)
  then show ?thesis
    using assms(1,3) by (auto simp: connect_step_def client_inspect_def phase_step_def)
qed (use assms(3) in simp_all)

text \<open>
  A run of the handshake: answers of the server, with any number of steps of the connection between
  them. The counter is the number of the answers.
\<close>

inductive handshake_run :: "('p, 's) client_env \<Rightarrow> client \<Rightarrow> nat \<Rightarrow> client \<Rightarrow> bool" for env cl where
  run_start: "handshake_run env cl 0 cl"
| run_connection: "handshake_run env cl n cl1 \<Longrightarrow> con_step (cl_con cl1) con \<Longrightarrow>
    handshake_run env cl n (cl1\<lparr>cl_con := con\<rparr>)"
| run_answer: "handshake_run env cl n cl1 \<Longrightarrow> honest_answer env cl1 item \<Longrightarrow>
    connect_step env item cl1 = (res, cl2) \<Longrightarrow> handshake_run env cl (Suc n) cl2"

lemma handshake_run_rank:
  assumes "handshake_run env cl n cl'" "ready (cl_con cl)" "client_env_ok env" "cl_phase cl = PhaseInit1"
  shows "phase_rank (cl_phase cl') = n \<and> ready (cl_con cl')"
  using assms
proof induction
  case (run_connection n cl1 con)
  then show ?case using con_step_ok [of "cl_con cl1" con] by (auto simp: ready_def)
next
  case (run_answer n cl1 item res cl2)
  then show ?case using honest_step [of cl1 env item] by auto
qed simp

lemma connect_start_succeeds:
  assumes "ready con"
  shows "\<exists>cl. connect_start env con = (Ok (), cl) \<and> cl_phase cl = PhaseInit1 \<and> ready (cl_con cl)"
  unfolding connect_start_def Let_def by (rule send_init0_succeeds) (simp add: assms)

section \<open>Where the client panics\<close>

lemma con_steps_ready: "con_steps con con' \<Longrightarrow> ready con \<Longrightarrow> ready con'"
  by (induction rule: rtranclp_induct) (auto simp: ready_def dest: con_step_ok)

lemma initserver_id_not_Panic: "initserver_id items \<noteq> Panic"
  by (induction items rule: initserver_id.induct) (simp_all split: option.split)

lemma own_client_left_not_Panic: "own_client_left own items acc \<noteq> Panic"
  by (induction own items acc rule: own_client_left.induct) (simp_all split: option.split)

lemma plugin_loop_not_Panic:
  assumes "env_ok (ce_con env)" "enc_total (ce_con env)" "ready con"
  shows "fst (plugin_loop env items g r sender con) \<noteq> Panic"
  using assms
proof (induction env items g r sender con rule: plugin_loop.induct)
  case (3 env items g r sender con)
  have "fst (bind_cl (client_send_packet (ce_con env) (version_reply env s) con)
      (\<lambda>_ con. plugin_loop env items g r sender con)) \<noteq> Panic" if s: "sender = Some s" "g \<and> r" for s
  proof -
    obtain i con' where "client_send_packet (ce_con env) (version_reply env s) con = (Ok i, con')" "ready con'"
      using client_send_command [OF _ _ _ packet_of_version_reply] 3 by blast
    then show ?thesis using 3 s by simp
  qed
  with 3 show ?case by (auto split: option.split)
qed simp_all

lemma client_handle_command_not_Panic:
  assumes "env_ok (ce_con env)" "enc_total (ce_con env)" "ready con"
  shows "fst (client_handle_command env command con) \<noteq> Panic"
proof -
  obtain name args where n: "command_parser_new (pkt_content command) = (name, args)"
    by (cases "command_parser_new (pkt_content command)")
  have lift: "fst (bind_cl (m, con) f) \<noteq> Panic"
    if "m \<noteq> Panic" "\<And>x. fst (f x con) \<noteq> Panic" for m :: "(client_error, 'x) outcome" and f :: "'x \<Rightarrow> _ \<Rightarrow> unit client_result"
    using that by (cases m) simp_all
  show ?thesis
    using plugin_loop_not_Panic [OF assms]
    unfolding client_handle_command_def n Let_def prod.case
    by (auto split: option.split
        simp: lift [OF initserver_id_not_Panic] lift [OF own_client_left_not_Panic])
qed

lemma client_inspect_cases:
  assumes "env_ok (ce_con env)" "enc_total (ce_con env)" "ready con"
  obtains (passed) con' where "client_inspect env item con = (Ok item, con')" "ready con'"
  | (failed) e con' command where "client_inspect env item con = (Err e, con')" "item = ItemCommand command"
proof -
  obtain r con' where i: "client_inspect env item con = (r, con')" by (cases "client_inspect env item con")
  have "ready con'" using con_steps_ready [OF client_inspect_steps assms(3), of env item] by (simp add: i)
  moreover have "r = Ok item \<or> (\<exists>e command. r = Err e \<and> item = ItemCommand command)"
  proof (cases item)
    case (ItemCommand command)
    then show ?thesis
      using i client_handle_command_not_Panic [OF assms, of command]
      by (cases "client_handle_command env command con"; cases "fst (client_handle_command env command con)")
        (auto simp: client_inspect_def)
  qed (use i in \<open>auto simp: client_inspect_def\<close>)
  ultimately show thesis using i passed failed by blast
qed

lemma expand_loop_not_Panic: "expand_loop env items a \<noteq> Panic"
proof (induction env items a rule: expand_loop.induct)
  case (3 env name v items a)
  have "decode_arg env label v \<noteq> Panic" for label by (simp add: decode_arg_def)
  then have "expand_arg env name v a \<noteq> Panic"
    by (auto simp: expand_arg_def bind_out_eq_Panic_iff)
  with 3 show ?case by (auto simp: bind_out_eq_Panic_iff)
qed simp_all

lemma map_err_eq_Panic [simp]: "map_err f m = Panic \<longleftrightarrow> m = Panic"
  by (cases m) simp_all

lemma licenses_parse_Panic_iff: "licenses_parse now l = Panic \<longleftrightarrow> l = []"
  by (simp add: licenses_parse_def parse_internal_Panic_iff)

lemma license_checks_Panic_iff:
  fixes c :: "('p, 's) curve"
  shows "bind_out (map_err ParseLicense (licenses_parse now l)) (\<lambda>ls.
      bind_out (map_err ParseLicense (derive_public_key c ls rk)) (\<lambda>k. Ok (f k))) = Panic \<longleftrightarrow> l = []"
  using licenses_parse_Panic_iff [of now l, where 'a = 's]
  by (cases "licenses_parse now l :: (license_error, 's licenses) outcome")
    (auto simp: bind_out_eq_Panic_iff dest: derive_public_key_not_Panic)

lemma check_expand_Panic_iff:
  "check_expand env alpha a = Panic \<longleftrightarrow>
     ea_ot a \<and> ea_l a = Some [] \<and> (\<exists>beta key proof. ea_beta a = Some beta \<and> ea_server_key a = Some key \<and>
       ea_proof a = Some proof \<and> ce_verify env key [] proof \<and> length beta = 54)"
  by (auto simp: check_expand_def Let_def split_beta license_checks_Panic_iff split: option.split)

text \<open>What the step of the expansion leaves behind.\<close>

lemma keys_install: "keys_of (install_params key iv mac con) = Some (key, iv, mac)"
  by (simp add: keys_of_def install_params_def connected_params_new_def)

lemma enter_phase_cases:
  "enter_phase cl ph m = (Ok (), cl') \<Longrightarrow> \<exists>i con. m = (Ok i, con) \<and> cl' = cl\<lparr>cl_con := con, cl_phase := ph i\<rparr>"
  by (cases m; cases "fst m") (auto simp: enter_phase_def)

lemma on_expand_Ok:
  assumes "on_expand env command cl = (Ok (), cl')"
  obtains key beta iv mac i where "expands env (cl_alpha cl) command (key, beta, iv, mac)"
    "keys_of (cl_con cl') = Some (key, iv, mac)" "cl_phase cl' = PhaseAck i"
proof -
  obtain v where v: "expands env (cl_alpha cl) command v"
    using assms by (auto simp: on_expand_def expands_def split: prod.splits if_splits outcome.splits)
  obtain key beta iv mac where v4: "v = (key, beta, iv, mac)" by (cases v)
  let ?m = "client_send_packet (ce_con env) (clientek_command env beta) (install_params key iv mac (cl_con cl))"
  obtain i con where "?m = (Ok i, con)" "cl' = cl\<lparr>cl_con := con, cl_phase := PhaseAck i\<rparr>"
    using enter_phase_cases [of cl PhaseAck ?m cl'] on_expand_eq [OF v [unfolded v4]] assms by auto
  then have "keys_of (cl_con cl') = Some (key, iv, mac)" "cl_phase cl' = PhaseAck i"
    using keys_client_send [of "ce_con env" "clientek_command env beta" "install_params key iv mac (cl_con cl)"]
    by (simp_all add: keys_install)
  then show thesis using that v v4 by blast
qed

lemma map_err_eq_Ok_iff: "map_err f m = Ok x \<longleftrightarrow> m = Ok x"
  by (cases m) simp_all

lemma check_expand_Ok:
  fixes env :: "('p, 's) client_env"
  assumes "check_expand env alpha a = Ok (key, beta, iv, mac)"
  shows "\<exists>l proof (licenses :: 's licenses) server_ek. ea_ot a \<and> ea_l a = Some l \<and> ea_beta a = Some beta \<and>
    ea_server_key a = Some key \<and> ea_proof a = Some proof \<and> ce_verify env key l proof \<and>
    length beta = 54 \<and> licenses_parse (ce_unix_time env) l = Ok licenses \<and>
    derive_public_key (ce_curve env) licenses (case ea_root a of Some r \<Rightarrow> r | None \<Rightarrow> ROOT_KEY) = Ok server_ek \<and>
    (iv, mac) = compute_iv_mac (cv_sha512 (ce_curve env)) (ce_sha1 env) alpha beta
      (create_shared_secret env (ce_ek env) server_ek)"
  using assms
  by (auto simp: check_expand_def Let_def bind_out_eq_Ok_iff split_beta map_err_eq_Ok_iff
      split: option.splits if_splits)

text \<open>The panics of the phases.\<close>

lemma command_not_inspected:
  "command_parser_new (pkt_content command) = (bstr ''initivexpand2'', args) \<Longrightarrow>
   client_inspect env (ItemCommand command) con = (Ok (ItemCommand command), con)"
  by (simp add: client_inspect_def client_handle_command_def expand_name)

lemma on_init1_not_Panic: "ready (cl_con cl) \<Longrightarrow> fst (on_init1 env d cl) \<noteq> Panic"
proof (cases d)
  case (Init1 r16 r4)
  then show "ready (cl_con cl) \<Longrightarrow> fst (on_init1 env d cl) \<noteq> Panic"
    using on_init1_succeeds [of cl env r16 r4] by auto
qed (simp_all add: on_init1_def)

lemma on_init3_Panic_iff:
  assumes "ready (cl_con cl)" "modpow_ok env" "\<And>x n level r. d = Init3 x n level r \<Longrightarrow> length n = 64"
  shows "fst (on_init3 env d cl) = Panic \<longleftrightarrow> (\<exists>x n level r. d = Init3 x n level r \<and> level \<le> 10000000 \<and> be_val n = 0)"
proof (cases d)
  case (Init3 x n level r)
  note p = solve_puzzle_cases [OF assms(2) assms(3) [OF Init3], of x level]
  have "fst (on_init3 env d cl) = Panic \<longleftrightarrow> level \<le> 10000000 \<and> solve_puzzle env x n level = Panic"
  proof (cases "level \<le> 10000000 \<and> solve_puzzle env x n level \<noteq> Panic")
    case True
    then obtain y where "solve_puzzle env x n level = Ok y"
      using p(2) by (cases "solve_puzzle env x n level") auto
    then show ?thesis
      using on_init3_succeeds [OF assms(1), of level env x n y r] True Init3 by auto
  next
    case False
    then show ?thesis by (auto simp: Init3 on_init3_def)
  qed
  with Init3 p(1) show ?thesis by simp
next
  case Init127
  then show ?thesis using send_init0_succeeds [OF assms(1), of env] by (auto simp: on_init3_def)
qed (simp add: on_init3_def)

lemma on_expand_Panic_iff:
  assumes "ready (cl_con cl)" "client_env_ok env"
  shows "fst (on_expand env command cl) = Panic \<longleftrightarrow>
    (\<exists>args a. command_parser_new (pkt_content command) = (bstr ''initivexpand2'', args) \<and>
       expand_loop env (parse_items args) expand_args_default = Ok a \<and> check_expand env (cl_alpha cl) a = Panic)"
proof -
  obtain name args where n: "command_parser_new (pkt_content command) = (name, args)"
    by (cases "command_parser_new (pkt_content command)")
  let ?m = "bind_out (expand_loop env (parse_items args) expand_args_default) (check_expand env (cl_alpha cl))"
  have "fst (on_expand env command cl) \<noteq> Panic" if "name = bstr ''initivexpand2''" "?m = Ok v" for v
    using on_expand_succeeds [OF assms, of command v] that by (auto simp: expands_def n)
  then have "fst (on_expand env command cl) = Panic \<longleftrightarrow> name = bstr ''initivexpand2'' \<and> ?m = Panic"
    by (cases ?m) (auto simp: on_expand_def n)
  then show ?thesis using expand_loop_not_Panic by (auto simp: n bind_out_eq_Panic_iff)
qed

text \<open>A wait for an acknowledgement ends well when the first acknowledgement that covers the id comes before an error.\<close>

lemma wait_for_ack_Ok_iff:
  "wait_for_ack i rs = Ok () \<longleftrightarrow>
     (\<exists>as item con bs. rs = as @ (Ok item, con) # bs \<and> acknowledges i item \<and> (\<forall>r \<in> set as. \<exists>it. fst r = Ok it))"
proof (induction rs)
  case (Cons r rs)
  obtain m con where r: "r = (m, con)" by (cases r)
  show ?case
  proof (cases m)
    case (Ok item)
    show ?thesis
    proof (cases "acknowledges i item")
      case True
      then show ?thesis by (auto simp: wait_for_ack_def r Ok intro!: exI [of _ "[]"])
    next
      case False
      then have eq: "wait_for_ack i (r # rs) = wait_for_ack i rs" by (simp add: wait_for_ack_def r Ok)
      show ?thesis
      proof
        assume "wait_for_ack i (r # rs) = Ok ()"
        then obtain as it con' bs where "rs = as @ (Ok it, con') # bs" "acknowledges i it"
          "\<forall>r \<in> set as. \<exists>it. fst r = Ok it"
          using eq Cons.IH by auto
        then show "\<exists>as item con bs. r # rs = as @ (Ok item, con) # bs \<and> acknowledges i item \<and>
            (\<forall>r \<in> set as. \<exists>it. fst r = Ok it)"
          by (intro exI [of _ "r # as"] exI [of _ it] exI [of _ con'] exI [of _ bs]) (simp add: r Ok)
      next
        assume "\<exists>as item con bs. r # rs = as @ (Ok item, con) # bs \<and> acknowledges i item \<and>
            (\<forall>r \<in> set as. \<exists>it. fst r = Ok it)"
        then have "wait_for_ack i rs = Ok ()"
          unfolding Cons.IH using False by (auto simp: r Ok Cons_eq_append_conv) blast
        then show "wait_for_ack i (r # rs) = Ok ()" using eq by simp
      qed
    qed
  qed (auto simp: wait_for_ack_def r Cons_eq_append_conv)
qed (simp add: wait_for_ack_def)

section \<open>Properties\<close>


text \<open>
  C4: The handshake completes: on a reachable connection, with a cipher that encrypts, it starts, and
  in every run (any number of steps of the connection between the answers of the server) each
  answer of an honest server is accepted without an error and takes the handshake one phase
  further, so that it is done after four answers.
\<close>

theorem handshake_completes:
  assumes "reachable True con" "client_env_ok env" "connect_start env con = (res, cl0)"
  shows "res = Ok () \<and> cl_phase cl0 = PhaseInit1 \<and>
    (\<forall>n cl. handshake_run env cl0 n cl \<longrightarrow>
       phase_rank (cl_phase cl) = n \<and> (n = 4 \<longrightarrow> cl_phase cl = PhaseDone) \<and>
       (\<forall>item. honest_answer env cl item \<longrightarrow> fst (connect_step env item cl) = Ok ()))"
proof -
  have cl0: "res = Ok ()" "cl_phase cl0 = PhaseInit1" "ready (cl_con cl0)"
    using connect_start_succeeds [OF reachable_ready [OF assms(1)], of env] assms(3) by auto
  have "phase_rank ph = 4 \<Longrightarrow> ph = PhaseDone" for ph by (cases ph) simp_all
  moreover have "fst (connect_step env item cl) = Ok ()"
    if "handshake_run env cl0 n cl" "honest_answer env cl item" for n cl item
    using honest_step [OF _ assms(2) that(2)] handshake_run_rank [OF that(1) cl0(3) assms(2) cl0(2)] by auto
  ultimately show ?thesis
    using cl0 handshake_run_rank [OF _ cl0(3) assms(2) cl0(2)] by blast
qed

text \<open>
  C2: The client leaves the expansion phase only after it has authenticated the server: the item was an
  \<open>initivexpand2\<close> command with \<open>ot=1\<close>, whose license is signed by the key it names, parses and is
  valid now and gives a public key from the root key, and the iv and the mac of the connection are
  those computed from the secret that is shared with that public key.
\<close>

theorem handshake_authenticated:
  fixes env :: "('p, 's) client_env"
  assumes "cl_phase cl = PhaseExpand" "connect_step env item cl = (Ok (), cl')" "cl_phase cl' \<noteq> PhaseExpand"
  shows "\<exists>command args a l beta key proof (licenses :: 's licenses) server_ek iv mac.
    item = ItemCommand command \<and> command_parser_new (pkt_content command) = (bstr ''initivexpand2'', args) \<and>
    expand_loop env (parse_items args) expand_args_default = Ok a \<and>
    ea_ot a \<and> ea_l a = Some l \<and> ea_beta a = Some beta \<and> ea_server_key a = Some key \<and>
    ea_proof a = Some proof \<and> ce_verify env key l proof \<and> length beta = 54 \<and>
    licenses_parse (ce_unix_time env) l = Ok licenses \<and>
    derive_public_key (ce_curve env) licenses (case ea_root a of Some r \<Rightarrow> r | None \<Rightarrow> ROOT_KEY) = Ok server_ek \<and>
    (iv, mac) = compute_iv_mac (cv_sha512 (ce_curve env)) (ce_sha1 env) (cl_alpha cl) beta
      (create_shared_secret env (ce_ek env) server_ek) \<and>
    map_option (\<lambda>p. (par_public_key p, par_shared_iv p, par_shared_mac p)) (con_params (cl_con cl')) =
      Some (key, iv, mac)"
proof -
  obtain item' con where i: "client_inspect env item (cl_con cl) = (Ok item', con)"
    using assms(2) by (auto simp: connect_step_def split: prod.splits outcome.splits)
  have same: "item' = item"
    using i by (cases item; cases "client_handle_command env (case item of ItemCommand c \<Rightarrow> c) (cl_con cl)")
      (auto simp: client_inspect_def elim!: bind_cl.elims)
  obtain command where c: "item = ItemCommand command"
      "on_expand env command (cl\<lparr>cl_con := con\<rparr>) = (Ok (), cl')"
    using assms i same
    by (cases item) (auto simp: connect_step_def phase_step_def)
  obtain key beta iv mac i where e: "expands env (cl_alpha cl) command (key, beta, iv, mac)"
    and k: "keys_of (cl_con cl') = Some (key, iv, mac)"
    by (rule on_expand_Ok [OF c(2)]) simp
  obtain args a where a: "command_parser_new (pkt_content command) = (bstr ''initivexpand2'', args)"
      "expand_loop env (parse_items args) expand_args_default = Ok a"
      "check_expand env (cl_alpha cl) a = Ok (key, beta, iv, mac)"
    using e by (auto simp: expands_def bind_out_eq_Ok_iff split: prod.splits)
  show ?thesis
    using check_expand_Ok [OF a(3)] a(1,2) c(1) k unfolding keys_of_def by blast
qed

lemma phase_step_Panic_iff:
  assumes r: "ready (cl_con cl)" and ok: "client_env_ok env"
    and size: "\<And>p x n level r. item = ItemS2CInit p (Init3 x n level r) \<Longrightarrow> length n = 64"
  shows "fst (phase_step env item cl) = Panic \<longleftrightarrow>
    cl_phase cl = PhaseInit3 \<and>
      (\<exists>p x n level r. item = ItemS2CInit p (Init3 x n level r) \<and> level \<le> 10000000 \<and> be_val n = 0) \<or>
    cl_phase cl = PhaseExpand \<and>
      (\<exists>command args a beta key proof. item = ItemCommand command \<and>
         command_parser_new (pkt_content command) = (bstr ''initivexpand2'', args) \<and>
         expand_loop env (parse_items args) expand_args_default = Ok a \<and>
         ea_ot a \<and> ea_l a = Some [] \<and> ea_beta a = Some beta \<and> ea_server_key a = Some key \<and>
         ea_proof a = Some proof \<and> ce_verify env key [] proof \<and> length beta = 54)"
proof (cases "cl_phase cl")
  case PhaseInit1
  then show ?thesis
    using on_init1_not_Panic [OF r, of env] by (simp add: phase_step_def split: option.split)
next
  case ph: PhaseInit3
  show ?thesis
  proof (cases "get_init [3, 127] item")
    case None
    then show ?thesis by (auto simp: ph phase_step_def)
  next
    case (Some d)
    then obtain p where item: "item = ItemS2CInit p d" by (cases item) (auto split: if_splits)
    have env: "modpow_ok env" using ok by (simp add: client_env_ok_def)
    have "fst (phase_step env item cl) = fst (on_init3 env d cl)"
      using Some by (simp add: ph phase_step_def)
    then show ?thesis
      using on_init3_Panic_iff [OF r env, of d] size [of p] by (simp add: ph item)
  qed
next
  case ph: PhaseExpand
  show ?thesis
  proof (cases "get_command item")
    case None
    then show ?thesis by (auto simp: ph phase_step_def)
  next
    case (Some command)
    then have item: "item = ItemCommand command" by (cases item) auto
    have "fst (phase_step env item cl) = fst (on_expand env command cl)"
      using Some by (simp add: ph phase_step_def)
    then show ?thesis
      using on_expand_Panic_iff [OF r ok, of command]
      by (simp add: ph item check_expand_Panic_iff)
  qed
qed (simp_all add: phase_step_def)

text \<open>
  C20: The client panics on exactly two answers of a server, in any reachable state: a puzzle whose
  modulus is 0, and an \<open>initivexpand2\<close> with an empty license that is properly signed.
\<close>

theorem connect_step_panics_iff:
  assumes "reachable True (cl_con cl)" "client_env_ok env"
    and "\<And>p x n level r. item = ItemS2CInit p (Init3 x n level r) \<Longrightarrow> length n = 64"
  shows "fst (connect_step env item cl) = Panic \<longleftrightarrow>
    cl_phase cl = PhaseInit3 \<and>
      (\<exists>p x n level r. item = ItemS2CInit p (Init3 x n level r) \<and> level \<le> 10000000 \<and> be_val n = 0) \<or>
    cl_phase cl = PhaseExpand \<and>
      (\<exists>command args a beta key proof. item = ItemCommand command \<and>
         command_parser_new (pkt_content command) = (bstr ''initivexpand2'', args) \<and>
         expand_loop env (parse_items args) expand_args_default = Ok a \<and>
         ea_ot a \<and> ea_l a = Some [] \<and> ea_beta a = Some beta \<and> ea_server_key a = Some key \<and>
         ea_proof a = Some proof \<and> ce_verify env key [] proof \<and> length beta = 54)"
proof -
  have env: "env_ok (ce_con env)" "enc_total (ce_con env)"
    using assms(2) by (simp_all add: client_env_ok_def)
  show ?thesis
  proof (rule client_inspect_cases [OF env reachable_ready [OF assms(1)], of item])
    fix con' assume i: "client_inspect env item (cl_con cl) = (Ok item, con')" and r: "ready con'"
    let ?cl = "cl\<lparr>cl_con := con'\<rparr>"
    have "connect_step env item cl = phase_step env item ?cl" by (simp add: connect_step_def i)
    then show ?thesis using phase_step_Panic_iff [of ?cl env item] r assms(2,3) by simp
  next
    fix e con' command assume "client_inspect env item (cl_con cl) = (Err e, con')" "item = ItemCommand command"
    then show ?thesis
      using command_not_inspected [of command _ env "cl_con cl"] by (auto simp: connect_step_def)
  qed
qed

section \<open>Witnesses\<close>

text \<open>
  A client whose base64 decoder knows a license and a beta by the names \<open>L\<close> and \<open>B\<close>, at a time when the
  license is valid.
\<close>

definition example_env :: "(int, int) client_env" where
  "example_env =
     \<lparr>ce_con = plain_env 5, ce_curve = toy_curve, ce_base = 3, ce_point_bytes = (\<lambda>p. replicate 32 (of_int p)),
      ce_sha1 = (\<lambda>d. replicate 20 (of_nat (length d))),
      ce_b64_decode = (\<lambda>s. if s = bstr ''L'' then Some sample_license
         else if s = bstr ''B'' then Some (replicate 54 5) else Some []),
      ce_b64_encode = (\<lambda>d. bstr ''b64''), ce_from_ts = Some, ce_verify = (\<lambda>k m s. True),
      ce_sign = (\<lambda>m. replicate 64 1), ce_omega = [1, 2],
      ce_modpow = (\<lambda>b e m. if m = 0 then None else Some (b ^ e mod m)),
      ce_ip = (\<lambda>a. IpV4 127 0 0 1), ce_ip_text = (\<lambda>a. bstr ''127.0.0.1''),
      ce_unix_time = TIMESTAMP_OFFSET + 50, ce_random0 = [1, 2, 3, 4], ce_alpha = replicate 10 6,
      ce_ek = 7, ce_version_text = bstr ''3.0''\<rparr>"

lemma example_env_ok: "client_env_ok example_env"
proof -
  have "enc_total (plain_env 5)" by (simp add: enc_total_def plain_env_def)
  then show ?thesis by (simp add: client_env_ok_def example_env_def modpow_ok_def)
qed

definition example_client :: "phase \<Rightarrow> client" where
  "example_client ph = \<lparr>cl_con = example_connection, cl_phase = ph, cl_version = 1, cl_timestamp = 2,
     cl_random0 = [1, 2, 3, 4], cl_alpha = replicate 10 6\<rparr>"

definition init_in :: in_packet where
  "init_in = parsed_init S2C []"

definition example_expand :: in_packet where
  "example_expand = \<lparr>pkt_header = pkt_header init_in,
     pkt_content = bstr ''initivexpand2 l=L beta=B omega=K proof=P ot=1''\<rparr>"

definition example_args :: expand_args where
  "example_args = \<lparr>ea_l = Some sample_license, ea_beta = Some (replicate 54 5), ea_server_key = Some (bstr ''K''),
     ea_proof = Some [], ea_ot = True, ea_root = None\<rparr>"

lemma example_expand_loop:
  "command_parser_new (pkt_content example_expand) =
     (bstr ''initivexpand2'', snd (command_parser_new (pkt_content example_expand)))"
  "expand_loop example_env (parse_items (snd (command_parser_new (pkt_content example_expand)))) expand_args_default
     = Ok example_args"
  by code_simp+

lemma example_expands: "\<exists>v. expands example_env (replicate 10 6) example_expand v"
proof -
  have "\<exists>v. check_expand example_env (replicate 10 6) example_args = Ok v"
    by (rule exI) code_simp
  then show ?thesis
    using example_expand_loop by (cases "command_parser_new (pkt_content example_expand)")
      (auto simp: expands_def)
qed


theorem handshake_completes_witness:
  "fst (connect_start example_env example_connection) = Ok () \<and>
   fst (connect_step example_env (ItemS2CInit init_in (Init1 (replicate 16 7) (replicate 4 1)))
     (snd (connect_start example_env example_connection))) = Ok ()"
  using handshake_completes [OF example_reachable example_env_ok surjective_pairing]
    run_start [of example_env "snd (connect_start example_env example_connection)"]
  by (metis honest_answer.simps(1))

theorem handshake_authenticated_witness:
  "\<exists>cl' iv mac. connect_step example_env (ItemCommand example_expand) (example_client PhaseExpand) = (Ok (), cl') \<and>
     map_option (\<lambda>p. (par_public_key p, par_shared_iv p, par_shared_mac p)) (con_params (cl_con cl')) =
       Some (bstr ''K'', iv, mac)"
proof -
  let ?cl = "example_client PhaseExpand"
  have "ready (cl_con ?cl)" "honest_answer example_env ?cl (ItemCommand example_expand)"
    using reachable_ready [OF example_reachable] example_expands by (simp_all add: example_client_def)
  from honest_step [OF this(1) example_env_ok this(2)] obtain cl' where
    c: "connect_step example_env (ItemCommand example_expand) ?cl = (Ok (), cl')" "phase_rank (cl_phase cl') = Suc (phase_rank (cl_phase ?cl))"
    by blast
  have p: "cl_phase ?cl = PhaseExpand" "cl_phase cl' \<noteq> PhaseExpand"
    using c(2) by (auto simp: example_client_def)
  from handshake_authenticated [OF p(1) c(1) p(2)] example_expand_loop
  have "\<exists>iv mac. map_option (\<lambda>p. (par_public_key p, par_shared_iv p, par_shared_mac p)) (con_params (cl_con cl')) =
      Some (bstr ''K'', iv, mac)"
    by (auto simp: example_args_def)
  with c(1) show ?thesis by blast
qed

theorem connect_step_panics_iff_witness:
  "fst (connect_step example_env (ItemS2CInit init_in (Init3 (replicate 64 2) (replicate 64 0) 1 (replicate 100 0)))
     (example_client PhaseInit3)) = Panic"
proof -
  have "be_val (replicate 64 0) = 0" by code_simp
  then show ?thesis
    using connect_step_panics_iff [of "example_client PhaseInit3" example_env
        "ItemS2CInit init_in (Init3 (replicate 64 2) (replicate 64 0) 1 (replicate 100 0))"]
      example_reachable example_env_ok
    by (simp add: example_client_def del: replicate.simps)
qed

end
