(* ===== verification/License_Builder.thy ===== *)
theory License_Builder
  imports License_Parsing
begin

text \<open>
  The builder of licenses (\<open>LicenseBuilder\<close>, \<open>LicenseBlockBuilder\<close> and \<open>Licenses::build\<close> in
  \<open>tsproto/src/license.rs\<close>), which writes blocks behind the data of a license and parses them; and
  the round trip: what is built parses, and the accessors return what was written.
\<close>

section \<open>Writing into the data\<close>

text \<open>\<open>data[o..o + n].copy_from_slice(bs)\<close> and \<open>data[o] = b\<close>, which panic out of range.\<close>

definition write_at :: "nat \<Rightarrow> bytes \<Rightarrow> bytes \<Rightarrow> (license_error, bytes) outcome" where
  "write_at off bs data =
     (if off + length bs \<le> length data
      then Ok (take off data @ bs @ drop (off + length bs) data) else Panic)"

definition write_data :: "nat \<Rightarrow> bytes \<Rightarrow> 's licenses \<Rightarrow> (license_error, 's licenses) outcome" where
  "write_data off bs ls =
     bind_out (write_at off bs (lics_data ls)) (\<lambda>d. Ok (ls\<lparr>lics_data := d\<rparr>))"

text \<open>\<open>data.resize(len + n, 0)\<close>.\<close>

definition extend_data :: "nat \<Rightarrow> 's licenses \<Rightarrow> 's licenses" where
  "extend_data n ls = ls\<lparr>lics_data := lics_data ls @ replicate n 0\<rparr>"

section \<open>The builder\<close>

fun min_len :: "license_block_type \<Rightarrow> nat" where
  "min_len Intermediate = BLOCK_MIN_LEN + 5"
| "min_len Website = BLOCK_MIN_LEN + 1"
| "min_len Code = BLOCK_MIN_LEN + 1"
| "min_len Server = BLOCK_MIN_LEN + 6"
| "min_len Ts5Server = BLOCK_MIN_LEN + 2"
| "min_len Ephemeral = BLOCK_MIN_LEN + 0"

record block_builder =
  bb_offset :: nat
  bb_typ :: license_block_type

definition add_block ::
  "license_block_type \<Rightarrow> 's licenses \<Rightarrow> (license_error, block_builder \<times> 's licenses) outcome" where
  "add_block typ ls =
     (let len = length (lics_data ls) in
      bind_out (write_data (len + BLOCK_TYPE_OFFSET) [block_type_to_u8 typ]
                  (extend_data (min_len typ) ls)) (\<lambda>ls.
        Ok (\<lparr>bb_offset = len, bb_typ = typ\<rparr>, ls)))"

definition set_public_key :: "block_builder \<Rightarrow> bytes \<Rightarrow> 's licenses \<Rightarrow> (license_error, 's licenses) outcome" where
  "set_public_key b key ls = write_data (bb_offset b + 1) key ls"

text \<open>A time is written as the low 32 bits of its distance to the offset.\<close>

definition write_timestamp ::
  "block_builder \<Rightarrow> nat \<Rightarrow> int \<Rightarrow> 's licenses \<Rightarrow> (license_error, 's licenses) outcome" where
  "write_timestamp b off time ls =
     write_data (bb_offset b + off) (write_be32 (word_of_int (time - TIMESTAMP_OFFSET))) ls"

definition not_valid_before :: "block_builder \<Rightarrow> int \<Rightarrow> 's licenses \<Rightarrow> (license_error, 's licenses) outcome" where
  "not_valid_before b time = write_timestamp b BLOCK_NOT_VALID_BEFORE_OFFSET time"

definition not_valid_after :: "block_builder \<Rightarrow> int \<Rightarrow> 's licenses \<Rightarrow> (license_error, 's licenses) outcome" where
  "not_valid_after b time = write_timestamp b BLOCK_NOT_VALID_AFTER_OFFSET time"

definition server_license_type ::
  "block_builder \<Rightarrow> u8 \<Rightarrow> 's licenses \<Rightarrow> (license_error, 's licenses) outcome" where
  "server_license_type b typ ls =
     (if bb_typ b \<noteq> Server \<and> bb_typ b \<noteq> Ts5Server then Panic
      else write_data (bb_offset b + BLOCK_MIN_LEN) [typ] ls)"

text \<open>
  A property of a TS5 block is appended to the data; the result is the offset of its contents.
  The count wraps; a content longer than a byte counts panics, and so does one of 254 or 255 bytes
  only where overflow checks are on.
\<close>

definition ts5_add_property ::
  "block_builder \<Rightarrow> u8 \<Rightarrow> u8 \<Rightarrow> nat \<Rightarrow> 's licenses \<Rightarrow> (license_error, nat \<times> 's licenses) outcome" where
  "ts5_add_property b i typ len ls =
     (let off = length (lics_data ls);
          ls = extend_data (len + 3) ls;
          count_off = bb_offset b + BLOCK_MIN_LEN + 1 in
      bind_out (index (lics_data ls) count_off) (\<lambda>count.
      bind_out (write_data count_off [count + 1] ls) (\<lambda>ls.
        if 255 < len then Panic
        else bind_out (write_data off [of_nat len + 2, i, typ] ls) (\<lambda>ls.
          Ok (off + 3, ls)))))"

definition set_max_clients :: "block_builder \<Rightarrow> u32 \<Rightarrow> 's licenses \<Rightarrow> (license_error, 's licenses) outcome" where
  "set_max_clients b max_clients ls =
     bind_out
       (case bb_typ b of
          Ts5Server \<Rightarrow> ts5_add_property b 3 1 4 ls
        | Intermediate \<Rightarrow> Ok (bb_offset b + BLOCK_MIN_LEN, ls)
        | Server \<Rightarrow> Ok (bb_offset b + BLOCK_MIN_LEN + 1, ls)
        | _ \<Rightarrow> Panic) (\<lambda>(off, ls).
       write_data off (write_be32 max_clients) ls)"

definition set_issuer :: "block_builder \<Rightarrow> bytes \<Rightarrow> 's licenses \<Rightarrow> (license_error, 's licenses) outcome" where
  "set_issuer b issuer ls =
     (if 0 \<in> set issuer then Panic
      else
        bind_out
          (if bb_typ b = Ts5Server then ts5_add_property b 2 0 (length issuer + 1) ls
           else if bb_typ b \<noteq> Intermediate \<and> bb_typ b \<noteq> Server then Panic
           else if length (lics_data ls) - bb_offset b \<noteq> min_len (bb_typ b) then Panic
           else Ok (length (lics_data ls) - 1, extend_data (length issuer) ls)) (\<lambda>(off, ls).
          write_data off issuer ls))"

text \<open>
  \<open>build\<close> runs the closure of the caller and parses what it has appended; the bounds of the last
  block before limit the new ones.
\<close>

definition licenses_build ::
  "int \<Rightarrow> ('s licenses \<Rightarrow> (license_error, 's licenses) outcome) \<Rightarrow> 's licenses
     \<Rightarrow> (license_error, 's licenses) outcome" where
  "licenses_build now f ls =
     (let len = length (lics_data ls) in
      bind_out (f ls) (\<lambda>ls.
      bind_out
        (if lics_blocks ls = [] then Ok None
         else
           let b = last (lics_blocks ls) in
           if len < lic_len b then Panic
           else bind_out (slice (lics_data ls) (len - lic_len b) len) (\<lambda>b_data.
                bind_out (get_not_valid_before b_data) (\<lambda>s.
                bind_out (get_not_valid_after b_data) (\<lambda>e. Ok (Some (s, e)))))) (\<lambda>bounds.
      bind_out (parse_blocks (lics_data ls) False now len bounds (lics_blocks ls)) (\<lambda>blocks.
        Ok (ls\<lparr>lics_blocks := blocks\<rparr>)))))"

section \<open>Specifications of blocks\<close>

text \<open>What a caller can say of a block, and the calls that write it.\<close>

datatype block_content =
    IntermediateContent u32 bytes
  | ServerContent u8 u32 bytes
  | EphemeralContent

record block_spec =
  bs_key :: bytes
  bs_before :: int
  bs_after :: int
  bs_content :: block_content

fun content_type :: "block_content \<Rightarrow> license_block_type" where
  "content_type (IntermediateContent _ _) = Intermediate"
| "content_type (ServerContent _ _ _) = Server"
| "content_type EphemeralContent = Ephemeral"

fun build_content ::
  "block_builder \<Rightarrow> block_content \<Rightarrow> 's licenses \<Rightarrow> (license_error, 's licenses) outcome" where
  "build_content b (IntermediateContent n s) ls =
     bind_out (set_max_clients b n ls) (set_issuer b s)"
| "build_content b (ServerContent t n s) ls =
     bind_out (server_license_type b t ls) (\<lambda>ls. bind_out (set_max_clients b n ls) (set_issuer b s))"
| "build_content b EphemeralContent ls = Ok ls"

definition build_block :: "block_spec \<Rightarrow> 's licenses \<Rightarrow> (license_error, 's licenses) outcome" where
  "build_block sp ls =
     bind_out (add_block (content_type (bs_content sp)) ls) (\<lambda>(b, ls).
     bind_out (set_public_key b (bs_key sp) ls) (\<lambda>ls.
     bind_out (not_valid_before b (bs_before sp) ls) (\<lambda>ls.
     bind_out (not_valid_after b (bs_after sp) ls) (\<lambda>ls.
       build_content b (bs_content sp) ls))))"

fun build_blocks :: "block_spec list \<Rightarrow> 's licenses \<Rightarrow> (license_error, 's licenses) outcome" where
  "build_blocks [] ls = Ok ls"
| "build_blocks (sp # sps) ls = bind_out (build_block sp ls) (build_blocks sps)"

text \<open>The specifications the format can represent.\<close>

definition time_ok :: "int \<Rightarrow> bool" where
  "time_ok t \<longleftrightarrow> TIMESTAMP_OFFSET \<le> t \<and> t < TIMESTAMP_OFFSET + 2 ^ 32"

fun content_ok :: "(u8 \<Rightarrow> bool) \<Rightarrow> block_content \<Rightarrow> bool" where
  "content_ok known (IntermediateContent _ s) = (0 \<notin> set s \<and> utf8_valid s)"
| "content_ok known (ServerContent t _ s) = (known t \<and> 0 \<notin> set s \<and> utf8_valid s)"
| "content_ok known EphemeralContent = True"

definition spec_ok :: "(u8 \<Rightarrow> bool) \<Rightarrow> block_spec \<Rightarrow> bool" where
  "spec_ok known sp \<longleftrightarrow>
     length (bs_key sp) = 32 \<and> time_ok (bs_before sp) \<and> time_ok (bs_after sp) \<and>
     content_ok known (bs_content sp)"

definition nested_in :: "block_spec \<Rightarrow> block_spec \<Rightarrow> bool" where
  "nested_in a b \<longleftrightarrow> bs_before a \<le> bs_before b \<and> bs_after b \<le> bs_after a"

text \<open>What the accessors return for a block.\<close>

fun content_issuer :: "block_content \<Rightarrow> (license_error, bytes) outcome" where
  "content_issuer (IntermediateContent _ s) = Ok s"
| "content_issuer (ServerContent _ _ s) = Ok s"
| "content_issuer EphemeralContent = Err (NoSuchProperty ''issuer'')"

fun content_max_clients :: "block_content \<Rightarrow> (license_error, u32) outcome" where
  "content_max_clients (IntermediateContent n _) = Ok n"
| "content_max_clients (ServerContent _ n _) = Ok n"
| "content_max_clients EphemeralContent = Err (NoSuchProperty ''max clients'')"

fun content_license_type :: "block_content \<Rightarrow> (license_error, u8) outcome" where
  "content_license_type (ServerContent t _ _) = Ok t"
| "content_license_type _ = Err (NoSuchProperty ''license type'')"

section \<open>The bytes of a block\<close>

definition head_bytes :: "bytes \<Rightarrow> u8 \<Rightarrow> bytes \<Rightarrow> bytes \<Rightarrow> bytes" where
  "head_bytes k t nb na = 0 # k @ [t] @ nb @ na"

fun content_bytes :: "block_content \<Rightarrow> bytes" where
  "content_bytes (IntermediateContent n s) = write_be32 n @ s @ [0]"
| "content_bytes (ServerContent t n s) = t # write_be32 n @ s @ [0]"
| "content_bytes EphemeralContent = []"

definition time_bytes :: "int \<Rightarrow> bytes" where
  "time_bytes t = write_be32 (word_of_int (t - TIMESTAMP_OFFSET))"

definition spec_bytes :: "block_spec \<Rightarrow> bytes" where
  "spec_bytes sp =
     head_bytes (bs_key sp) (block_type_to_u8 (content_type (bs_content sp)))
       (time_bytes (bs_before sp)) (time_bytes (bs_after sp)) @ content_bytes (bs_content sp)"

lemma length_time_bytes [simp]: "length (time_bytes t) = 4"
  by (simp add: time_bytes_def)

lemma length_head_bytes:
  "length k = 32 \<Longrightarrow> length nb = 4 \<Longrightarrow> length na = 4 \<Longrightarrow> length (head_bytes k t nb na) = 42"
  by (simp add: head_bytes_def)

lemma write_at_mid:
  assumes "off = length a" and "length b = length bs"
  shows "write_at off bs (a @ b @ c) = Ok (a @ bs @ c)"
  using assms by (simp add: write_at_def)

lemma write_head:
  assumes "length k = 32" "length nb = 4" "length na = 4"
  shows "length k' = 32 \<Longrightarrow>
      write_at (length d + 1) k' (d @ head_bytes k t nb na @ body) =
      Ok (d @ head_bytes k' t nb na @ body)"
    and "write_at (length d + 33) [t'] (d @ head_bytes k t nb na @ body) =
      Ok (d @ head_bytes k t' nb na @ body)"
    and "length nb' = 4 \<Longrightarrow>
      write_at (length d + 34) nb' (d @ head_bytes k t nb na @ body) =
      Ok (d @ head_bytes k t nb' na @ body)"
    and "length na' = 4 \<Longrightarrow>
      write_at (length d + 38) na' (d @ head_bytes k t nb na @ body) =
      Ok (d @ head_bytes k t nb na' @ body)"
proof -
  show "write_at (length d + 1) k' (d @ head_bytes k t nb na @ body) =
      Ok (d @ head_bytes k' t nb na @ body)" if "length k' = 32"
    using write_at_mid [of _ "d @ [0]" k k' "t # nb @ na @ body"] that assms
    by (simp add: head_bytes_def)
  show "write_at (length d + 33) [t'] (d @ head_bytes k t nb na @ body) =
      Ok (d @ head_bytes k t' nb na @ body)"
    using write_at_mid [of _ "d @ 0 # k" "[t]" "[t']" "nb @ na @ body"] assms
    by (simp add: head_bytes_def)
  show "write_at (length d + 34) nb' (d @ head_bytes k t nb na @ body) =
      Ok (d @ head_bytes k t nb' na @ body)" if "length nb' = 4"
    using write_at_mid [of _ "d @ 0 # k @ [t]" nb nb' "na @ body"] that assms
    by (simp add: head_bytes_def)
  show "write_at (length d + 38) na' (d @ head_bytes k t nb na @ body) =
      Ok (d @ head_bytes k t nb na' @ body)" if "length na' = 4"
    using write_at_mid [of _ "d @ 0 # k @ t # nb" na na' body] that assms
    by (simp add: head_bytes_def)
qed

lemma replicate_head:
  "replicate (42 + n) 0 = head_bytes (replicate 32 0) 0 (replicate 4 0) (replicate 4 0) @ replicate n (0 :: u8)"
proof -
  have "head_bytes (replicate 32 0) 0 (replicate 4 0) (replicate 4 0) = replicate 42 (0 :: u8)"
    by code_simp
  then show ?thesis by (simp add: replicate_add)
qed

lemma min_len_extra: "min_len t = 42 + (min_len t - 42)"
  by (cases t) (simp_all add: BLOCK_MIN_LEN_def)

text \<open>The fixed part of a block, written behind the data.\<close>

lemma build_head:
  assumes "length (bs_key sp) = 32"
  defines "t \<equiv> content_type (bs_content sp)"
  shows "build_block sp ls =
    build_content \<lparr>bb_offset = length (lics_data ls), bb_typ = t\<rparr> (bs_content sp)
      (ls\<lparr>lics_data := lics_data ls @
           head_bytes (bs_key sp) (block_type_to_u8 t) (time_bytes (bs_before sp)) (time_bytes (bs_after sp)) @
           replicate (min_len t - 42) 0\<rparr>)"
  using assms(1)
  unfolding build_block_def add_block_def extend_data_def set_public_key_def not_valid_before_def
    not_valid_after_def write_timestamp_def write_data_def Let_def t_def [symmetric]
    time_bytes_def [symmetric] BLOCK_TYPE_OFFSET_def BLOCK_NOT_VALID_BEFORE_OFFSET_def
    BLOCK_NOT_VALID_AFTER_OFFSET_def
  by (subst min_len_extra) (simp add: replicate_head write_head [simplified])

lemma issuer_at_end:
  assumes "0 \<notin> set s" "bb_typ b = Intermediate \<or> bb_typ b = Server"
    and "length d = bb_offset b + min_len (bb_typ b) - 1" "lics_data ls = d @ [0]"
  shows "set_issuer b s ls = Ok (ls\<lparr>lics_data := d @ s @ [0]\<rparr>)"
proof -
  have "write_at (length d) s (d @ 0 # replicate (length s) 0) = Ok (d @ s @ [0])"
    using write_at_mid [of "length d" d "replicate (length s) 0" s "[0]"]
    by (simp add: replicate_append_same)
  moreover have "Suc (length d) - bb_offset b = min_len (bb_typ b)"
    using assms(2,3) by (auto simp: BLOCK_MIN_LEN_def)
  ultimately show ?thesis
    using assms by (auto simp: set_issuer_def write_data_def extend_data_def)
qed

lemma build_block_bytes:
  assumes "spec_ok known sp"
  shows "build_block sp ls = Ok (ls\<lparr>lics_data := lics_data ls @ spec_bytes sp\<rparr>)"
proof -
  let ?h = "lics_data ls @ head_bytes (bs_key sp) (block_type_to_u8 (content_type (bs_content sp)))
      (time_bytes (bs_before sp)) (time_bytes (bs_after sp))"
  have len: "length ?h = length (lics_data ls) + 42"
    using assms by (simp add: spec_ok_def length_head_bytes)
  note head = build_head [of sp ls]
  show ?thesis
  proof (cases "bs_content sp")
    case (IntermediateContent n s)
    have w: "write_at (length (lics_data ls) + 42) (write_be32 n) (?h @ replicate 5 0) =
        Ok (?h @ write_be32 n @ [0])"
      using write_at_mid [of _ ?h "replicate 4 0" "write_be32 n" "[0]"] len
      by (simp add: numeral_eq_Suc)
    have i: "set_issuer \<lparr>bb_offset = length (lics_data ls), bb_typ = Intermediate\<rparr> s
        (ls\<lparr>lics_data := ?h @ write_be32 n @ [0]\<rparr>) =
        Ok (ls\<lparr>lics_data := ?h @ write_be32 n @ s @ [0]\<rparr>)"
      using issuer_at_end [of s "\<lparr>bb_offset = length (lics_data ls), bb_typ = Intermediate\<rparr>"
          "?h @ write_be32 n" "ls\<lparr>lics_data := ?h @ write_be32 n @ [0]\<rparr>"]
        assms IntermediateContent len
      by (simp add: spec_ok_def BLOCK_MIN_LEN_def)
    show ?thesis
      using head w i assms IntermediateContent
      by (simp add: spec_ok_def set_max_clients_def write_data_def BLOCK_MIN_LEN_def spec_bytes_def)
  next
    case (ServerContent t n s)
    have w0: "write_at (length (lics_data ls) + 42) [t] (?h @ replicate 6 0) =
        Ok (?h @ t # replicate 5 0)"
      using write_at_mid [of _ ?h "[0]" "[t]" "replicate 5 0"] len
      by (simp add: numeral_eq_Suc)
    have w: "write_at (43 + length (lics_data ls)) (write_be32 n) (?h @ t # replicate 5 0) =
        Ok (?h @ t # write_be32 n @ [0])"
      using write_at_mid [of _ "?h @ [t]" "replicate 4 0" "write_be32 n" "[0]"] len
      by (simp add: numeral_eq_Suc)
    have i: "set_issuer \<lparr>bb_offset = length (lics_data ls), bb_typ = Server\<rparr> s
        (ls\<lparr>lics_data := ?h @ t # write_be32 n @ [0]\<rparr>) =
        Ok (ls\<lparr>lics_data := ?h @ t # write_be32 n @ s @ [0]\<rparr>)"
      using issuer_at_end [of s "\<lparr>bb_offset = length (lics_data ls), bb_typ = Server\<rparr>"
          "?h @ t # write_be32 n" "ls\<lparr>lics_data := ?h @ t # write_be32 n @ [0]\<rparr>"]
        assms ServerContent len
      by (simp add: spec_ok_def BLOCK_MIN_LEN_def)
    show ?thesis
      using head w0 w i assms ServerContent
      by (simp add: spec_ok_def server_license_type_def set_max_clients_def write_data_def
          BLOCK_MIN_LEN_def spec_bytes_def)
  next
    case EphemeralContent
    then show ?thesis
      using head assms by (simp add: spec_ok_def spec_bytes_def BLOCK_MIN_LEN_def)
  qed
qed

lemma build_blocks_bytes:
  "\<forall>sp \<in> set sps. spec_ok known sp \<Longrightarrow>
   build_blocks sps ls = Ok (ls\<lparr>lics_data := lics_data ls @ concat (map spec_bytes sps)\<rparr>)"
  by (induction sps arbitrary: ls) (simp_all add: build_block_bytes [of known])

section \<open>Reading what was written\<close>

lemma position_append_zero: "0 \<notin> set s \<Longrightarrow> position (\<lambda>b. b = 0) (s @ 0 # r) = Some (length s)"
  for s :: bytes
  by (induction s) auto

lemma time_round:
  assumes "time_ok t"
  shows "int (unat (word_of_int (t - TIMESTAMP_OFFSET) :: u32)) + TIMESTAMP_OFFSET = t"
proof -
  have "uint (word_of_int (t - TIMESTAMP_OFFSET) :: u32) = t - TIMESTAMP_OFFSET"
    using assms unfolding time_ok_def by (subst uint_word_of_int) simp
  then show ?thesis by (simp only: flip: uint_nat)
qed

lemma get_timestamp_bytes:
  assumes "time_ok t" and "length a = off"
  shows "get_timestamp (a @ time_bytes t @ c) off = Ok t"
  using assms time_round [OF assms(1)]
  by (simp add: get_timestamp_def time_bytes_def outcome_simps del: of_int_diff)

lemma head_times:
  assumes "length k = 32" "time_ok s" "time_ok e"
  shows "get_not_valid_before (head_bytes k t (time_bytes s) (time_bytes e) @ c) = Ok s"
    and "get_not_valid_after (head_bytes k t (time_bytes s) (time_bytes e) @ c) = Ok e"
proof -
  show "get_not_valid_before (head_bytes k t (time_bytes s) (time_bytes e) @ c) = Ok s"
    using get_timestamp_bytes [of s "0 # k @ [t]" 34 "time_bytes e @ c"] assms
    by (simp add: get_not_valid_before_def BLOCK_NOT_VALID_BEFORE_OFFSET_def head_bytes_def)
  show "get_not_valid_after (head_bytes k t (time_bytes s) (time_bytes e) @ c) = Ok e"
    using get_timestamp_bytes [of e "0 # k @ t # time_bytes s" 38 c] assms
    by (simp add: get_not_valid_after_def BLOCK_NOT_VALID_AFTER_OFFSET_def head_bytes_def)
qed

lemma head_type:
  assumes "length k = 32" "length nb = 4" "length na = 4"
  shows "(head_bytes k t nb na @ c) ! 33 = t" and "(head_bytes k t nb na @ c) ! 0 = 0"
    and "drop 42 (head_bytes k t nb na @ c) = c"
  using assms by (simp_all add: head_bytes_def nth_append)

lemma block_type_round [simp]: "block_type_from_u8 (block_type_to_u8 t) = Some t"
  by (cases t) (simp_all add: block_type_from_u8_def)

lemma license_parse_spec:
  assumes "spec_ok known sp"
  shows "license_parse (spec_bytes sp @ rest) =
    Ok \<lparr>lic_len = length (spec_bytes sp), lic_private_key = None, lic_inner = InnerOther\<rparr>"
proof -
  have k: "length (bs_key sp) = 32" using assms by (simp add: spec_ok_def)
  have "parse_inner n (block_type_to_u8 (content_type (bs_content sp)))
      (content_bytes (bs_content sp) @ rest) = Ok (InnerOther, length (content_bytes (bs_content sp)))" for n
    using assms
    by (cases "bs_content sp")
      (simp_all add: parse_inner_def spec_ok_def position_append_zero block_type_from_u8_def)
  then show ?thesis
    using k
    by (simp add: license_parse_def spec_bytes_def BLOCK_MIN_LEN_def BLOCK_TYPE_OFFSET_def
        head_type length_head_bytes)
qed

definition spec_license :: "block_spec \<Rightarrow> 's license" where
  "spec_license sp =
     \<lparr>lic_len = length (spec_bytes sp), lic_private_key = None, lic_inner = InnerOther\<rparr>"

lemma parse_block_spec:
  assumes "spec_ok known sp"
    and "\<And>ob. bounds = Some ob \<Longrightarrow> fst ob \<le> bs_before sp \<and> bs_after sp \<le> snd ob"
  shows "parse_block (spec_bytes sp @ rest) False now bounds =
    Ok (spec_license sp :: 's license, (bs_before sp, bs_after sp))"
proof -
  have "get_not_valid_before (spec_bytes sp) = Ok (bs_before sp)"
    and "get_not_valid_after (spec_bytes sp) = Ok (bs_after sp)"
    using assms(1) by (simp_all add: spec_ok_def spec_bytes_def head_times)
  moreover have "license_parse (spec_bytes sp @ rest) = Ok (spec_license sp :: 's license)"
    unfolding spec_license_def by (rule license_parse_spec [OF assms(1)])
  moreover have "lic_len (spec_license sp :: 's license) = length (spec_bytes sp)"
    by (simp add: spec_license_def)
  ultimately show ?thesis
    using assms(2) by (cases bounds) (force simp: parse_block_def slice_def)+
qed

lemma spec_bytes_not_Nil [simp]: "spec_bytes sp \<noteq> []"
  by (simp add: spec_bytes_def head_bytes_def)

lemma parse_blocks_specs:
  assumes "\<forall>sp \<in> set sps. spec_ok known sp" and "sorted_wrt nested_in sps"
    and "length blocks + length sps \<le> 8"
    and "\<And>ob sp. bounds = Some ob \<Longrightarrow> sp \<in> set sps \<Longrightarrow> fst ob \<le> bs_before sp \<and> bs_after sp \<le> snd ob"
  shows "parse_blocks (pre @ concat (map spec_bytes sps)) False now (length pre) bounds blocks =
    Ok (blocks @ map spec_license sps :: 's license list)"
  using assms
proof (induction sps arbitrary: pre bounds blocks)
  case Nil
  then show ?case by (subst parse_blocks.simps) simp
next
  case (Cons sp sps)
  have sp: "spec_ok known sp" using Cons.prems by simp
  have "parse_block (spec_bytes sp @ concat (map spec_bytes sps)) False now bounds =
      Ok (spec_license sp :: 's license, (bs_before sp, bs_after sp))"
    using Cons.prems by (intro parse_block_spec [OF sp]) simp
  then have "parse_blocks (pre @ concat (map spec_bytes (sp # sps))) False now (length pre) bounds blocks =
      parse_blocks ((pre @ spec_bytes sp) @ concat (map spec_bytes sps)) False now
        (length (pre @ spec_bytes sp)) (Some (bs_before sp, bs_after sp)) (blocks @ [spec_license sp])"
    using Cons.prems by (subst parse_blocks.simps) (simp add: spec_license_def)
  also have "\<dots> = Ok ((blocks @ [spec_license sp]) @ map spec_license sps)"
    using Cons.prems by (intro Cons.IH) (auto simp: nested_in_def)
  finally show ?case by simp
qed

lemma slice_to_end: "n \<le> length xs \<Longrightarrow> slice xs n (length xs) = Ok (drop n xs)"
  by (simp add: slice_def)

text \<open>The accessors on the bytes of a block.\<close>

lemma spec_accessors:
  assumes ok: "spec_ok known sp"
  shows "get_type (spec_bytes sp) = Ok (content_type (bs_content sp))"
    and "block_times (spec_bytes sp) = Ok (bs_before sp, bs_after sp)"
    and "slice (spec_bytes sp) 1 33 = Ok (bs_key sp)"
    and "get_issuer (spec_license sp) (spec_bytes sp) = content_issuer (bs_content sp)"
    and "get_max_clients (spec_license sp) (spec_bytes sp) = content_max_clients (bs_content sp)"
    and "get_license_type known (spec_bytes sp) = content_license_type (bs_content sp)"
proof -
  have k: "length (bs_key sp) = 32" using ok by (simp add: spec_ok_def)
  let ?head = "head_bytes (bs_key sp) (block_type_to_u8 (content_type (bs_content sp)))
      (time_bytes (bs_before sp)) (time_bytes (bs_after sp))"
  have head: "length ?head = 42" using k by (simp add: length_head_bytes)
  show ty: "get_type (spec_bytes sp) = Ok (content_type (bs_content sp))"
    using k head by (simp add: get_type_def spec_bytes_def BLOCK_TYPE_OFFSET_def head_type outcome_simps)
  show "block_times (spec_bytes sp) = Ok (bs_before sp, bs_after sp)"
    using ok by (simp add: block_times_def spec_bytes_def head_times spec_ok_def)
  show "slice (spec_bytes sp) 1 33 = Ok (bs_key sp)"
    using k head by (simp add: slice_def spec_bytes_def head_bytes_def)
  show "get_issuer (spec_license sp) (spec_bytes sp) = content_issuer (bs_content sp)"
    using ty ok head
    by (cases "bs_content sp")
      (simp_all add: get_issuer_def spec_license_def spec_ok_def spec_bytes_def outcome_simps
        BLOCK_MIN_LEN_def)
  show "get_max_clients (spec_license sp) (spec_bytes sp) = content_max_clients (bs_content sp)"
    using ty ok head
    by (cases "bs_content sp")
      (simp_all add: get_max_clients_def spec_ok_def spec_bytes_def outcome_simps BLOCK_MIN_LEN_def
        read_be32_def)
  show "get_license_type known (spec_bytes sp) = content_license_type (bs_content sp)"
    using ty ok head
    by (cases "bs_content sp")
      (simp_all add: get_license_type_def spec_ok_def spec_bytes_def outcome_simps BLOCK_MIN_LEN_def
        nth_append)
qed

section \<open>The round trip\<close>

lemma spec_license_len [simp]: "lic_len (spec_license sp) = length (spec_bytes sp)"
  by (simp add: spec_license_def)

lemma spec_block_data:
  assumes "i < length sps"
  shows "block_data (\<lparr>lics_data = 1 # concat (map spec_bytes sps), lics_blocks = map spec_license sps\<rparr> :: 's licenses) i =
    spec_bytes (sps ! i)"
proof -
  have sps: "sps = take i sps @ sps ! i # drop (Suc i) sps"
    using assms by (rule id_take_nth_drop)
  have len: "sum_list (map lic_len (take i (map spec_license sps :: 's license list))) =
      length (concat (map spec_bytes (take i sps)))"
    by (simp add: take_map length_concat o_def)
  have "concat (map spec_bytes sps) =
      concat (map spec_bytes (take i sps)) @ spec_bytes (sps ! i) @ concat (map spec_bytes (drop (Suc i) sps))"
    by (subst sps) (simp only: map_append list.map concat_append concat.simps)
  then show ?thesis
    using assms len by (simp add: block_data_def block_offset_def)
qed

lemma built_license:
  assumes "\<forall>sp \<in> set sps. spec_ok known sp" and "sorted_wrt nested_in sps" and "length sps \<le> 8"
  defines "ls \<equiv> \<lparr>lics_data = 1 # concat (map spec_bytes sps), lics_blocks = map spec_license sps\<rparr> :: 's licenses"
  shows "licenses_build now (build_blocks sps) licenses_default = Ok ls"
    and "parse_ignore_expired now (lics_data ls) = Ok ls"
proof -
  have loop: "parse_blocks (1 # concat (map spec_bytes sps)) False now 1 None [] =
      Ok (map spec_license sps :: 's license list)"
    using parse_blocks_specs [of sps known "[]" None "[1]" now] assms(1-3) by simp
  then show "licenses_build now (build_blocks sps) licenses_default = Ok ls"
    using build_blocks_bytes [OF assms(1), of "licenses_default :: 's licenses"]
    by (simp add: licenses_build_def licenses_default_def ls_def)
  from loop show "parse_ignore_expired now (lics_data ls) = Ok ls"
    by (simp add: parse_ignore_expired_def parse_internal_def index_def ls_def)
qed


definition sample_specs :: "block_spec list" where
  "sample_specs =
     [\<lparr>bs_key = replicate 32 7, bs_before = TIMESTAMP_OFFSET + 10, bs_after = TIMESTAMP_OFFSET + 90,
       bs_content = ServerContent 2 32 [0x41, 0x42]\<rparr>,
      \<lparr>bs_key = replicate 32 9, bs_before = TIMESTAMP_OFFSET + 20, bs_after = TIMESTAMP_OFFSET + 80,
       bs_content = EphemeralContent\<rparr>]"

lemma sample_specs_ok:
  "\<forall>sp \<in> set sample_specs. spec_ok (\<lambda>b. b < 8) sp" "sorted_wrt nested_in sample_specs"
  "length sample_specs \<le> 8"
proof -
  have "utf8_valid [0x41, 0x42]" by code_simp
  then show "\<forall>sp \<in> set sample_specs. spec_ok (\<lambda>b. b < 8) sp"
    by (simp add: sample_specs_def spec_ok_def time_ok_def)
qed (simp_all add: sample_specs_def nested_in_def)


section \<open>Properties of TS5 blocks\<close>

text \<open>A TS5 block with a number of clients, and an ephemeral block behind it.\<close>

definition ts5_license :: "int licenses \<Rightarrow> (license_error, int licenses) outcome" where
  "ts5_license ls =
     bind_out (add_block Ts5Server ls) (\<lambda>(b, ls).
     bind_out (set_max_clients b 5 ls) (\<lambda>ls.
     bind_out (set_issuer b [0x41] ls) (\<lambda>ls.
     bind_out (add_block Ephemeral ls) (\<lambda>(_, ls). Ok ls))))"

definition first_block_of ::
  "(license_error, int licenses) outcome \<Rightarrow> (int license \<Rightarrow> bytes \<Rightarrow> (license_error, 'a) outcome)
     \<Rightarrow> (license_error, 'a) outcome" where
  "first_block_of r f = bind_out r (\<lambda>ls. f (lics_blocks ls ! 0) (block_data ls 0))"

text \<open>The number of clients that the builder writes into a TS5 block cannot be read back: the
  builder counts the two bytes of the id and the type in the length of a property, as the parser
  does, but the accessor expects the length of the value alone, so it finds no such property and the
  block counts as invalid; the issuer, a string, is read back.\<close>

theorem ts5_max_clients_lost:
  "first_block_of (licenses_build 0 ts5_license licenses_default) get_issuer = Ok [0x41] \<and>
   first_block_of (licenses_build 0 ts5_license licenses_default) get_max_clients =
     Err (NoSuchProperty ''max clients'') \<and>
   first_block_of (licenses_build 0 ts5_license licenses_default) get_properties =
     Ok [Err (WrongPropertyLength 3 1 4 6), Ok (PropIssuer [0x41])]"
  by (intro conjI; code_simp)

text \<open>A license whose last block is a TS5 block with a property is rejected as cut off although
  the property is complete, since the bound of the check is one too small; the same block with a
  block behind it parses.\<close>

theorem ts5_last_block_rejected:
  "bind_out (bind_out (add_block Ts5Server (licenses_default :: int licenses)) (\<lambda>(b, ls). set_issuer b [0x41] ls))
     (\<lambda>ls. parse_ignore_expired 0 (lics_data ls)) =
   (Err (TooShort 4 ''cut off TS5 license property'') :: (license_error, int licenses) outcome) \<and>
   bind_out (ts5_license licenses_default)
     (\<lambda>ls. bind_out (parse_ignore_expired 0 (lics_data ls)) (\<lambda>ls. Ok (map lic_len (lics_blocks ls)))) =
   (Ok [56, 42] :: (license_error, nat list) outcome)"
  by (intro conjI; code_simp)

end
