(* ===== verification/Sliding_Window.thy ===== *)
theory Sliding_Window
  imports Prelude
begin

text \<open>
  The minimum of the last values (\<open>SlidingWindowMinimum\<close> in \<open>tsclientlib/src/audio.rs\<close>): a queue of
  the values that can still become the minimum, with the time of their insertion as a byte that
  wraps; and its equivalence with the minimum over the history of pushed values.
\<close>

section \<open>The reverse order\<close>

text \<open>\<open>std::cmp::Reverse\<close>.\<close>

datatype 'a rev_order = Reverse (unreverse: 'a)

instantiation rev_order :: (linorder) linorder
begin

definition less_eq_rev_order :: "'a rev_order \<Rightarrow> 'a rev_order \<Rightarrow> bool" where
  "less_eq_rev_order x y \<longleftrightarrow> unreverse y \<le> unreverse x"

definition less_rev_order :: "'a rev_order \<Rightarrow> 'a rev_order \<Rightarrow> bool" where
  "less_rev_order x y \<longleftrightarrow> unreverse y < unreverse x"

instance
  by standard
    (auto simp: less_eq_rev_order_def less_rev_order_def intro: rev_order.expand)

end

section \<open>The window\<close>

record 'a sliding_window =
  sw_size :: u8
  sw_queue :: "(u8 \<times> 'a) list"
  sw_cur_time :: u8

definition sw_new :: "u8 \<Rightarrow> 'a sliding_window" where
  "sw_new n = \<lparr>sw_size = n, sw_queue = [], sw_cur_time = 0\<rparr>"

text \<open>Values from the back that are not smaller than the new one leave the queue.\<close>

fun pop_back_while :: "('a \<Rightarrow> bool) \<Rightarrow> 'a list \<Rightarrow> 'a list" where
  "pop_back_while p [] = []"
| "pop_back_while p (x # xs) =
     (let ys = pop_back_while p xs in if ys = [] \<and> p x then [] else x # ys)"

definition sw_push :: "'a::linorder \<Rightarrow> 'a sliding_window \<Rightarrow> 'a sliding_window" where
  "sw_push v w =
     (let q = pop_back_while (\<lambda>(_, s). s \<ge> v) (sw_queue w);
          q = q @ [(sw_cur_time w, v)];
          q = dropWhile (\<lambda>(i, _). sw_cur_time w - i \<ge> sw_size w) q
      in w\<lparr>sw_queue := q, sw_cur_time := sw_cur_time w + 1\<rparr>)"

text \<open>\<open>T::default()\<close> is the first argument.\<close>

definition sw_get_min :: "'a \<Rightarrow> 'a sliding_window \<Rightarrow> 'a" where
  "sw_get_min dflt w = (case sw_queue w of [] \<Rightarrow> dflt | (_, s) # _ \<Rightarrow> s)"

section \<open>The history\<close>

definition pushes :: "u8 \<Rightarrow> 'a::linorder list \<Rightarrow> 'a sliding_window" where
  "pushes n vs = foldl (\<lambda>w v. sw_push v w) (sw_new n) vs"

text \<open>
  The queue is the list of the positions in the window whose value is smaller than all later ones.
\<close>

definition is_record :: "'a::linorder list \<Rightarrow> nat \<Rightarrow> bool" where
  "is_record vs k \<longleftrightarrow> (\<forall>j. k < j \<and> j < length vs \<longrightarrow> vs ! k < vs ! j)"

definition window_records :: "nat \<Rightarrow> 'a::linorder list \<Rightarrow> nat list" where
  "window_records n vs = filter (\<lambda>k. length vs \<le> k + n \<and> is_record vs k) [0..<length vs]"

definition sw_abs :: "'a::linorder sliding_window \<Rightarrow> 'a list \<Rightarrow> bool" where
  "sw_abs w vs \<longleftrightarrow>
     sw_queue w = map (\<lambda>k. (of_nat k, vs ! k)) (window_records (unat (sw_size w)) vs) \<and>
     sw_cur_time w = of_nat (length vs)"

lemma pop_back_while_append:
  "(\<forall>x \<in> set ys. p x) \<Longrightarrow> (xs = [] \<or> \<not> p (last xs)) \<Longrightarrow> pop_back_while p (xs @ ys) = xs"
proof (induction xs)
  case Nil
  then show ?case by (induction ys) auto
next
  case (Cons x xs)
  then show ?case by (cases xs) auto
qed

lemma pop_back_while_filter:
  assumes "sorted_wrt (\<lambda>a b. p a \<longrightarrow> p b) xs"
  shows "pop_back_while p xs = filter (\<lambda>x. \<not> p x) xs"
  using assms
proof (induction xs)
  case (Cons x xs)
  then show ?case
    by (auto simp: Let_def filter_empty_conv)
qed simp

lemma dropWhile_filter:
  assumes "sorted_wrt (\<lambda>a b. p b \<longrightarrow> p a) xs"
  shows "dropWhile p xs = filter (\<lambda>x. \<not> p x) xs"
  using assms
proof (induction xs)
  case (Cons x xs)
  then show ?case
    by (cases "p x") (auto simp: filter_id_conv)
qed simp

lemma is_record_snoc:
  "k < length vs \<Longrightarrow> is_record (vs @ [v]) k \<longleftrightarrow> is_record vs k \<and> vs ! k < v"
  by (auto simp: is_record_def nth_append less_Suc_eq)

lemma is_record_last: "is_record (vs @ [v]) (length vs)"
  by (auto simp: is_record_def)

lemma window_records_snoc:
  "window_records n (vs @ [v]) =
   filter (\<lambda>k. length vs < k + n)
     (filter (\<lambda>k. vs ! k < v) (window_records n vs) @ [length vs])"
  by (auto simp: window_records_def filter_filter is_record_snoc is_record_last
      intro!: filter_cong)

lemma sorted_wrt_window_records:
  "sorted_wrt (\<lambda>i j. i < j \<and> j < length vs \<and> vs ! i < vs ! j) (window_records n vs)"
proof -
  have "sorted_wrt (\<lambda>i j. i < j) (window_records n vs)"
    unfolding window_records_def by (intro sorted_wrt_filter) simp
  then show ?thesis
    by (rule sorted_wrt_mono_rel [rotated]) (auto simp: window_records_def is_record_def)
qed

lemma wrapped_age:
  assumes "k \<le> n" and "n - k < 256"
  shows "unat (of_nat n - of_nat k :: u8) = n - k"
proof -
  have "(of_nat n - of_nat k :: u8) = of_nat (n - k)"
    using assms(1) by (simp add: of_nat_diff)
  with assms(2) show ?thesis
    by (simp add: unat_of_nat)
qed

lemma sw_push_abs:
  assumes "sw_abs w vs"
  shows "sw_abs (sw_push v w) (vs @ [v])"
proof -
  let ?n = "length vs" and ?s = "unat (sw_size w)"
  let ?f = "\<lambda>k. (of_nat k :: u8, (vs @ [v]) ! k)"
  have le: "sw_size w \<le> of_nat ?n - of_nat k \<longleftrightarrow> \<not> ?n < k + ?s" if "k \<le> ?n" "?n \<le> k + ?s" for k
    using that u8_bound [of "sw_size w"] wrapped_age [of k ?n] by (auto simp: word_le_nat_alt)
  have rec: "\<And>k. k \<in> set (window_records ?s vs) \<Longrightarrow> k < ?n \<and> ?n \<le> k + ?s"
    by (simp add: window_records_def)
  have q: "sw_queue w = map ?f (window_records ?s vs)"
    using assms rec by (auto simp: sw_abs_def nth_append)
  have sorted: "sorted_wrt (\<lambda>i j. i < j \<and> (vs @ [v]) ! i < (vs @ [v]) ! j) (window_records ?s vs)"
    using sorted_wrt_window_records
    by (rule sorted_wrt_mono_rel [rotated]) (auto dest: rec simp: nth_append)
  have "pop_back_while (\<lambda>(_, s). s \<ge> v) (sw_queue w) =
      filter (\<lambda>x. \<not> (case x of (_, s) \<Rightarrow> s \<ge> v)) (sw_queue w)"
    unfolding q by (intro pop_back_while_filter)
      (auto simp: sorted_wrt_map intro: sorted_wrt_mono_rel [OF _ sorted])
  also have "\<dots> = map ?f (filter (\<lambda>k. vs ! k < v) (window_records ?s vs))"
  proof -
    have "filter (\<lambda>k. \<not> v \<le> (vs @ [v]) ! k) (window_records ?s vs) =
        filter (\<lambda>k. vs ! k < v) (window_records ?s vs)"
      by (intro filter_cong) (auto simp: not_le nth_append dest: rec)
    then show ?thesis
      unfolding q by (simp add: filter_map o_def)
  qed
  finally have kept: "pop_back_while (\<lambda>(_, s). s \<ge> v) (sw_queue w) @ [(sw_cur_time w, v)] =
      map ?f (filter (\<lambda>k. vs ! k < v) (window_records ?s vs) @ [?n])"
    using assms by (simp add: sw_abs_def)
  let ?ks = "filter (\<lambda>k. vs ! k < v) (window_records ?s vs) @ [?n]"
  have ks: "\<And>k. k \<in> set ?ks \<Longrightarrow> k \<le> ?n \<and> ?n \<le> k + ?s"
    using rec by fastforce
  have "sorted_wrt (<) ?ks"
    using sorted rec by (auto simp: sorted_wrt_append intro: sorted_wrt_filter sorted_wrt_mono_rel [rotated])
  then have "dropWhile (\<lambda>k. \<not> ?n < k + ?s) ?ks = filter (\<lambda>k. ?n < k + ?s) ?ks"
    by (subst dropWhile_filter) (auto intro: sorted_wrt_mono_rel [rotated])
  moreover have "dropWhile (\<lambda>(i, _). sw_cur_time w - i \<ge> sw_size w) (map ?f ?ks) =
      map ?f (dropWhile (\<lambda>k. \<not> ?n < k + ?s) ?ks)"
    using assms unfolding dropWhile_map
    by (intro arg_cong [of _ _ "map ?f"] dropWhile_cong)
      (use le ks in \<open>fastforce simp: sw_abs_def\<close>)+
  ultimately show ?thesis
    using assms unfolding sw_push_def Let_def kept
    by (simp add: sw_abs_def window_records_snoc)
qed

lemma sw_size_push [simp]: "sw_size (sw_push v w) = sw_size w"
  by (simp add: sw_push_def)

lemma pushes_abs: "sw_abs (pushes n vs) vs \<and> sw_size (pushes n vs) = n"
proof (induction vs rule: rev_induct)
  case Nil
  then show ?case
    by (simp add: pushes_def sw_abs_def sw_new_def window_records_def)
next
  case (snoc v vs)
  then show ?case
    using sw_push_abs [of "pushes n vs" vs v] by (simp add: pushes_def)
qed

text \<open>The minimum of the last values.\<close>

definition last_values :: "nat \<Rightarrow> 'a list \<Rightarrow> 'a list" where
  "last_values n vs = drop (length vs - n) vs"

definition min_of_last :: "'a::linorder \<Rightarrow> nat \<Rightarrow> 'a list \<Rightarrow> 'a" where
  "min_of_last dflt n vs = (if last_values n vs = [] then dflt else Min (set (last_values n vs)))"

lemma in_last_values:
  "x \<in> set (last_values n vs) \<longleftrightarrow> (\<exists>k < length vs. length vs \<le> k + n \<and> vs ! k = x)"
proof
  assume "x \<in> set (last_values n vs)"
  then obtain i where "i < length (last_values n vs)" and "last_values n vs ! i = x"
    by (auto simp: in_set_conv_nth)
  then show "\<exists>k < length vs. length vs \<le> k + n \<and> vs ! k = x"
    by (intro exI [of _ "length vs - n + i"]) (auto simp: last_values_def)
next
  assume "\<exists>k < length vs. length vs \<le> k + n \<and> vs ! k = x"
  then obtain k where "k < length vs" "length vs \<le> k + n" "vs ! k = x" by blast
  then show "x \<in> set (last_values n vs)"
    unfolding last_values_def in_set_conv_nth
    by (intro exI [of _ "k - (length vs - n)"]) auto
qed

lemma window_records_head:
  assumes "last_values n vs \<noteq> []"
  shows "window_records n vs \<noteq> []"
    and "vs ! hd (window_records n vs) = Min (set (last_values n vs))"
proof -
  let ?m = "Min (set (last_values n vs))"
  let ?K = "{k. k < length vs \<and> length vs \<le> k + n \<and> vs ! k = ?m}"
  have "?m \<in> set (last_values n vs)" using assms by simp
  then have "?K \<noteq> {}" by (auto simp: in_last_values)
  moreover have fin: "finite ?K" by simp
  ultimately have K: "Max ?K \<in> ?K" by (rule Max_in [rotated])
  have least: "?m \<le> vs ! j" if "j < length vs" "length vs \<le> j + n" for j
    using that by (intro Min_le) (auto simp: in_last_values)
  have "is_record vs (Max ?K)"
    unfolding is_record_def
  proof (intro allI impI)
    fix j assume j: "Max ?K < j \<and> j < length vs"
    then have "j \<notin> ?K" using Max_ge [OF fin, of j] by fastforce
    with j K least [of j] show "vs ! Max ?K < vs ! j" by force
  qed
  with K have mem: "Max ?K \<in> set (window_records n vs)"
    by (simp add: window_records_def)
  then show ne: "window_records n vs \<noteq> []" by auto
  obtain k ks where ks: "window_records n vs = k # ks"
    using ne by (cases "window_records n vs") auto
  then have k: "k < length vs" "length vs \<le> k + n"
    using list.set_intros(1) [of k ks] by (auto simp: window_records_def simp flip: ks)
  have "vs ! k = ?m"
  proof (cases "Max ?K = k")
    case False
    with mem ks have "Max ?K \<in> set ks" by simp
    with sorted_wrt_window_records [of vs n] ks have "vs ! k < vs ! Max ?K" by simp
    with K least [OF k] show ?thesis by simp
  qed (use K in simp)
  with ks show "vs ! hd (window_records n vs) = ?m" by simp
qed

lemma sw_get_min_pushes: "sw_get_min dflt (pushes n vs) = min_of_last dflt (unat n) vs"
proof (cases "last_values (unat n) vs = []")
  case True
  then have "window_records (unat n) vs = []"
    by (auto simp: window_records_def last_values_def filter_empty_conv)
  with True pushes_abs [of n vs] show ?thesis
    by (simp add: sw_abs_def sw_get_min_def min_of_last_def)
next
  case False
  obtain k ks where ks: "window_records (unat n) vs = k # ks"
    using window_records_head(1) [OF False] by (cases "window_records (unat n) vs") auto
  with False pushes_abs [of n vs] window_records_head(2) [OF False] show ?thesis
    by (simp add: sw_abs_def sw_get_min_def min_of_last_def)
qed

text \<open>C23: after any sequence of pushes the queue gives the minimum of the last values in the window,
  although it keeps only some of them and its times are bytes that wrap; this holds for every window
  size a byte can give, and for a reversed order it is the maximum.\<close>

theorem sliding_window_minimum:
  "sw_get_min dflt (pushes n vs) = min_of_last dflt (unat n) vs"
  by (rule sw_get_min_pushes)

end
