(* ===== verification/Audio.thy ===== *)
theory Audio
  imports Packets Sliding_Window "HOL-Library.AList"
begin

text \<open>
  Receiving audio (\<open>tsclientlib/src/audio.rs\<close>): a queue of packets per talking client, its decoder
  and its buffers, and the handler that mixes the queues. The Opus decoder is a parameter with a state
  of its own; samples are an abstract type with a zero, a one, a sum and a product, for 32-bit floats.
  A subtraction below zero is a panic. The hash map of queues is an association list, in the order in
  which it is iterated.
\<close>

section \<open>Constants and errors\<close>

definition CHANNEL_NUM :: nat where "CHANNEL_NUM = 2"
definition MAX_PACKET_LOSSES :: nat where "MAX_PACKET_LOSSES = 3"
definition LAST_BUFFER_SIZE_COUNT :: u8 where "LAST_BUFFER_SIZE_COUNT = 255"
definition MAX_BUFFER_SIZE :: nat where "MAX_BUFFER_SIZE = 24000"
definition MAX_BUFFER_PACKETS :: nat where "MAX_BUFFER_PACKETS = 50"
definition MAX_BUFFER_TIME :: nat where "MAX_BUFFER_TIME = 24000"
definition SPEED_CHANGE_STEPS :: nat where "SPEED_CHANGE_STEPS = 100"
definition USUAL_FRAME_SIZE :: nat where "USUAL_FRAME_SIZE = 960"

lemmas audio_constants = CHANNEL_NUM_def MAX_PACKET_LOSSES_def LAST_BUFFER_SIZE_COUNT_def
  MAX_BUFFER_SIZE_def MAX_BUFFER_PACKETS_def MAX_BUFFER_TIME_def SPEED_CHANGE_STEPS_def
  USUAL_FRAME_SIZE_def

lemma word_le_max_packets: "x \<le> of_nat MAX_BUFFER_PACKETS \<longleftrightarrow> unat x \<le> MAX_BUFFER_PACKETS"
  for x :: u16
  by (simp add: word_le_nat_alt MAX_BUFFER_PACKETS_def)

lemma max_buffer_frames [code_unfold]: "MAX_BUFFER_SIZE div USUAL_FRAME_SIZE = 25"
  by (simp add: MAX_BUFFER_SIZE_def USUAL_FRAME_SIZE_def)

datatype audio_error =
    CreateDecoder
  | DecodeFailed "audio_data option"
  | DuplicatePacket u16
  | GetPacketSample
  | QueueFull
  | TooLate u16 u16
  | TooManySamples
  | UnsupportedCodec codec_type

text \<open>
  The decoder library: a new decoder, whether bytes are a packet (\<open>Packet::try_from\<close>), the number of
  samples of a packet, whether a slice of a length can be filled (\<open>MutSignals::try_from\<close>), and \<open>decode_float\<close>, which fills a slice of samples and returns the number of
  samples per channel.
\<close>

record ('d, 'f) audio_env =
  ae_new :: "'d option"
  ae_packet :: "bytes \<Rightarrow> bool"
  ae_samples :: "bytes \<Rightarrow> nat option"
  ae_signals :: "nat \<Rightarrow> bool"
  ae_decode :: "'d \<Rightarrow> bytes option \<Rightarrow> bool \<Rightarrow> 'f list \<Rightarrow> 'd \<times> 'f list \<times> nat option"
  ae_zero :: 'f
  ae_one :: 'f
  ae_add :: "'f \<Rightarrow> 'f \<Rightarrow> 'f"
  ae_mul :: "'f \<Rightarrow> 'f \<Rightarrow> 'f"

section \<open>State\<close>

record queue_packet =
  qp_packet :: audio_data
  qp_samples :: nat
  qp_id :: u16

record ('d, 'f) audio_queue =
  aq_decoder :: 'd
  aq_volume :: 'f
  aq_next_id :: u16
  aq_whispering :: bool
  aq_packets :: "queue_packet list"
  aq_packets_samples :: nat
  aq_decoded :: "'f list"
  aq_decoded_pos :: nat
  aq_last_samples :: nat
  aq_loss_num :: nat
  aq_buffering :: nat
  aq_size_min :: "u8 sliding_window"
  aq_size_max :: "u8 rev_order sliding_window"
  aq_buffered_for :: nat

type_synonym ('d, 'f, 'a) queue_result = "(audio_error, 'a) outcome \<times> ('d, 'f) audio_queue"

text \<open>Sequencing; the changes made before an error stay.\<close>

fun bind_aq ::
  "('d, 'f, 'a) queue_result \<Rightarrow> ('a \<Rightarrow> ('d, 'f) audio_queue \<Rightarrow> ('d, 'f, 'b) queue_result)
     \<Rightarrow> ('d, 'f, 'b) queue_result" where
  "bind_aq (Ok x, q) f = f x q"
| "bind_aq (Err e, q) f = (Err e, q)"
| "bind_aq (Panic, q) f = (Panic, q)"

definition sub_checked :: "nat \<Rightarrow> nat \<Rightarrow> ('e, nat) outcome" where
  "sub_checked a b = (if b \<le> a then Ok (a - b) else Panic)"

text \<open>\<open>Vec::resize\<close>.\<close>

definition resize :: "nat \<Rightarrow> 'a \<Rightarrow> 'a list \<Rightarrow> 'a list" where
  "resize n x xs = take n xs @ replicate (n - length xs) x"

lemma length_resize [simp]: "length (resize n x xs) = n"
  by (simp add: resize_def)

section \<open>Buffer sizes\<close>

definition add_buffer_size :: "nat \<Rightarrow> ('d, 'f) audio_queue \<Rightarrow> ('d, 'f) audio_queue" where
  "add_buffer_size n q =
     (let frames = n div USUAL_FRAME_SIZE in
      if frames \<le> 255 then
        q\<lparr>aq_size_min := sw_push (of_nat frames) (aq_size_min q),
          aq_size_max := sw_push (Reverse (of_nat frames)) (aq_size_max q)\<rparr>
      else q)"

definition size_min :: "('d, 'f) audio_queue \<Rightarrow> u8" where
  "size_min q = sw_get_min 0 (aq_size_min q)"

definition get_deviation :: "('d, 'f) audio_queue \<Rightarrow> (audio_error, u8) outcome" where
  "get_deviation q =
     (let lo = size_min q; hi = unreverse (sw_get_min (Reverse 0) (aq_size_max q)) in
      if lo \<le> hi then Ok (hi - lo) else Panic)"

section \<open>Adding packets\<close>

fun is_s2c_whisper :: "audio_data \<Rightarrow> bool" where
  "is_s2c_whisper (AudioS2CWhisper _ _ _ _) = True"
| "is_s2c_whisper _ = False"

definition packet_samples :: "('d, 'f) audio_env \<Rightarrow> bytes \<Rightarrow> (audio_error, nat) outcome" where
  "packet_samples env data =
     bind_out (ok_or GetPacketSample (ae_samples env data)) (\<lambda>n.
       if n > MAX_BUFFER_SIZE then Err TooManySamples else Ok n)"

text \<open>The samples of a packet to add; a packet without contents ends the stream.\<close>

definition new_samples :: "('d, 'f) audio_env \<Rightarrow> audio_data \<Rightarrow> (audio_error, nat) outcome" where
  "new_samples env packet =
     (if length (audio_payload packet) \<le> 1 then Ok 0 else packet_samples env (audio_payload packet))"

text \<open>The position behind the packets, from the back, that do not come after \<open>i\<close>.\<close>

definition insert_position :: "u16 \<Rightarrow> queue_packet list \<Rightarrow> nat" where
  "insert_position i ps =
     length ps - length (takeWhile (\<lambda>p. qp_id p - i \<le> of_nat MAX_BUFFER_PACKETS) (rev ps))"

definition insert_at :: "nat \<Rightarrow> 'a \<Rightarrow> 'a list \<Rightarrow> 'a list" where
  "insert_at i x xs = take i xs @ x # drop i xs"

definition add_packet ::
  "('d, 'f) audio_env \<Rightarrow> audio_data \<Rightarrow> ('d, 'f) audio_queue \<Rightarrow> ('d, 'f, unit) queue_result" where
  "add_packet env packet q =
     (if MAX_BUFFER_PACKETS \<le> length (aq_packets q) then (Err QueueFull, q)
      else
        bind_aq (new_samples env packet, q) (\<lambda>samples q.
        let i = audio_id packet in
        if i - aq_next_id q > of_nat MAX_BUFFER_PACKETS then (Err (TooLate (aq_next_id q) i), q)
        else
          let pos = insert_position i (aq_packets q) in
          if pos < length (aq_packets q) \<and> qp_id (aq_packets q ! pos) = i
          then (Err (DuplicatePacket i), q)
          else
            let last_id = (if aq_packets q = [] then i else qp_id (last (aq_packets q)) + 1);
                q = (if last_id \<le> i then
                       q\<lparr>aq_buffering :=
                           aq_buffering q - samples - unat (i - last_id) * aq_last_samples q\<rparr>
                     else q)
            in (Ok (),
                q\<lparr>aq_packets_samples := aq_packets_samples q + samples,
                  aq_packets := insert_at pos
                    \<lparr>qp_packet = packet, qp_samples = samples, qp_id = i\<rparr> (aq_packets q)\<rparr>)))"

definition audio_queue_new ::
  "('d, 'f) audio_env \<Rightarrow> audio_data \<Rightarrow> (audio_error, ('d, 'f) audio_queue) outcome" where
  "audio_queue_new env packet =
     bind_out (packet_samples env (audio_payload packet)) (\<lambda>samples.
     bind_out (ok_or CreateDecoder (ae_new env)) (\<lambda>decoder.
       let q = \<lparr>aq_decoder = decoder, aq_volume = ae_one env, aq_next_id = audio_id packet,
                aq_whispering = is_s2c_whisper packet, aq_packets = [], aq_packets_samples = 0,
                aq_decoded = [], aq_decoded_pos = 0, aq_last_samples = samples * CHANNEL_NUM,
                aq_loss_num = 0, aq_buffering = 0, aq_size_min = sw_new LAST_BUFFER_SIZE_COUNT,
                aq_size_max = sw_new LAST_BUFFER_SIZE_COUNT, aq_buffered_for = 0\<rparr> in
       case add_packet env packet (add_buffer_size 0 q) of
         (Ok _, q) \<Rightarrow> Ok q
       | (Err e, _) \<Rightarrow> Err e
       | (Panic, _) \<Rightarrow> Panic))"

section \<open>Decoding\<close>

definition count_lost :: "('d, 'f) audio_queue \<Rightarrow> (audio_error, nat) outcome" where
  "count_lost q =
     (if aq_packets q = [] then Ok 0
      else sub_checked (unat (qp_id (last (aq_packets q)) - aq_next_id q) + 1) (length (aq_packets q)))"

definition decode_data ::
  "('d, 'f) audio_env \<Rightarrow> queue_packet option \<Rightarrow> bytes option \<Rightarrow> nat \<Rightarrow> bool \<Rightarrow> ('d, 'f) audio_queue
     \<Rightarrow> ('d, 'f, unit) queue_result" where
  "decode_data env packet packet_data len fec q =
     (let q = q\<lparr>aq_loss_num := aq_loss_num q + 1,
                aq_decoded := resize (aq_decoded_pos q + len * CHANNEL_NUM) (ae_zero env) (aq_decoded q)\<rparr>
      in if \<not> ae_signals env (len * CHANNEL_NUM) then (Err GetPacketSample, q)
      else
        let pos = aq_decoded_pos q;
            (decoder, samples, res) =
              ae_decode env (aq_decoder q) packet_data fec (drop pos (aq_decoded q));
            q = q\<lparr>aq_decoder := decoder, aq_decoded := take pos (aq_decoded q) @ samples\<rparr>
        in case res of
             None \<Rightarrow> (Err (DecodeFailed (map_option qp_packet packet)), q)
           | Some len \<Rightarrow>
               let q = q\<lparr>aq_last_samples := len,
                         aq_decoded := take (pos + len * CHANNEL_NUM) (aq_decoded q),
                         aq_decoded_pos := pos + len * CHANNEL_NUM,
                         aq_loss_num := (if packet \<noteq> None \<and> \<not> fec then 0 else aq_loss_num q)\<rparr>
               in bind_aq (count_lost q, q) (\<lambda>lost q.
                    (Ok (), add_buffer_size (aq_packets_samples q + lost * aq_last_samples q) q)))"

definition decode_packet ::
  "('d, 'f) audio_env \<Rightarrow> queue_packet option \<Rightarrow> bool \<Rightarrow> ('d, 'f) audio_queue
     \<Rightarrow> ('d, 'f, unit) queue_result" where
  "decode_packet env packet fec q =
     (case packet of
        Some p \<Rightarrow>
          let data = audio_payload (qp_packet p) in
          if \<not> ae_packet env data then (Err GetPacketSample, q)
          else decode_data env packet (Some data) (qp_samples p) fec
                 (q\<lparr>aq_whispering := is_s2c_whisper (qp_packet p)\<rparr>)
      | None \<Rightarrow> decode_data env packet None (aq_last_samples q) fec q)"

text \<open>One round of the loop of \<open>get_next_data\<close> ends the call, the loop or only the round.\<close>

datatype 'f round = Again | Leave | Finish "'f list" bool

text \<open>The number of packets from the back that are kept when the buffer is truncated.\<close>

fun keep_count :: "nat \<Rightarrow> nat \<Rightarrow> queue_packet list \<Rightarrow> nat" where
  "keep_count limit acc [] = 0"
| "keep_count limit acc (p # ps) =
     (if acc + qp_samples p < limit then Suc (keep_count limit (acc + qp_samples p) ps) else 0)"

definition truncate_packets :: "u8 \<Rightarrow> ('d, 'f) audio_queue \<Rightarrow> ('d, 'f) audio_queue" where
  "truncate_packets lo q =
     (let keep = keep_count (unat lo + USUAL_FRAME_SIZE) 0 (rev (aq_packets q));
          ps = drop (length (aq_packets q) - keep) (aq_packets q) in
      q\<lparr>aq_packets := ps, aq_packets_samples := sum_list (map qp_samples ps),
        aq_next_id := (case ps of [] \<Rightarrow> aq_next_id q | p # _ \<Rightarrow> qp_id p)\<rparr>)"

text \<open>\<open>drain(i..j)\<close>.\<close>

definition drain_range :: "nat \<Rightarrow> nat \<Rightarrow> 'a list \<Rightarrow> (audio_error, 'a list) outcome" where
  "drain_range i j xs = (if i \<le> j \<and> j \<le> length xs then Ok (take i xs @ drop j xs) else Panic)"

fun drop_samples :: "nat \<Rightarrow> nat \<Rightarrow> nat \<Rightarrow> 'f list \<Rightarrow> (audio_error, 'f list) outcome" where
  "drop_samples start i 0 xs = Ok xs"
| "drop_samples start i (Suc n) xs =
     (let j = start + i * (SPEED_CHANGE_STEPS - 1) * CHANNEL_NUM in
      bind_out (drain_range j (j + CHANNEL_NUM) xs) (drop_samples start (i + 1) n))"

definition speed_up :: "('d, 'f) audio_queue \<Rightarrow> ('d, 'f, unit) queue_result" where
  "speed_up q =
     bind_aq (bind_out (sub_checked (length (aq_decoded q)) (aq_last_samples q * CHANNEL_NUM)) (\<lambda>start.
                drop_samples start 0 (aq_last_samples q div SPEED_CHANGE_STEPS) (aq_decoded q)), q)
       (\<lambda>xs q. (Ok (), q\<lparr>aq_decoded := xs\<rparr>))"

text \<open>The next packet is decoded, or the loss of one is concealed.\<close>

definition take_packet ::
  "('d, 'f) audio_env \<Rightarrow> queue_packet \<Rightarrow> ('d, 'f) audio_queue \<Rightarrow> ('d, 'f, unit) queue_result" where
  "take_packet env packet q =
     bind_aq (sub_checked (aq_packets_samples q) (qp_samples packet), q) (\<lambda>n q.
       let cur_id = aq_next_id q;
           q = q\<lparr>aq_packets_samples := n, aq_next_id := aq_next_id q + 1\<rparr> in
       if qp_id packet \<noteq> cur_id then
         bind_aq (if qp_id packet = aq_next_id q then decode_packet env (Some packet) True q
                  else decode_packet env None False q) (\<lambda>_ q.
           (Ok (), q\<lparr>aq_packets_samples := aq_packets_samples q + qp_samples packet,
                    aq_packets := packet # aq_packets q\<rparr>))
       else decode_packet env (Some packet) False q)"

definition adjust_speed :: "('d, 'f) audio_queue \<Rightarrow> ('d, 'f, 'f round) queue_result" where
  "adjust_speed q =
     (if aq_last_samples q = 0 then (Ok Leave, q)
      else
        bind_aq (get_deviation q, q) (\<lambda>dev q.
        let lo = size_min q in
        if lo > of_nat (MAX_BUFFER_SIZE div USUAL_FRAME_SIZE) then (Ok Again, truncate_packets lo q)
        else if lo > dev then bind_aq (speed_up q) (\<lambda>_ q. (Ok Again, q))
        else (Ok Again, q)))"

definition decode_round ::
  "('d, 'f) audio_env \<Rightarrow> ('d, 'f) audio_queue \<Rightarrow> ('d, 'f, 'f round) queue_result" where
  "decode_round env q =
     (case aq_packets q of
        packet # packets \<Rightarrow>
          let q = q\<lparr>aq_packets := packets\<rparr> in
          if length (audio_payload (qp_packet packet)) \<le> 1 then (Ok (Finish (aq_decoded q) True), q)
          else bind_aq (take_packet env packet q) (\<lambda>_. adjust_speed)
      | [] \<Rightarrow> bind_aq (decode_packet env None False q) (\<lambda>_. adjust_speed))"

definition finish_data :: "nat \<Rightarrow> ('d, 'f) audio_queue \<Rightarrow> ('d, 'f, 'f list \<times> bool) queue_result" where
  "finish_data len q =
     bind_aq (slice (aq_decoded q) 0 len, q\<lparr>aq_decoded_pos := len\<rparr>) (\<lambda>xs q. (Ok (xs, False), q))"

partial_function (option) decode_loop ::
  "('d, 'f) audio_env \<Rightarrow> nat \<Rightarrow> ('d, 'f) audio_queue \<Rightarrow> ('d, 'f, 'f list \<times> bool) queue_result option" where
  "decode_loop env len q =
     (if length (aq_decoded q) < len then
        (case decode_round env q of
           (Ok Again, q) \<Rightarrow> decode_loop env len q
         | (Ok Leave, q) \<Rightarrow> Some (finish_data len q)
         | (Ok (Finish xs is_end), q) \<Rightarrow> Some (Ok (xs, is_end), q)
         | (Err e, q) \<Rightarrow> Some (Err e, q)
         | (Panic, q) \<Rightarrow> Some (Panic, q))
      else Some (finish_data len q))"

declare decode_loop.simps [code]

text \<open>What is left of the last call moves to the front.\<close>

definition rewind :: "('d, 'f) audio_queue \<Rightarrow> ('d, 'f) audio_queue" where
  "rewind q =
     (if aq_decoded_pos q < length (aq_decoded q) then
        if 0 < aq_decoded_pos q then
          q\<lparr>aq_decoded := drop (aq_decoded_pos q) (aq_decoded q), aq_decoded_pos := 0\<rparr>
        else q
      else q\<lparr>aq_decoded := [], aq_decoded_pos := 0\<rparr>)"

definition get_next_data ::
  "('d, 'f) audio_env \<Rightarrow> nat \<Rightarrow> ('d, 'f) audio_queue \<Rightarrow> ('d, 'f, 'f list \<times> bool) queue_result option" where
  "get_next_data env len q =
     (if 0 < aq_buffering q \<and> aq_buffered_for q < MAX_BUFFER_TIME then
        Some (Ok ([], False), q\<lparr>aq_buffered_for := aq_buffered_for q + len\<rparr>)
      else
        let q = (if 0 < aq_buffering q then q\<lparr>aq_buffering := 0, aq_buffered_for := 0\<rparr> else q)
        in decode_loop env len (rewind q))"

section \<open>The handler\<close>

record ('i, 'd, 'f) audio_handler =
  ah_queues :: "('i \<times> ('d, 'f) audio_queue) list"
  ah_avg_buffer :: nat

definition audio_handler_new :: "('i, 'd, 'f) audio_handler" where
  "audio_handler_new = \<lparr>ah_queues = [], ah_avg_buffer = 0\<rparr>"

definition audio_handler_reset :: "('i, 'd, 'f) audio_handler \<Rightarrow> ('i, 'd, 'f) audio_handler" where
  "audio_handler_reset h = h\<lparr>ah_queues := []\<rparr>"

text \<open>\<open>buf[i] += r[i] * vol\<close> for every sample of \<open>r\<close>.\<close>

definition mix :: "('d, 'f) audio_env \<Rightarrow> 'f \<Rightarrow> 'f list \<Rightarrow> 'f list \<Rightarrow> (audio_error, 'f list) outcome" where
  "mix env vol r buf =
     (if length r \<le> length buf
      then Ok (map2 (\<lambda>b x. ae_add env b (ae_mul env x vol)) (take (length r) buf) r @ drop (length r) buf)
      else Panic)"

text \<open>
  The loop over the queues: the mixed buffer, the new queues, the talkers to remove and the calls of
  the preprocessor.
\<close>

fun fill_queues ::
  "('d, 'f) audio_env \<Rightarrow> ('i \<times> ('d, 'f) audio_queue) list \<Rightarrow> 'f list
     \<Rightarrow> (audio_error, 'f list \<times> ('i \<times> ('d, 'f) audio_queue) list \<times> 'i list \<times> ('i \<times> 'f list) list) outcome option"
where
  "fill_queues env [] buf = Some (Ok (buf, [], [], []))"
| "fill_queues env ((i, q) # qs) buf =
     (if MAX_PACKET_LOSSES \<le> aq_loss_num q then
        map_option (\<lambda>r. bind_out r (\<lambda>(buf, qs, rem, calls). Ok (buf, (i, q) # qs, i # rem, calls)))
          (fill_queues env qs buf)
      else
        case get_next_data env (length buf) q of
          None \<Rightarrow> None
        | Some (Panic, _) \<Rightarrow> Some Panic
        | Some (Err _, q') \<Rightarrow>
            map_option (\<lambda>r. bind_out r (\<lambda>(buf, qs, rem, calls). Ok (buf, (i, q') # qs, rem, calls)))
              (fill_queues env qs buf)
        | Some (Ok (r, is_end), q') \<Rightarrow>
            (case mix env (aq_volume q) r buf of
               Ok buf \<Rightarrow>
                 map_option (\<lambda>res. bind_out res (\<lambda>(buf, qs, rem, calls).
                     Ok (buf, (i, q') # qs, if is_end then i # rem else rem, (i, r) # calls)))
                   (fill_queues env qs buf)
             | _ \<Rightarrow> Some Panic))"

definition fill_buffer_with_proc ::
  "('d, 'f) audio_env \<Rightarrow> 'f list \<Rightarrow> ('i, 'd, 'f) audio_handler
     \<Rightarrow> (audio_error, 'f list \<times> 'i list \<times> ('i \<times> 'f list) list \<times> ('i, 'd, 'f) audio_handler) outcome option" where
  "fill_buffer_with_proc env buf h =
     map_option (\<lambda>r. bind_out r (\<lambda>(buf, qs, rem, calls).
         Ok (buf, rem, calls, h\<lparr>ah_queues := filter (\<lambda>(i, _). i \<notin> set rem) qs\<rparr>)))
       (fill_queues env (ah_queues h) buf)"

definition fill_buffer ::
  "('d, 'f) audio_env \<Rightarrow> 'f list \<Rightarrow> ('i, 'd, 'f) audio_handler
     \<Rightarrow> (audio_error, 'f list \<times> 'i list \<times> ('i, 'd, 'f) audio_handler) outcome option" where
  "fill_buffer env buf h =
     map_option (\<lambda>r. bind_out r (\<lambda>(buf, rem, _, h). Ok (buf, rem, h))) (fill_buffer_with_proc env buf h)"

definition handle_packet ::
  "('d, 'f) audio_env \<Rightarrow> 'i \<Rightarrow> audio_data \<Rightarrow> ('i, 'd, 'f) audio_handler
     \<Rightarrow> (audio_error, 'i option) outcome \<times> ('i, 'd, 'f) audio_handler" where
  "handle_packet env i packet h =
     (let codec = audio_codec packet in
      if codec \<noteq> OpusMusic \<and> codec \<noteq> OpusVoice then (Err (UnsupportedCodec codec), h)
      else
        case map_of (ah_queues h) i of
          Some q \<Rightarrow>
            let (r, q') = add_packet env packet q in
            (bind_out r (\<lambda>_. Ok None), h\<lparr>ah_queues := AList.update i q' (ah_queues h)\<rparr>)
        | None \<Rightarrow>
            if length (audio_payload packet) \<le> 1 then (Ok None, h)
            else
              (case audio_queue_new env packet of
                 Ok q \<Rightarrow>
                   let qs = ah_queues h;
                       h = (if qs = [] then h
                            else h\<lparr>ah_avg_buffer := USUAL_FRAME_SIZE +
                                     sum_list (map (\<lambda>(_, q). unat (size_min q)) qs) div length qs\<rparr>);
                       q = q\<lparr>aq_buffering := ah_avg_buffer h\<rparr>
                   in (Ok (Some i), h\<lparr>ah_queues := (i, q) # qs\<rparr>)
               | Err e \<Rightarrow> (Err e, h)
               | Panic \<Rightarrow> (Panic, h)))"

end
