(* ===== verification/Audio_Safety.thy ===== *)
theory Audio_Safety
  imports Audio
begin

text \<open>
  The queue of audio packets is safe: its packets stay in the order of their ids after the next one,
  its counters agree with its contents, and neither adding a packet nor fetching samples panics or
  loops, provided that the decoder keeps to its contract.
\<close>

section \<open>The decoder's contract\<close>

text \<open>
  \<open>decode_float\<close> keeps the length of the slice and returns a positive number of samples per channel
  that fits into it.
\<close>

definition decoder_ok :: "('d, 'f) audio_env \<Rightarrow> bool" where
  "decoder_ok env \<longleftrightarrow>
     (\<forall>d data fec xs. case ae_decode env d data fec xs of (_, ys, res) \<Rightarrow>
        length ys = length xs \<and>
        (case res of None \<Rightarrow> True | Some n \<Rightarrow> 0 < n \<and> n * CHANNEL_NUM \<le> length xs))"

lemma decoder_okD:
  assumes "decoder_ok env" and "ae_decode env d data fec xs = (d', ys, res)"
  shows "length ys = length xs" and "res = Some n \<Longrightarrow> 0 < n \<and> n * CHANNEL_NUM \<le> length xs"
  using assms(1) [unfolded decoder_ok_def, rule_format, where d = d and data = data and fec = fec and xs = xs] assms(2)
  by (auto split: option.splits)

section \<open>The invariant\<close>

text \<open>The distance of an id behind the next one.\<close>

definition ahead :: "u16 \<Rightarrow> u16 \<Rightarrow> nat" where
  "ahead nxt i = unat (i - nxt)"

definition ids_ok :: "u16 \<Rightarrow> u16 list \<Rightarrow> bool" where
  "ids_ok nxt ids \<longleftrightarrow> sorted_wrt (\<lambda>a b. ahead nxt a < ahead nxt b) ids \<and>
     (\<forall>i \<in> set ids. ahead nxt i \<le> MAX_BUFFER_PACKETS)"

text \<open>A packet that ends the stream counts no samples.\<close>

definition end_ok :: "queue_packet \<Rightarrow> bool" where
  "end_ok p \<longleftrightarrow> (length (audio_payload (qp_packet p)) \<le> 1 \<longrightarrow> qp_samples p = 0)"

definition packets_ok :: "('d, 'f) audio_queue \<Rightarrow> bool" where
  "packets_ok q \<longleftrightarrow>
     ids_ok (aq_next_id q) (map qp_id (aq_packets q)) \<and>
     aq_packets_samples q = sum_list (map qp_samples (aq_packets q)) \<and>
     (\<forall>p \<in> set (aq_packets q). end_ok p)"

definition sizes_ok :: "('d, 'f) audio_queue \<Rightarrow> bool" where
  "sizes_ok q \<longleftrightarrow>
     (\<exists>vs. aq_size_min q = pushes LAST_BUFFER_SIZE_COUNT vs \<and>
           aq_size_max q = pushes LAST_BUFFER_SIZE_COUNT (map Reverse vs))"

definition queue_ok :: "('d, 'f) audio_queue \<Rightarrow> bool" where
  "queue_ok q \<longleftrightarrow>
     length (aq_packets q) \<le> MAX_BUFFER_PACKETS \<and> packets_ok q \<and> sizes_ok q"

subsection \<open>Distances\<close>

lemma ahead_eq_iff: "ahead n a = ahead n b \<longleftrightarrow> a = b"
proof
  assume "ahead n a = ahead n b"
  then have "a - n = b - n"
    by (simp only: ahead_def word_unat_eq_iff)
  then show "a = b" by simp
qed simp

lemma ahead_diff:
  assumes "ahead n a \<le> ahead n b"
  shows "unat (b - a) = ahead n b - ahead n a"
proof -
  have "b - a = (b - n) - (a - n)" by simp
  with assms unat_sub_u16 [of "b - n" "a - n"] show ?thesis
    by (simp only: ahead_def if_True)
qed

lemma ahead_diff_less:
  assumes "ahead n b < ahead n a"
  shows "unat (b - a) = 65536 + ahead n b - ahead n a"
proof -
  have "b - a = (b - n) - (a - n)" by simp
  moreover from assms have "\<not> unat (a - n) \<le> unat (b - n)"
    by (simp only: ahead_def not_le)
  ultimately show ?thesis
    using unat_sub_u16 [of "b - n" "a - n"] by (simp only: ahead_def if_False)
qed

lemma ahead_Suc:
  assumes "i \<noteq> n"
  shows "ahead n i = Suc (ahead (n + 1) i)"
proof -
  have ne: "i - n \<noteq> 0" using assms by simp
  have "i - (n + 1) = (i - n) - 1" by simp
  then have "ahead (n + 1) i = unat (i - n) - 1"
    by (simp only: ahead_def unat_minus_one [OF ne])
  moreover have "0 < unat (i - n)" using ne by (simp add: unat_gt_0)
  ultimately show ?thesis by (simp add: ahead_def)
qed

lemma ids_ok_distinct: "ids_ok n ids \<Longrightarrow> i < length ids \<Longrightarrow> i \<le> ahead n (ids ! i)"
proof (induction i)
  case (Suc i)
  then have "ahead n (ids ! i) < ahead n (ids ! Suc i)"
    by (auto simp: ids_ok_def sorted_wrt_iff_nth_less)
  with Suc show ?case by simp
qed simp

lemma ids_ok_last:
  assumes "ids_ok n ids" "ids \<noteq> []"
  shows "length ids \<le> Suc (ahead n (last ids))"
  using ids_ok_distinct [OF assms(1), of "length ids - 1"] assms(2)
  by (cases ids rule: rev_cases) (simp_all add: nth_append)

lemma ids_ok_tl: "ids_ok n (i # ids) \<Longrightarrow> ids_ok n ids"
  by (simp add: ids_ok_def)

text \<open>The next id moves on when the front packet is not the wanted one, or has been taken.\<close>

lemma ids_ok_Suc:
  assumes "ids_ok n ids" and "n \<notin> set ids"
  shows "ids_ok (n + 1) ids"
proof -
  have s: "ahead n i = Suc (ahead (n + 1) i)" if "i \<in> set ids" for i
    using that assms(2) by (intro ahead_Suc) auto
  have "sorted_wrt (\<lambda>a b. ahead (n + 1) a < ahead (n + 1) b) ids"
    using assms(1) s
    by (auto simp: ids_ok_def intro: sorted_wrt_mono_rel [of ids "\<lambda>a b. ahead n a < ahead n b"])
  then show ?thesis
    using assms(1) s by (auto simp: ids_ok_def)
qed

lemma ids_ok_next_in:
  assumes "ids_ok n (i # ids)"
  shows "n \<notin> set ids"
  using assms by (auto simp: ids_ok_def ahead_def)

lemma ids_ok_drop: "ids_ok n ids \<Longrightarrow> ids_ok n (drop k ids)"
  by (auto simp: ids_ok_def intro: sorted_wrt_drop dest: in_set_dropD)

text \<open>A list of ids starts anew at its first.\<close>

lemma ids_ok_from_head:
  assumes "ids_ok n (i # ids)"
  shows "ids_ok i (i # ids)"
proof -
  have le: "ahead n i \<le> ahead n j" if "j \<in> set (i # ids)" for j
    using that assms by (auto simp: ids_ok_def less_imp_le)
  have d: "ahead i j = ahead n j - ahead n i" if "j \<in> set (i # ids)" for j
    using ahead_diff [OF le [OF that]] by (simp only: ahead_def)
  have "sorted_wrt (\<lambda>a b. ahead n a < ahead n b) (i # ids)"
    using assms by (simp only: ids_ok_def)
  then have "sorted_wrt (\<lambda>a b. ahead i a < ahead i b) (i # ids)"
  proof (rule sorted_wrt_mono_rel [rotated])
    fix a b assume ab: "a \<in> set (i # ids)" "b \<in> set (i # ids)" "ahead n a < ahead n b"
    with d [OF ab(1)] d [OF ab(2)] le [OF ab(1)] le [OF ab(2)]
    show "ahead i a < ahead i b" by linarith
  qed
  moreover have "ahead i j \<le> MAX_BUFFER_PACKETS" if "j \<in> set (i # ids)" for j
  proof -
    from assms that have "ahead n j \<le> MAX_BUFFER_PACKETS" by (simp only: ids_ok_def)
    with d [OF that] show ?thesis by linarith
  qed
  ultimately show ?thesis by (simp only: ids_ok_def) blast
qed

section \<open>Inserting\<close>

lemma takeWhile_rev_sorted:
  assumes "sorted_wrt (\<lambda>a b. f a < f b) xs" and "\<And>x. x \<in> set xs \<Longrightarrow> p x \<longleftrightarrow> c \<le> f x"
  shows "length xs - length (takeWhile p (rev xs)) = length (filter (\<lambda>x. f x < (c :: nat)) xs)"
  using assms
proof (induction xs rule: rev_induct)
  case (snoc x xs)
  show ?case
  proof (cases "p x")
    case True
    with snoc show ?thesis
      by (simp add: sorted_wrt_append)
  next
    case False
    then have "f x < c" using snoc.prems(2) [of x] by simp
    moreover have "filter (\<lambda>y. f y < c) xs = xs"
      using snoc.prems(1) \<open>f x < c\<close> by (fastforce simp: sorted_wrt_append filter_id_conv)
    ultimately show ?thesis
      using False by simp
  qed
qed simp

text \<open>
  A new id goes behind all ids that are nearer, so that the ids stay ordered; when it is in the list
  already, it is found at its position.
\<close>

lemma insert_position_eq:
  assumes "ids_ok n (map qp_id ps)" and "ahead n i \<le> MAX_BUFFER_PACKETS"
  shows "insert_position i ps = length (filter (\<lambda>p. ahead n (qp_id p) < ahead n i) ps)"
  unfolding insert_position_def word_le_max_packets
proof (rule takeWhile_rev_sorted)
  show "sorted_wrt (\<lambda>a b. ahead n (qp_id a) < ahead n (qp_id b)) ps"
    using assms(1) by (simp add: ids_ok_def sorted_wrt_map)
  fix p assume "p \<in> set ps"
  then have le: "ahead n (qp_id p) \<le> 50"
    using assms(1) by (auto simp: ids_ok_def MAX_BUFFER_PACKETS_def)
  show "unat (qp_id p - i) \<le> MAX_BUFFER_PACKETS \<longleftrightarrow> ahead n i \<le> ahead n (qp_id p)"
  proof (cases "ahead n i \<le> ahead n (qp_id p)")
    case True
    with ahead_diff [OF True] le show ?thesis
      by (simp add: MAX_BUFFER_PACKETS_def)
  next
    case False
    then have "unat (qp_id p - i) = 65536 + ahead n (qp_id p) - ahead n i"
      by (intro ahead_diff_less) simp
    with False assms(2) show ?thesis
      by (simp add: MAX_BUFFER_PACKETS_def)
  qed
qed

lemma sorted_filter_split:
  assumes "sorted_wrt (\<lambda>a b. f a < f b) xs"
  shows "take (length (filter (\<lambda>x. f x < c) xs)) xs = filter (\<lambda>x. f x < (c :: nat)) xs \<and>
    drop (length (filter (\<lambda>x. f x < c) xs)) xs = filter (\<lambda>x. c \<le> f x) xs"
  using assms
proof (induction xs)
  case (Cons x xs)
  show ?case
  proof (cases "f x < c")
    case True
    with Cons show ?thesis by simp
  next
    case False
    with Cons.prems have "\<not> f y < c" if "y \<in> set xs" for y
      using that by fastforce
    then have "filter (\<lambda>x. f x < c) xs = []" and "filter (\<lambda>x. c \<le> f x) xs = xs"
      by (auto simp: filter_empty_conv filter_id_conv not_less)
    with False show ?thesis by simp
  qed
qed simp_all

lemma new_samples_not_Panic: "new_samples env packet \<noteq> Panic"
  by (auto simp: new_samples_def packet_samples_def bind_out_eq_Panic_iff)

text \<open>What adding a packet does to the list, when it is accepted.\<close>

definition inserted :: "u16 \<Rightarrow> queue_packet \<Rightarrow> queue_packet list \<Rightarrow> queue_packet list" where
  "inserted n p ps =
     filter (\<lambda>x. ahead n (qp_id x) < ahead n (qp_id p)) ps @
     p # filter (\<lambda>x. ahead n (qp_id p) \<le> ahead n (qp_id x)) ps"

lemma mset_inserted: "mset (inserted n p ps) = add_mset p (mset ps)"
proof -
  have "filter (\<lambda>x. ahead n (qp_id p) \<le> ahead n (qp_id x)) ps =
      filter (\<lambda>x. \<not> ahead n (qp_id x) < ahead n (qp_id p)) ps"
    by (simp add: not_less)
  then show ?thesis
    by (simp add: inserted_def mset_filter flip: multiset_partition)
qed

lemma ids_ok_inserted:
  assumes "ids_ok n (map qp_id ps)" and "ahead n (qp_id p) \<le> MAX_BUFFER_PACKETS"
    and "qp_id p \<notin> qp_id ` set ps"
  shows "ids_ok n (map qp_id (inserted n p ps))"
proof -
  have far: "ahead n (qp_id p) < ahead n (qp_id x)"
    if "x \<in> set ps" "ahead n (qp_id p) \<le> ahead n (qp_id x)" for x
    using that assms(3) ahead_eq_iff [of n "qp_id p" "qp_id x"] by force
  have "sorted_wrt (\<lambda>a b. ahead n (qp_id a) < ahead n (qp_id b)) ps"
    using assms(1) by (simp add: ids_ok_def sorted_wrt_map)
  then show ?thesis
    using assms(1,2) far
    by (auto simp: ids_ok_def inserted_def sorted_wrt_map sorted_wrt_append intro: sorted_wrt_filter)
qed

lemma sum_samples_mset: "sum_list (map qp_samples ps) = sum_mset (image_mset qp_samples (mset ps))"
  by (simp add: sum_mset_sum_list flip: mset_map)

lemma found_at_position:
  assumes "ids_ok n (map qp_id ps)" and "ahead n i \<le> MAX_BUFFER_PACKETS"
  shows "insert_position i ps < length ps \<and> qp_id (ps ! insert_position i ps) = i \<longleftrightarrow> i \<in> qp_id ` set ps"
    and "insert_at (insert_position i ps) p ps =
      filter (\<lambda>x. ahead n (qp_id x) < ahead n i) ps @ p # filter (\<lambda>x. ahead n i \<le> ahead n (qp_id x)) ps"
proof -
  let ?lt = "filter (\<lambda>x. ahead n (qp_id x) < ahead n i) ps"
  let ?ge = "filter (\<lambda>x. ahead n i \<le> ahead n (qp_id x)) ps"
  have sorted: "sorted_wrt (\<lambda>a b. ahead n (qp_id a) < ahead n (qp_id b)) ps"
    using assms(1) by (simp add: ids_ok_def sorted_wrt_map)
  note pos = insert_position_eq [OF assms]
  note split = sorted_filter_split [OF sorted, of "ahead n i"]
  show "insert_at (insert_position i ps) p ps = ?lt @ p # ?ge"
    using split by (simp add: insert_at_def pos)
  have ps: "ps = ?lt @ ?ge"
    using split append_take_drop_id [of "length ?lt" ps] by simp
  show "insert_position i ps < length ps \<and> qp_id (ps ! insert_position i ps) = i \<longleftrightarrow> i \<in> qp_id ` set ps"
  proof
    assume "i \<in> qp_id ` set ps"
    then obtain x where x: "x \<in> set ps" "qp_id x = i" by blast
    then have "x \<in> set ?ge" by simp
    then obtain y ys where ge: "?ge = y # ys" by (cases ?ge) auto
    have "y = x"
    proof (rule ccontr)
      assume "y \<noteq> x"
      with \<open>x \<in> set ?ge\<close> ge have "x \<in> set ys" by simp
      moreover have "sorted_wrt (\<lambda>a b. ahead n (qp_id a) < ahead n (qp_id b)) (y # ys)"
        using sorted_wrt_filter [OF sorted] ge by metis
      ultimately have "ahead n (qp_id y) < ahead n i" using x by auto
      moreover have "y \<in> set ?ge" by (simp only: ge list.set_intros)
      ultimately show False by simp
    qed
    with ps ge x show "insert_position i ps < length ps \<and> qp_id (ps ! insert_position i ps) = i"
      by (metis pos length_append less_add_same_cancel1 list.size(3) nth_append_length zero_less_Suc
          list.size(4) add_gr_0 zero_less_one)
  qed (metis image_eqI nth_mem)
qed

text \<open>The packet is taken in this case.\<close>

definition acceptable :: "('d, 'f) audio_env \<Rightarrow> audio_data \<Rightarrow> ('d, 'f) audio_queue \<Rightarrow> bool" where
  "acceptable env packet q \<longleftrightarrow>
     length (aq_packets q) < MAX_BUFFER_PACKETS \<and> (\<exists>n. new_samples env packet = Ok n) \<and>
     ahead (aq_next_id q) (audio_id packet) \<le> MAX_BUFFER_PACKETS \<and>
     audio_id packet \<notin> qp_id ` set (aq_packets q)"

lemma add_packet_accepted:
  assumes "queue_ok q" and "acceptable env packet q"
  shows "\<exists>n. new_samples env packet = Ok n \<and> fst (add_packet env packet q) = Ok () \<and>
    aq_packets (snd (add_packet env packet q)) =
      inserted (aq_next_id q) \<lparr>qp_packet = packet, qp_samples = n, qp_id = audio_id packet\<rparr> (aq_packets q) \<and>
    aq_packets_samples (snd (add_packet env packet q)) = aq_packets_samples q + n \<and>
    aq_next_id (snd (add_packet env packet q)) = aq_next_id q \<and>
    aq_size_min (snd (add_packet env packet q)) = aq_size_min q \<and>
    aq_size_max (snd (add_packet env packet q)) = aq_size_max q"
proof -
  have ids: "ids_ok (aq_next_id q) (map qp_id (aq_packets q))"
    using assms(1) by (simp add: queue_ok_def packets_ok_def)
  obtain n where n: "new_samples env packet = Ok n" using assms(2) by (auto simp: acceptable_def)
  have near: "ahead (aq_next_id q) (audio_id packet) \<le> MAX_BUFFER_PACKETS"
    using assms(2) by (simp add: acceptable_def)
  note found = found_at_position [OF ids near]
  show ?thesis
    using assms(2) n near found
    by (intro exI [of _ n])
      (simp add: acceptable_def add_packet_def inserted_def ahead_def
        Let_def not_less not_le word_le_max_packets)
qed

lemma add_packet_rejected:
  assumes "queue_ok q" and "\<not> acceptable env packet q"
  shows "\<exists>e. add_packet env packet q = (Err e, q)"
proof -
  have ids: "ids_ok (aq_next_id q) (map qp_id (aq_packets q))"
    using assms(1) by (simp add: queue_ok_def packets_ok_def)
  note found = found_at_position [OF ids]
  show ?thesis
    using assms(2) found(1) [of "audio_id packet"] new_samples_not_Panic [of env packet]
    by (cases "new_samples env packet")
      (auto simp: acceptable_def add_packet_def ahead_def Let_def not_less word_le_max_packets)
qed

lemma add_packet_ok:
  assumes "queue_ok q"
  shows "queue_ok (snd (add_packet env packet q)) \<and> fst (add_packet env packet q) \<noteq> Panic"
proof (cases "acceptable env packet q")
  case False
  from add_packet_rejected [OF assms this] assms show ?thesis by auto
next
  case True
  let ?q = "snd (add_packet env packet q)"
  from add_packet_accepted [OF assms True] obtain n
    where n: "new_samples env packet = Ok n"
      and ok: "fst (add_packet env packet q) = Ok ()"
      and ps: "aq_packets ?q =
        inserted (aq_next_id q) \<lparr>qp_packet = packet, qp_samples = n, qp_id = audio_id packet\<rparr> (aq_packets q)"
      and samples: "aq_packets_samples ?q = aq_packets_samples q + n"
      and nxt: "aq_next_id ?q = aq_next_id q"
      and sizes: "aq_size_min ?q = aq_size_min q" "aq_size_max ?q = aq_size_max q"
    by blast
  have "mset (aq_packets ?q) = add_mset \<lparr>qp_packet = packet, qp_samples = n, qp_id = audio_id packet\<rparr> (mset (aq_packets q))"
    by (simp only: ps mset_inserted)
  then have "length (aq_packets ?q) = Suc (length (aq_packets q))"
    and "sum_list (map qp_samples (aq_packets ?q)) = n + sum_list (map qp_samples (aq_packets q))"
    by (simp_all add: sum_samples_mset flip: size_mset)
  moreover have "ids_ok (aq_next_id q) (map qp_id (aq_packets ?q))"
    unfolding ps using assms True
    by (intro ids_ok_inserted) (simp_all add: queue_ok_def packets_ok_def acceptable_def)
  moreover have "\<forall>p \<in> set (aq_packets ?q). end_ok p"
    using assms n unfolding ps
    by (auto simp: inserted_def queue_ok_def packets_ok_def end_ok_def new_samples_def)
  ultimately show ?thesis
    using assms True ok samples nxt sizes
    by (simp add: queue_ok_def packets_ok_def sizes_ok_def acceptable_def)
qed

section \<open>Decoding\<close>

lemma pushes_snoc: "pushes n (vs @ [v]) = sw_push v (pushes n vs)"
  by (simp add: pushes_def)

lemma sizes_ok_add_buffer_size: "sizes_ok q \<Longrightarrow> sizes_ok (add_buffer_size n q)"
  by (auto simp: sizes_ok_def add_buffer_size_def Let_def simp flip: pushes_snoc
      intro!: exI [of _ "_ @ [of_nat (n div USUAL_FRAME_SIZE)]"])

lemma add_buffer_size_fields [simp]:
  "aq_packets (add_buffer_size n q) = aq_packets q"
  "aq_packets_samples (add_buffer_size n q) = aq_packets_samples q"
  "aq_next_id (add_buffer_size n q) = aq_next_id q"
  "aq_decoded (add_buffer_size n q) = aq_decoded q"
  "aq_decoded_pos (add_buffer_size n q) = aq_decoded_pos q"
  "aq_last_samples (add_buffer_size n q) = aq_last_samples q"
  by (simp_all add: add_buffer_size_def Let_def)

text \<open>
  The window of the maxima holds the same values in the reversed order, so the deviation is never
  negative.
\<close>

lemma min_le_max:
  "min_of_last 0 n vs \<le> unreverse (min_of_last (Reverse 0) n (map Reverse vs))"
  for vs :: "u8 list"
proof (cases "last_values n vs = []")
  case False
  have map: "last_values n (map Reverse vs) = map Reverse (last_values n vs)"
    by (simp add: last_values_def drop_map)
  obtain v where v: "v \<in> set (last_values n vs)"
    using False by (cases "last_values n vs") auto
  then have "Min (set (last_values n vs)) \<le> v" by simp
  moreover have "Min (Reverse ` set (last_values n vs)) \<le> Reverse v" using v by simp
  then have "v \<le> unreverse (Min (Reverse ` set (last_values n vs)))"
    by (simp add: less_eq_rev_order_def)
  ultimately show ?thesis
    using False by (simp add: min_of_last_def map)
qed (simp add: min_of_last_def last_values_def)

lemma get_deviation_Ok:
  assumes "sizes_ok q" shows "\<exists>d. get_deviation q = Ok d"
proof -
  from assms obtain vs where vs: "aq_size_min q = pushes LAST_BUFFER_SIZE_COUNT vs"
    "aq_size_max q = pushes LAST_BUFFER_SIZE_COUNT (map Reverse vs)"
    by (auto simp: sizes_ok_def)
  show ?thesis
    using min_le_max [of "unat LAST_BUFFER_SIZE_COUNT" vs]
    by (simp add: get_deviation_def size_min_def vs sw_get_min_pushes)
qed

text \<open>
  Decoding keeps the packets; when it succeeds, it has appended a positive number of samples behind
  the position.
\<close>

definition decoded_ok :: "('d, 'f) audio_queue \<Rightarrow> ('d, 'f, unit) queue_result \<Rightarrow> bool" where
  "decoded_ok q res \<longleftrightarrow>
     (case res of (r, q') \<Rightarrow>
        r \<noteq> Panic \<and> aq_packets q' = aq_packets q \<and> aq_packets_samples q' = aq_packets_samples q \<and>
        aq_next_id q' = aq_next_id q \<and> sizes_ok q' \<and>
        (r = Ok () \<longrightarrow>
           0 < aq_last_samples q' \<and>
           aq_decoded_pos q' = aq_decoded_pos q + aq_last_samples q' * CHANNEL_NUM \<and>
           length (aq_decoded q') = aq_decoded_pos q'))"

lemma count_lost_Ok:
  assumes "ids_ok (aq_next_id q) (map qp_id (aq_packets q))"
  shows "\<exists>n. count_lost q = Ok n"
  using ids_ok_last [OF assms] by (auto simp: count_lost_def sub_checked_def last_map ahead_def)

lemma count_lost_decoded:
  assumes "ids_ok (aq_next_id q) (map qp_id (aq_packets q))"
    and "aq_packets q1 = aq_packets q" "aq_packets_samples q1 = aq_packets_samples q"
    and "aq_next_id q1 = aq_next_id q" and "sizes_ok q1" and "0 < aq_last_samples q1"
    and "aq_decoded_pos q1 = aq_decoded_pos q + aq_last_samples q1 * CHANNEL_NUM"
    and "length (aq_decoded q1) = aq_decoded_pos q1"
  shows "decoded_ok q (bind_aq (count_lost q1, q1) (\<lambda>lost q.
    (Ok (), add_buffer_size (aq_packets_samples q + lost * aq_last_samples q) q)))"
proof -
  obtain k where "count_lost q1 = Ok k"
    using count_lost_Ok [of q1] assms by auto
  then show ?thesis
    using assms by (simp add: decoded_ok_def sizes_ok_add_buffer_size)
qed

lemma decode_data_ok:
  assumes env: "decoder_ok env" and ids: "ids_ok (aq_next_id q) (map qp_id (aq_packets q))"
    and sizes: "sizes_ok q"
  shows "decoded_ok q (decode_data env packet data len fec q)"
proof (cases "ae_signals env (len * CHANNEL_NUM)")
  case False
  then show ?thesis
    using sizes by (simp add: decode_data_def Let_def decoded_ok_def sizes_ok_def)
next
  case True
  let ?buf = "resize (aq_decoded_pos q + len * CHANNEL_NUM) (ae_zero env) (aq_decoded q)"
  obtain d ys res where dec:
    "ae_decode env (aq_decoder q) data fec (drop (aq_decoded_pos q) ?buf) = (d, ys, res)"
    by (metis prod_cases3)
  note len = decoder_okD [OF env dec]
  show ?thesis
  proof (cases res)
    case None
    then show ?thesis
      using True dec sizes by (simp add: decode_data_def Let_def decoded_ok_def sizes_ok_def)
  next
    case (Some n)
    then show ?thesis
      using True dec len sizes
      by (auto simp: decode_data_def Let_def CHANNEL_NUM_def sizes_ok_def
          intro!: count_lost_decoded [OF ids])
  qed
qed

lemma decode_packet_ok:
  assumes "decoder_ok env" and "ids_ok (aq_next_id q) (map qp_id (aq_packets q))" and "sizes_ok q"
  shows "decoded_ok q (decode_packet env packet fec q)"
proof (cases packet)
  case None
  then show ?thesis
    using decode_data_ok [OF assms] by (simp add: decode_packet_def)
next
  case (Some p)
  let ?q = "q\<lparr>aq_whispering := is_s2c_whisper (qp_packet p)\<rparr>"
  have "decoded_ok ?q (decode_data env packet (Some (audio_payload (qp_packet p))) (qp_samples p) fec ?q)"
    using assms by (intro decode_data_ok) (simp_all add: sizes_ok_def)
  then show ?thesis
    using Some assms by (simp add: decode_packet_def Let_def decoded_ok_def)
qed

section \<open>Rounds\<close>

lemma take_packet_ok:
  assumes env: "decoder_ok env" and ids: "ids_ok (aq_next_id q) (qp_id p # map qp_id (aq_packets q))"
    and samples: "aq_packets_samples q = qp_samples p + sum_list (map qp_samples (aq_packets q))"
    and ends: "end_ok p" "\<forall>p \<in> set (aq_packets q). end_ok p" and sizes: "sizes_ok q"
  shows "\<exists>r q'. take_packet env p q = (r, q') \<and> r \<noteq> Panic \<and> packets_ok q' \<and> sizes_ok q' \<and>
    length (aq_packets q') \<le> Suc (length (aq_packets q)) \<and>
    (r = Ok () \<longrightarrow> 0 < aq_last_samples q' \<and>
       aq_decoded_pos q' = aq_decoded_pos q + aq_last_samples q' * CHANNEL_NUM \<and>
       length (aq_decoded q') = aq_decoded_pos q')"
proof -
  let ?q = "q\<lparr>aq_packets_samples := sum_list (map qp_samples (aq_packets q)), aq_next_id := aq_next_id q + 1\<rparr>"
  have sub: "sub_checked (aq_packets_samples q) (qp_samples p) =
      (Ok (sum_list (map qp_samples (aq_packets q))) :: (audio_error, nat) outcome)"
    using samples by (simp add: sub_checked_def)
  have rest: "ids_ok (aq_next_id q + 1) (map qp_id (aq_packets q))"
    using ids_ok_next_in [OF ids] ids_ok_tl [OF ids] by (intro ids_ok_Suc)
  have dec: "decoded_ok ?q (decode_packet env pk fec ?q)" for pk fec
    using env rest sizes by (intro decode_packet_ok) (simp_all add: sizes_ok_def)
  show ?thesis
  proof (cases "qp_id p = aq_next_id q")
    case True
    obtain r q' where "decode_packet env (Some p) False ?q = (r, q')" by fastforce
    with True sub dec [of "Some p" False] rest ends show ?thesis
      by (simp add: take_packet_def Let_def decoded_ok_def packets_ok_def)
  next
    case False
    have front: "ids_ok (aq_next_id q + 1) (qp_id p # map qp_id (aq_packets q))"
      using ids_ok_next_in [OF ids] ids False by (intro ids_ok_Suc) auto
    define pk where "pk = (if qp_id p = aq_next_id q + 1 then Some p else None)"
    define fec where "fec = (qp_id p = aq_next_id q + 1)"
    obtain r q' where res: "decode_packet env pk fec ?q = (r, q')" by fastforce
    then have "take_packet env p q = bind_aq (r, q') (\<lambda>_ q.
        (Ok (), q\<lparr>aq_packets_samples := aq_packets_samples q + qp_samples p,
                 aq_packets := p # aq_packets q\<rparr>))"
      using False sub by (auto simp: take_packet_def Let_def pk_def fec_def split: if_splits)
    with res dec [of pk fec] rest front ends show ?thesis
      by (cases r) (simp_all add: decoded_ok_def packets_ok_def sizes_ok_def)
  qed
qed

lemma drop_samples_Ok:
  assumes "start + i * 198 + n * 200 \<le> length xs"
  shows "\<exists>ys. drop_samples start i n xs = Ok ys \<and> length ys = length xs - 2 * n"
  using assms
proof (induction n arbitrary: i xs)
  case (Suc n)
  let ?j = "start + i * 198"
  have "drain_range ?j (?j + 2) xs = Ok (take ?j xs @ drop (?j + 2) xs)"
    using Suc.prems by (simp add: drain_range_def)
  moreover have "start + (i + 1) * 198 + n * 200 \<le> length (take ?j xs @ drop (?j + 2) xs)"
    using Suc.prems by simp
  then obtain ys where "drop_samples start (i + 1) n (take ?j xs @ drop (?j + 2) xs) = Ok ys"
    and "length ys = length (take ?j xs @ drop (?j + 2) xs) - 2 * n"
    using Suc.IH by blast
  ultimately show ?case
    using Suc.prems by (simp add: audio_constants mult.assoc)
qed simp

lemma speed_up_ok:
  assumes "length (aq_decoded q) = aq_decoded_pos q"
    and "aq_last_samples q * CHANNEL_NUM \<le> aq_decoded_pos q"
  shows "\<exists>xs. speed_up q = (Ok (), q\<lparr>aq_decoded := xs\<rparr>) \<and>
    length xs = aq_decoded_pos q - 2 * (aq_last_samples q div SPEED_CHANGE_STEPS)"
proof -
  let ?start = "aq_decoded_pos q - aq_last_samples q * CHANNEL_NUM"
  have "?start + 0 * 198 + aq_last_samples q div 100 * 200 \<le> length (aq_decoded q)"
    using assms by (simp add: CHANNEL_NUM_def)
  from drop_samples_Ok [OF this] show ?thesis
    using assms by (auto simp: speed_up_def sub_checked_def SPEED_CHANGE_STEPS_def)
qed

lemma truncate_packets_ok:
  assumes "packets_ok q"
  shows "packets_ok (truncate_packets lo q)"
    and "length (aq_packets (truncate_packets lo q)) \<le> length (aq_packets q)"
proof -
  define k where "k = length (aq_packets q) -
    keep_count (unat lo + USUAL_FRAME_SIZE) 0 (rev (aq_packets q))"
  have ids: "ids_ok (aq_next_id q) (map qp_id (drop k (aq_packets q)))"
    using assms ids_ok_drop [of "aq_next_id q" "map qp_id (aq_packets q)" k]
    by (simp add: packets_ok_def drop_map)
  have t: "truncate_packets lo q =
      (let ps = drop k (aq_packets q) in
       q\<lparr>aq_packets := ps, aq_packets_samples := sum_list (map qp_samples ps),
         aq_next_id := (case ps of [] \<Rightarrow> aq_next_id q | p # _ \<Rightarrow> qp_id p)\<rparr>)"
    by (simp add: truncate_packets_def k_def Let_def)
  have ends: "\<forall>p \<in> set (drop k (aq_packets q)). end_ok p"
    using assms by (auto simp: packets_ok_def dest: in_set_dropD)
  show "packets_ok (truncate_packets lo q)"
  proof (cases "drop k (aq_packets q)")
    case (Cons p ps)
    with ids_ok_from_head [of "aq_next_id q" "qp_id p" "map qp_id ps"] ids ends t show ?thesis
      by (simp add: packets_ok_def)
  qed (simp add: t packets_ok_def ids_ok_def)
  show "length (aq_packets (truncate_packets lo q)) \<le> length (aq_packets q)"
    by (simp add: t Let_def)
qed

lemma adjust_speed_ok:
  assumes "packets_ok q" "sizes_ok q" "0 < aq_last_samples q"
    and "length (aq_decoded q) = aq_decoded_pos q"
    and "aq_last_samples q * CHANNEL_NUM \<le> aq_decoded_pos q"
  shows "\<exists>q'. adjust_speed q = (Ok Again, q') \<and> packets_ok q' \<and> sizes_ok q' \<and>
    length (aq_packets q') \<le> length (aq_packets q) \<and> aq_decoded_pos q' = aq_decoded_pos q \<and>
    aq_decoded_pos q \<le> length (aq_decoded q') + 2 * (aq_last_samples q div SPEED_CHANGE_STEPS)"
proof -
  obtain dev where dev: "get_deviation q = Ok dev"
    using get_deviation_Ok [OF assms(2)] by blast
  obtain xs where speed: "speed_up q = (Ok (), q\<lparr>aq_decoded := xs\<rparr>)"
    and len: "length xs = aq_decoded_pos q - 2 * (aq_last_samples q div SPEED_CHANGE_STEPS)"
    using speed_up_ok [OF assms(4,5)] by blast
  have "sizes_ok (truncate_packets lo q)" "aq_decoded_pos (truncate_packets lo q) = aq_decoded_pos q"
    "aq_decoded (truncate_packets lo q) = aq_decoded q" for lo
    using assms(2) by (simp_all add: truncate_packets_def Let_def sizes_ok_def)
  then show ?thesis
    using assms dev speed len truncate_packets_ok [OF assms(1)]
    by (auto simp: adjust_speed_def Let_def packets_ok_def sizes_ok_def)
qed

text \<open>A round keeps the invariant; when the loop goes on, samples have been appended.\<close>

lemma decode_round_ok:
  assumes env: "decoder_ok env" and ok: "queue_ok q"
  shows "\<exists>r q'. decode_round env q = (r, q') \<and> queue_ok q' \<and> r \<noteq> Panic \<and> r \<noteq> Ok Leave \<and>
    (r = Ok Again \<longrightarrow> aq_decoded_pos q < aq_decoded_pos q' \<and> aq_decoded_pos q < length (aq_decoded q')) \<and>
    (\<forall>xs e. r = Ok (Finish xs e) \<longrightarrow> e \<and> xs = aq_decoded q)"
proof -
  have adjust: "\<exists>q2. adjust_speed q1 = (Ok Again, q2) \<and> queue_ok q2 \<and>
      aq_decoded_pos q < aq_decoded_pos q2 \<and> aq_decoded_pos q < length (aq_decoded q2)"
    if pk: "packets_ok q1" "sizes_ok q1" "length (aq_packets q1) \<le> MAX_BUFFER_PACKETS"
      "0 < aq_last_samples q1"
      "aq_decoded_pos q1 = aq_decoded_pos q + aq_last_samples q1 * CHANNEL_NUM"
      "length (aq_decoded q1) = aq_decoded_pos q1" for q1
  proof -
    have le: "aq_last_samples q1 * CHANNEL_NUM \<le> aq_decoded_pos q1"
      unfolding pk(5) by simp
    obtain q2 where q2: "adjust_speed q1 = (Ok Again, q2)" "packets_ok q2" "sizes_ok q2"
      "length (aq_packets q2) \<le> length (aq_packets q1)" "aq_decoded_pos q2 = aq_decoded_pos q1"
      "aq_decoded_pos q1 \<le> length (aq_decoded q2) + 2 * (aq_last_samples q1 div SPEED_CHANGE_STEPS)"
      using adjust_speed_ok [OF pk(1,2,4,6) le] by blast
    moreover have "aq_last_samples q1 div 100 < aq_last_samples q1"
      using pk(4) by simp
    ultimately show ?thesis
      using pk by (auto simp: queue_ok_def audio_constants)
  qed
  show ?thesis
  proof (cases "aq_packets q")
    case Nil
    obtain r q1 where res: "decode_packet env None False q = (r, q1)" by fastforce
    have d: "decoded_ok q (r, q1)"
      using decode_packet_ok [of env q None False] env ok res
      by (simp add: queue_ok_def packets_ok_def)
    show ?thesis
    proof (cases r)
      case (Ok u)
      with d Nil ok have "\<exists>q2. adjust_speed q1 = (Ok Again, q2) \<and> queue_ok q2 \<and>
          aq_decoded_pos q < aq_decoded_pos q2 \<and> aq_decoded_pos q < length (aq_decoded q2)"
        by (intro adjust) (simp_all add: decoded_ok_def packets_ok_def queue_ok_def)
      with res Nil Ok show ?thesis by (auto simp: decode_round_def)
    qed (use d res Nil ok in \<open>auto simp: decode_round_def decoded_ok_def queue_ok_def packets_ok_def\<close>)
  next
    case (Cons p ps)
    let ?q = "q\<lparr>aq_packets := ps\<rparr>"
    have ids: "ids_ok (aq_next_id q) (qp_id p # map qp_id ps)"
      and samples: "aq_packets_samples q = qp_samples p + sum_list (map qp_samples ps)"
      and ends: "end_ok p" "\<forall>p \<in> set ps. end_ok p"
      and few: "Suc (length ps) \<le> MAX_BUFFER_PACKETS" and sizes: "sizes_ok ?q"
      using ok Cons by (simp_all add: queue_ok_def packets_ok_def sizes_ok_def)
    show ?thesis
    proof (cases "length (audio_payload (qp_packet p)) \<le> 1")
      case True
      with ids_ok_tl [OF ids] samples ends few sizes have "queue_ok ?q"
        by (simp add: queue_ok_def packets_ok_def end_ok_def)
      with True Cons show ?thesis by (simp add: decode_round_def Let_def)
    next
      case False
      obtain r q1 where res: "take_packet env p ?q = (r, q1)" and "r \<noteq> Panic" "packets_ok q1"
        "sizes_ok q1" "length (aq_packets q1) \<le> Suc (length ps)"
        and go: "r = Ok () \<longrightarrow> 0 < aq_last_samples q1 \<and>
          aq_decoded_pos q1 = aq_decoded_pos q + aq_last_samples q1 * CHANNEL_NUM \<and>
          length (aq_decoded q1) = aq_decoded_pos q1"
        using take_packet_ok [of env ?q p] env ids samples ends sizes by auto
      note q1 = this
      have round: "decode_round env q = bind_aq (r, q1) (\<lambda>_. adjust_speed)"
        using Cons False res by (simp add: decode_round_def Let_def)
      show ?thesis
      proof (cases r)
        case (Ok u)
        with q1 few have "\<exists>q2. adjust_speed q1 = (Ok Again, q2) \<and> queue_ok q2 \<and>
            aq_decoded_pos q < aq_decoded_pos q2 \<and> aq_decoded_pos q < length (aq_decoded q2)"
          by (intro adjust) simp_all
        with round Ok show ?thesis by auto
      qed (use round q1 few in \<open>simp_all add: queue_ok_def\<close>)
    qed
  qed
qed

section \<open>The loop\<close>

lemma decode_loop_ok:
  assumes env: "decoder_ok env" and "queue_ok q"
  shows "\<exists>r q'. decode_loop env len q = Some (r, q') \<and> queue_ok q' \<and> r \<noteq> Panic \<and>
    (\<forall>xs. r = Ok (xs, False) \<longrightarrow> length xs = len) \<and> (\<forall>xs. r = Ok (xs, True) \<longrightarrow> length xs < len)"
  using assms(2)
proof (induction "len - aq_decoded_pos q" arbitrary: q rule: less_induct)
  case less
  show ?case
  proof (cases "length (aq_decoded q) < len")
    case False
    have "queue_ok (q\<lparr>aq_decoded_pos := len\<rparr>)"
      using less.prems by (simp add: queue_ok_def packets_ok_def sizes_ok_def)
    with False show ?thesis
      by (subst decode_loop.simps) (simp add: finish_data_def slice_def)
  next
    case True
    obtain r q' where round: "decode_round env q = (r, q')" "queue_ok q'" "r \<noteq> Panic" "r \<noteq> Ok Leave"
      and again: "r = Ok Again \<Longrightarrow>
        aq_decoded_pos q < aq_decoded_pos q' \<and> aq_decoded_pos q < length (aq_decoded q')"
      and finish: "\<And>xs e. r = Ok (Finish xs e) \<Longrightarrow> e \<and> xs = aq_decoded q"
      using decode_round_ok [OF env less.prems] by blast
    consider "r = Ok Again" | xs e where "r = Ok (Finish xs e)" | e where "r = Err e"
      using round(3,4) by (metis outcome.exhaust round.exhaust)
    then show ?thesis
    proof cases
      case 1
      have loop: "decode_loop env len q = decode_loop env len q'"
        using True round(1) 1 by (subst decode_loop.simps) simp
      show ?thesis
      proof (cases "length (aq_decoded q') < len")
        case True
        with again [OF 1] have "len - aq_decoded_pos q' < len - aq_decoded_pos q" by linarith
        with less.hyps [of q'] round(2) loop show ?thesis by simp
      next
        case False
        have "queue_ok (q'\<lparr>aq_decoded_pos := len\<rparr>)"
          using round(2) by (simp add: queue_ok_def packets_ok_def sizes_ok_def)
        with False loop show ?thesis
          by (subst (asm) (2) decode_loop.simps) (simp add: finish_data_def slice_def)
      qed
    next
      case 2
      with finish have "e \<and> xs = aq_decoded q" by blast
      with 2 True round show ?thesis
        by (subst decode_loop.simps) simp
    next
      case 3
      with True round show ?thesis
        by (subst decode_loop.simps) simp
    qed
  qed
qed

lemma get_next_data_ok:
  assumes "decoder_ok env" and "queue_ok q"
  shows "\<exists>r q'. get_next_data env len q = Some (r, q') \<and> queue_ok q' \<and> r \<noteq> Panic \<and>
    (\<forall>xs. r = Ok (xs, False) \<longrightarrow> xs = [] \<or> length xs = len) \<and>
    (\<forall>xs. r = Ok (xs, True) \<longrightarrow> length xs < len)"
proof (cases "0 < aq_buffering q \<and> aq_buffered_for q < MAX_BUFFER_TIME")
  case True
  with assms(2) show ?thesis
    by (simp add: get_next_data_def queue_ok_def packets_ok_def sizes_ok_def)
next
  case False
  let ?q = "rewind (if 0 < aq_buffering q then q\<lparr>aq_buffering := 0, aq_buffered_for := 0\<rparr> else q)"
  have "queue_ok ?q"
    using assms(2) by (simp add: rewind_def queue_ok_def packets_ok_def sizes_ok_def)
  from decode_loop_ok [OF assms(1) this, of len] False show ?thesis
    by (auto simp: get_next_data_def)
qed

section \<open>The handler\<close>

definition queues_ok :: "('i \<times> ('d, 'f) audio_queue) list \<Rightarrow> bool" where
  "queues_ok qs \<longleftrightarrow> distinct (map fst qs) \<and> (\<forall>(i, q) \<in> set qs. queue_ok q)"

definition handler_ok :: "('i, 'd, 'f) audio_handler \<Rightarrow> bool" where
  "handler_ok h \<longleftrightarrow> queues_ok (ah_queues h)"

lemma queues_ok_update:
  assumes "queues_ok qs" and "queue_ok q"
  shows "queues_ok (AList.update i q qs)"
proof -
  have "(\<forall>(i, q) \<in> set qs. queue_ok q) \<Longrightarrow> (\<forall>(i, q) \<in> set (AList.update i q qs). queue_ok q)"
    using assms(2) by (induction qs) auto
  with assms show ?thesis
    by (simp add: queues_ok_def distinct_update)
qed

lemma packet_samples_not_Panic: "packet_samples env data \<noteq> Panic"
  by (auto simp: packet_samples_def bind_out_eq_Panic_iff)

lemma audio_queue_new_ok:
  "audio_queue_new env packet \<noteq> Panic \<and> (\<forall>q. audio_queue_new env packet = Ok q \<longrightarrow> queue_ok q)"
proof (cases "packet_samples env (audio_payload packet)")
  case (Ok n)
  show ?thesis
  proof (cases "ae_new env")
    case (Some d)
    let ?q = "\<lparr>aq_decoder = d, aq_volume = ae_one env, aq_next_id = audio_id packet,
        aq_whispering = is_s2c_whisper packet, aq_packets = [], aq_packets_samples = 0,
        aq_decoded = [], aq_decoded_pos = 0, aq_last_samples = n * CHANNEL_NUM,
        aq_loss_num = 0, aq_buffering = 0, aq_size_min = sw_new LAST_BUFFER_SIZE_COUNT,
        aq_size_max = sw_new LAST_BUFFER_SIZE_COUNT, aq_buffered_for = 0\<rparr>"
    have "sizes_ok ?q"
      by (auto simp: sizes_ok_def pushes_def intro: exI [of _ "[]"])
    then have "queue_ok (add_buffer_size 0 ?q)"
      using sizes_ok_add_buffer_size [of ?q 0] by (simp add: queue_ok_def packets_ok_def ids_ok_def)
    from add_packet_ok [OF this, of env packet] show ?thesis
      using Ok Some
      by (cases "add_packet env packet (add_buffer_size 0 ?q)")
        (auto simp: audio_queue_new_def Let_def split: outcome.splits)
  qed (simp add: audio_queue_new_def Ok)
qed (simp_all add: audio_queue_new_def packet_samples_not_Panic)

lemma handle_packet_ok:
  assumes "handler_ok h"
  shows "fst (handle_packet env i packet h) \<noteq> Panic \<and> handler_ok (snd (handle_packet env i packet h))"
proof (cases "audio_codec packet \<noteq> OpusMusic \<and> audio_codec packet \<noteq> OpusVoice")
  case True
  with assms show ?thesis by (simp add: handle_packet_def)
next
  case codec: False
  show ?thesis
  proof (cases "map_of (ah_queues h) i")
    case (Some q)
    then have mem: "(i, q) \<in> set (ah_queues h)" by (rule map_of_SomeD)
    then have "queue_ok q" using assms by (auto simp: handler_ok_def queues_ok_def)
    from add_packet_ok [OF this, of env packet]
    obtain r q' where res: "add_packet env packet q = (r, q')" "r \<noteq> Panic" "queue_ok q'"
      by (cases "add_packet env packet q") auto
    have "queues_ok (AList.update i q' (ah_queues h))"
      using assms res(3) by (simp add: handler_ok_def queues_ok_update)
    with res codec Some show ?thesis
      by (auto simp: handle_packet_def handler_ok_def bind_out_eq_Panic_iff)
  next
    case None
    then have "i \<notin> fst ` set (ah_queues h)" by (simp add: map_of_eq_None_iff)
    with None codec assms audio_queue_new_ok [of env packet] show ?thesis
      by (cases "audio_queue_new env packet")
        (auto simp: handle_packet_def Let_def handler_ok_def queues_ok_def queue_ok_def packets_ok_def
          sizes_ok_def)
  qed
qed

lemma mix_Ok:
  assumes "length r \<le> length buf"
  shows "\<exists>buf'. mix env vol r buf = Ok buf' \<and> length buf' = length buf"
  using assms by (simp add: mix_def)

lemma fill_queues_ok:
  assumes "decoder_ok env" and "\<forall>(i, q) \<in> set qs. queue_ok q"
  shows "\<exists>buf' qs' rem calls. fill_queues env qs buf = Some (Ok (buf', qs', rem, calls)) \<and>
    length buf' = length buf \<and> map fst qs' = map fst qs \<and> (\<forall>(i, q) \<in> set qs'. queue_ok q)"
  using assms(2)
proof (induction qs arbitrary: buf)
  case (Cons iq qs)
  obtain i q where iq: "iq = (i, q)" by fastforce
  have rest: "\<exists>buf' qs' rem calls. fill_queues env qs b = Some (Ok (buf', qs', rem, calls)) \<and>
      length buf' = length b \<and> map fst qs' = map fst qs \<and> (\<forall>(i, q) \<in> set qs'. queue_ok q)" for b
    using Cons by simp
  have q: "queue_ok q" using Cons.prems iq by simp
  show ?case
  proof (cases "MAX_PACKET_LOSSES \<le> aq_loss_num q")
    case True
    with rest [of buf] q show ?thesis by (auto simp: iq)
  next
    case False
    obtain r q' where res: "get_next_data env (length buf) q = Some (r, q')" "queue_ok q'" "r \<noteq> Panic"
      "\<And>xs. r = Ok (xs, False) \<Longrightarrow> xs = [] \<or> length xs = length buf"
      "\<And>xs. r = Ok (xs, True) \<Longrightarrow> length xs < length buf"
      using get_next_data_ok [OF assms(1) q, of "length buf"] by blast
    show ?thesis
    proof (cases r)
      case (Ok x)
      obtain xs e where x: "x = (xs, e)" by fastforce
      have "length xs \<le> length buf"
        using res(4,5) [of xs] Ok x by (cases e) auto
      then obtain buf' where "mix env (aq_volume q) xs buf = Ok buf'" "length buf' = length buf"
        using mix_Ok [of xs buf env "aq_volume q"] by auto
      note mixed = this
      obtain b2 qs2 rem calls where rec: "fill_queues env qs buf' = Some (Ok (b2, qs2, rem, calls))"
        "length b2 = length buf'" "map fst qs2 = map fst qs" "\<forall>(i, q) \<in> set qs2. queue_ok q"
        using rest [of buf'] by blast
      have "fill_queues env (iq # qs) buf =
          Some (Ok (b2, (i, q') # qs2, if e then i # rem else rem, (i, xs) # calls))"
        using False res(1) Ok x mixed(1) rec(1) by (simp add: iq)
      then show ?thesis
        using mixed(2) rec(2-4) res(2) iq by force
    next
      case (Err e)
      obtain b2 qs2 rem calls where "fill_queues env qs buf = Some (Ok (b2, qs2, rem, calls))"
        "length b2 = length buf" "map fst qs2 = map fst qs" "\<forall>(i, q) \<in> set qs2. queue_ok q"
        using rest [of buf] by blast
      with Err False res(1,2) show ?thesis by (simp add: iq)
    qed (use res in simp)
  qed
qed simp

lemma fill_buffer_ok:
  assumes "decoder_ok env" and "handler_ok h"
  shows "\<exists>buf' rem h'. fill_buffer env buf h = Some (Ok (buf', rem, h')) \<and> length buf' = length buf \<and>
    handler_ok h' \<and> (\<forall>i \<in> set rem. i \<notin> fst ` set (ah_queues h'))"
proof -
  obtain buf' qs' rem calls where loop: "fill_queues env (ah_queues h) buf = Some (Ok (buf', qs', rem, calls))"
    "length buf' = length buf" "map fst qs' = map fst (ah_queues h)" "\<forall>(i, q) \<in> set qs'. queue_ok q"
    using fill_queues_ok [OF assms(1), of "ah_queues h" buf] assms(2)
    by (auto simp: handler_ok_def queues_ok_def)
  have "distinct (map fst qs')" using loop(3) assms(2) by (simp add: handler_ok_def queues_ok_def)
  then have "queues_ok (filter (\<lambda>(i, _). i \<notin> set rem) qs')"
    using loop(4) by (auto simp: queues_ok_def distinct_map_filter)
  with loop(1,2) show ?thesis
    by (auto simp: fill_buffer_def fill_buffer_with_proc_def handler_ok_def)
qed

section \<open>Runs of the handler\<close>

text \<open>
  What can happen to a handler: a packet of a client, or a request for samples. A panic or a loop that
  does not end has no result; an error value leaves a handler.
\<close>

datatype ('i, 'f) audio_event = Receive 'i audio_data | Fetch "'f list"

fun audio_step ::
  "('d, 'f) audio_env \<Rightarrow> ('i, 'f) audio_event \<Rightarrow> ('i, 'd, 'f) audio_handler \<Rightarrow> ('i, 'd, 'f) audio_handler option"
where
  "audio_step env (Receive i packet) h =
     (case handle_packet env i packet h of (Panic, _) \<Rightarrow> None | (_, h') \<Rightarrow> Some h')"
| "audio_step env (Fetch buf) h =
     (case fill_buffer env buf h of
        Some (Ok (buf', rem, h')) \<Rightarrow> if length buf' = length buf then Some h' else None
      | _ \<Rightarrow> None)"

fun audio_run ::
  "('d, 'f) audio_env \<Rightarrow> ('i, 'f) audio_event list \<Rightarrow> ('i, 'd, 'f) audio_handler \<Rightarrow> ('i, 'd, 'f) audio_handler option"
where
  "audio_run env [] h = Some h"
| "audio_run env (e # es) h = (case audio_step env e h of Some h' \<Rightarrow> audio_run env es h' | None \<Rightarrow> None)"

lemma audio_step_ok:
  assumes "decoder_ok env" and "handler_ok h"
  shows "\<exists>h'. audio_step env e h = Some h' \<and> handler_ok h'"
proof (cases e)
  case (Receive i packet)
  with handle_packet_ok [OF assms(2), of env i packet] show ?thesis
    by (cases "handle_packet env i packet h"; cases "fst (handle_packet env i packet h)") auto
next
  case (Fetch buf)
  with fill_buffer_ok [OF assms, of buf] show ?thesis by auto
qed


text \<open>C26: a packet is added exactly when there is room, its samples are known and not too many, its id
  is at most fifty ahead of the next one and not in the queue yet; it is then put behind the packets
  with nearer ids and before the others, and otherwise the queue does not change.\<close>

theorem add_packet_in_order:
  assumes "queue_ok q"
  shows "(fst (add_packet env packet q) = Ok () \<longleftrightarrow> acceptable env packet q) \<and>
    (if acceptable env packet q
     then \<exists>n. new_samples env packet = Ok n \<and>
       map qp_id (aq_packets (snd (add_packet env packet q))) =
         filter (\<lambda>i. ahead (aq_next_id q) i < ahead (aq_next_id q) (audio_id packet)) (map qp_id (aq_packets q)) @
         audio_id packet #
         filter (\<lambda>i. ahead (aq_next_id q) (audio_id packet) < ahead (aq_next_id q) i) (map qp_id (aq_packets q))
     else snd (add_packet env packet q) = q)"
proof (cases "acceptable env packet q")
  case True
  have "filter (\<lambda>x. ahead (aq_next_id q) (audio_id packet) \<le> ahead (aq_next_id q) (qp_id x)) (aq_packets q) =
      filter (\<lambda>x. ahead (aq_next_id q) (audio_id packet) < ahead (aq_next_id q) (qp_id x)) (aq_packets q)"
    using True by (intro filter_cong) (auto simp: acceptable_def less_le ahead_eq_iff)
  with add_packet_accepted [OF assms True] True show ?thesis
    by (auto simp: inserted_def filter_map o_def)
next
  case False
  with add_packet_rejected [OF assms False] show ?thesis by auto
qed

section \<open>Samples that are lost\<close>

text \<open>
  A decoder whose packets have four samples per channel, all equal to the first byte of the packet,
  and which repeats a number for a lost packet.
\<close>

definition toy_decoder :: "(nat, nat) audio_env" where
  "toy_decoder =
     \<lparr>ae_new = Some 0, ae_packet = (\<lambda>_. True), ae_samples = (\<lambda>_. Some 4), ae_signals = (\<lambda>_. True),
      ae_decode = (\<lambda>d data fec xs.
        (d, map (\<lambda>_. case data of Some (b # _) \<Rightarrow> unat b | _ \<Rightarrow> 7) xs,
         if length xs < 2 then None else Some (length xs div 2))),
      ae_zero = 0, ae_one = 1, ae_add = (+), ae_mul = (*)\<rparr>"

lemma toy_decoder_ok: "decoder_ok toy_decoder"
  by (auto simp: decoder_ok_def toy_decoder_def CHANNEL_NUM_def)


definition sample_audio_queue :: "(nat, nat) audio_queue" where
  "sample_audio_queue =
     (case audio_queue_new toy_decoder (AudioS2C 65535 1 OpusMusic [1, 1]) of
        Ok q \<Rightarrow> snd (add_packet toy_decoder (AudioS2C 1 1 OpusMusic [3, 3]) q))"

lemma sample_audio_queue_ok: "queue_ok sample_audio_queue"
proof -
  have "\<exists>q. audio_queue_new toy_decoder (AudioS2C 65535 1 OpusMusic [1, 1]) = Ok q"
    by (simp add: audio_queue_new_def toy_decoder_def packet_samples_def Let_def add_packet_def
        new_samples_def insert_position_def audio_constants add_buffer_size_def)
  then obtain q where q: "audio_queue_new toy_decoder (AudioS2C 65535 1 OpusMusic [1, 1]) = Ok q"
    by blast
  with audio_queue_new_ok have "queue_ok q" by blast
  from add_packet_ok [OF this] q show ?thesis
    by (simp add: sample_audio_queue_def)
qed

lemma add_packet_in_order_witness:
  "map qp_id (aq_packets (snd (add_packet toy_decoder (AudioS2C 0 1 OpusMusic [2, 2]) sample_audio_queue))) =
   [65535, 0, 1]"
proof -
  let ?p = "AudioS2C 0 1 OpusMusic [2, 2]"
  have "fst (add_packet toy_decoder ?p sample_audio_queue) = Ok ()"
    and ids: "map qp_id (aq_packets sample_audio_queue) = [65535, 1]"
    and nxt: "aq_next_id sample_audio_queue = 65535"
    by (simp_all add: sample_audio_queue_def audio_queue_new_def toy_decoder_def packet_samples_def
        Let_def add_packet_def new_samples_def insert_position_def insert_at_def audio_constants
        add_buffer_size_def)
  with add_packet_in_order [OF sample_audio_queue_ok, of toy_decoder ?p] show ?thesis
    by (auto simp: ids nxt ahead_def)
qed

text \<open>The buffers that a run of requests fills.\<close>

fun fetches :: "nat \<Rightarrow> nat \<Rightarrow> (nat, nat, nat) audio_handler \<Rightarrow> nat list list option" where
  "fetches 0 n h = Some []"
| "fetches (Suc k) n h =
     (case fill_buffer toy_decoder (replicate n 0) h of
        Some (Ok (buf, _, h)) \<Rightarrow> map_option ((#) buf) (fetches k n h)
      | _ \<Rightarrow> None)"

text \<open>When a request leaves some decoded samples over and the next request needs more than these,
  the next packet is decoded over them: with packets of eight samples, requests for eight give both
  packets, but requests for six give six samples of either, and two samples of the first are lost.\<close>

theorem leftover_samples_overwritten:
  "(case audio_run toy_decoder [Receive 1 (AudioS2C 10 1 OpusMusic [1, 1]),
                                Receive 1 (AudioS2C 11 1 OpusMusic [2, 2])] audio_handler_new of
      Some h \<Rightarrow> (fetches 2 8 h, fetches 2 6 h)
    | None \<Rightarrow> (None, None)) =
   (Some [[1, 1, 1, 1, 1, 1, 1, 1], [2, 2, 2, 2, 2, 2, 2, 2]],
    Some [[1, 1, 1, 1, 1, 1], [2, 2, 2, 2, 2, 2]])"
  by code_simp

end
