(* ===== verification/Book.thy ===== *)
theory Book
  imports Prelude "HOL-Library.AList"
begin

text \<open>
  The book that the client keeps of its server (\<open>ts-bookkeeping/src/data.rs\<close>): the hand-written
  functions that the rules of \<open>MessagesToBook.toml\<close> name, and the handlers that the template
  \<open>MessagesToBook.tt\<close> makes of those rules for channels and clients. Channels and clients have the
  fields of \<open>Book.toml\<close> that these functions read or write; the others are copied as they are. The
  hash maps are association lists in the order of their iteration, which is arbitrary. The parts of
  a message are the arguments of its handler.
\<close>

section \<open>Data\<close>

datatype max_clients = Unlimited | Inherited | Limited u16

datatype channel_type = Permanent | SemiPermanent | Temporary

datatype client_type = NormalClient | QueryClient bool

record talk_power_request =
  tp_time :: int
  tp_message :: bytes

record channel =
  ch_id :: u64
  ch_parent :: u64
  ch_order :: u64
  ch_max_clients :: "max_clients option"
  ch_max_family_clients :: "max_clients option"
  ch_channel_type :: channel_type
  ch_subscribed :: bool

record book_client =
  bc_id :: u16
  bc_channel :: u64
  bc_name :: bytes
  bc_away_message :: "bytes option"
  bc_client_type :: client_type
  bc_talk_power_request :: "talk_power_request option"

record book =
  own_client :: u16
  bk_channels :: "(u64 \<times> channel) list"
  bk_clients :: "(u16 \<times> book_client) list"

section \<open>Events\<close>

record invoker =
  inv_name :: bytes
  inv_id :: u16
  inv_uid :: "bytes option"

datatype property =
    PropChannel u64
  | PropChannelOrder u64
  | PropChannelSubscribed u64
  | PropChannelMaxClients u64
  | PropChannelMaxFamilyClients u64
  | PropChannelType u64
  | PropChannelParent u64
  | PropClient u16
  | PropClientAwayMessage u16
  | PropClientTalkPowerRequest u16
  | PropClientName u16
  | PropClientChannel u16

datatype property_value =
    ValChannelId u64
  | ValBool bool
  | ValOptionMaxClients "max_clients option"
  | ValChannelType channel_type
  | ValChannel channel
  | ValClient book_client
  | ValOptionString "bytes option"
  | ValString bytes
  | ValOptionTalkPowerRequest "talk_power_request option"

datatype message_target = TargetServer | TargetChannel | TargetClient u16 | TargetPoke u16

datatype book_event =
    PropertyAdded property "invoker option" "u8 option"
  | PropertyChanged property property_value "invoker option" "u8 option"
  | PropertyRemoved property property_value "invoker option" "u8 option"
  | EvMessage message_target invoker bytes

text \<open>\<open>get_invoker\<close> of an event.\<close>

fun get_invoker :: "book_event \<Rightarrow> invoker option" where
  "get_invoker (PropertyAdded p i r) = i"
| "get_invoker (PropertyChanged p v i r) = i"
| "get_invoker (PropertyRemoved p v i r) = i"
| "get_invoker (EvMessage t i m) = Some i"

datatype book_error =
    NotFound string u64
  | RemoveNotFound string
  | MessageWithoutTargetClientId
  | UnknownTextMessageTargetMode
  | InvalidConnectionIp

text \<open>The functions change the book and push events; an error returns at once.\<close>

type_synonym book_state = "book \<times> book_event list"
type_synonym 'a book_result = "(book_error, 'a) outcome \<times> book_state"

fun bind_bk :: "'a book_result \<Rightarrow> ('a \<Rightarrow> book_state \<Rightarrow> 'b book_result) \<Rightarrow> 'b book_result" where
  "bind_bk (Ok x, s) f = f x s"
| "bind_bk (Err e, s) f = (Err e, s)"
| "bind_bk (Panic, s) f = (Panic, s)"

definition push_event :: "book_event \<Rightarrow> book_state \<Rightarrow> book_state" where
  "push_event e s = (fst s, snd s @ [e])"

definition changed :: "property \<Rightarrow> property_value \<Rightarrow> book_event" where
  "changed p old = PropertyChanged p old None None"

section \<open>Channels and clients\<close>

definition get_book_channel :: "u64 \<Rightarrow> book \<Rightarrow> (book_error, channel) outcome" where
  "get_book_channel i b = ok_or (NotFound ''Channel'' i) (map_of (bk_channels b) i)"

definition get_book_client :: "u16 \<Rightarrow> book \<Rightarrow> (book_error, book_client) outcome" where
  "get_book_client i b = ok_or (NotFound ''Client'' (ucast i)) (map_of (bk_clients b) i)"

definition set_channel :: "u64 \<Rightarrow> channel \<Rightarrow> book_state \<Rightarrow> book_state" where
  "set_channel i c s = ((fst s)\<lparr>bk_channels := AList.update i c (bk_channels (fst s))\<rparr>, snd s)"

definition set_client :: "u16 \<Rightarrow> book_client \<Rightarrow> book_state \<Rightarrow> book_state" where
  "set_client i c s = ((fst s)\<lparr>bk_clients := AList.update i c (bk_clients (fst s))\<rparr>, snd s)"

text \<open>
  \<open>values_mut().any\<close> with a closure that changes the value it returns \<open>true\<close> for: the first value that
  matches is changed, and its old form is returned.
\<close>

fun any_mut :: "('v \<Rightarrow> bool) \<Rightarrow> ('v \<Rightarrow> 'v) \<Rightarrow> ('k \<times> 'v) list \<Rightarrow> ('k \<times> 'v) list \<times> 'v option" where
  "any_mut P f [] = ([], None)"
| "any_mut P f ((k, v) # kvs) =
     (if P v then ((k, f v) # kvs, Some v)
      else let (kvs, old) = any_mut P f kvs in ((k, v) # kvs, old))"

definition reorder :: "(channel \<Rightarrow> bool) \<Rightarrow> u64 \<Rightarrow> book_state \<Rightarrow> book_state" where
  "reorder P order s =
     (let (chs, old) = any_mut P (\<lambda>c. c\<lparr>ch_order := order\<rparr>) (bk_channels (fst s));
          s = ((fst s)\<lparr>bk_channels := chs\<rparr>, snd s)
      in case old of
           Some c \<Rightarrow> push_event (changed (PropChannelOrder (ch_id c)) (ValChannelId (ch_order c))) s
         | None \<Rightarrow> s)"

definition channel_order_remove :: "u64 \<Rightarrow> u64 \<Rightarrow> book_state \<Rightarrow> book_state" where
  "channel_order_remove i order = reorder (\<lambda>c. ch_order c = i \<and> ch_id c \<noteq> i) order"

definition channel_order_insert :: "u64 \<Rightarrow> u64 \<Rightarrow> u64 \<Rightarrow> book_state \<Rightarrow> book_state" where
  "channel_order_insert i order parent =
     reorder (\<lambda>c. ch_order c = order \<and> ch_parent c = parent \<and> ch_id c \<noteq> i) i"

definition add_channel :: "u64 \<Rightarrow> channel \<Rightarrow> book_state \<Rightarrow> channel option book_result" where
  "add_channel i r s =
     (let s = channel_order_insert (ch_id r) (ch_order r) (ch_parent r) s
      in (Ok (map_of (bk_channels (fst s)) i), set_channel i r s))"

definition remove_channel :: "u64 \<Rightarrow> book_state \<Rightarrow> channel option book_result" where
  "remove_channel i s =
     (let old = map_of (bk_channels (fst s)) i;
          s = ((fst s)\<lparr>bk_channels := AList.delete i (bk_channels (fst s))\<rparr>, snd s)
      in (Ok old, case old of Some c \<Rightarrow> channel_order_remove (ch_id c) (ch_order c) s | None \<Rightarrow> s))"

definition add_client :: "u16 \<Rightarrow> book_client \<Rightarrow> book_state \<Rightarrow> book_client option book_result" where
  "add_client i r s = (Ok (map_of (bk_clients (fst s)) i), set_client i r s)"

definition remove_client :: "u16 \<Rightarrow> book_state \<Rightarrow> book_client option book_result" where
  "remove_client i s =
     (Ok (map_of (bk_clients (fst s)) i),
      (fst s)\<lparr>bk_clients := AList.delete i (bk_clients (fst s))\<rparr>, snd s)"

section \<open>The order of the channels\<close>

definition channel_order_cc_fun :: "u64 \<Rightarrow> u64 \<Rightarrow> u64 \<Rightarrow> book_state \<Rightarrow> u64 book_result" where
  "channel_order_cc_fun i order parent s = (Ok order, channel_order_insert i order parent s)"

definition channel_order_move_fun ::
  "u64 \<Rightarrow> u64 option \<Rightarrow> u64 option \<Rightarrow> book_state \<Rightarrow> unit book_result" where
  "channel_order_move_fun i new_order parent s =
     (if new_order \<noteq> None \<or> parent \<noteq> None then
        bind_bk (get_book_channel i (fst s), s) (\<lambda>c s.
          let old_order = ch_order c;
              new_parent = (case parent of Some p \<Rightarrow> p | None \<Rightarrow> ch_parent c);
              s = (case new_order of
                     Some order \<Rightarrow>
                       set_channel i (c\<lparr>ch_order := order\<rparr>)
                         (push_event (changed (PropChannelOrder (ch_id c)) (ValChannelId (ch_order c))) s)
                   | None \<Rightarrow> s);
              s = channel_order_remove i old_order s
          in (Ok (), channel_order_insert i (case new_order of Some order \<Rightarrow> order | None \<Rightarrow> old_order)
                new_parent s))
      else (Ok (), s))"

section \<open>Limits, types and flags of channels\<close>

definition u16_of :: "int \<Rightarrow> u16 option" where
  "u16_of i = (if 0 \<le> i \<and> i \<le> 65535 then Some (of_int i) else None)"

text \<open>The macro \<open>max_clients!\<close> and its counterpart for families.\<close>

definition max_clients_macro :: "bool option \<Rightarrow> int option \<Rightarrow> max_clients option" where
  "max_clients_macro unlimited limit =
     (if unlimited = Some True then Some Unlimited
      else case limit of Some i \<Rightarrow> map_option Limited (u16_of i) | None \<Rightarrow> None)"

definition max_family :: "bool option \<Rightarrow> bool option \<Rightarrow> int option \<Rightarrow> max_clients option" where
  "max_family unlimited inherits limit =
     (if unlimited = Some True then Some Unlimited
      else if inherits = Some True then Some Inherited
      else case limit of Some i \<Rightarrow> map_option Limited (u16_of i) | None \<Rightarrow> None)"

record limits_part =
  lp_unlimited :: "bool option"
  lp_max :: "int option"
  lp_family_unlimited :: "bool option"
  lp_family_inherits :: "bool option"
  lp_family_max :: "int option"

definition max_clients_cc_fun :: "limits_part \<Rightarrow> max_clients option \<times> max_clients option" where
  "max_clients_cc_fun m =
     (max_clients_macro (lp_unlimited m) (lp_max m),
      max_family (lp_family_unlimited m) (lp_family_inherits m) (lp_family_max m))"

text \<open>A channel list has all fields; there a family limit out of range is no limit.\<close>

definition max_clients_cl_fun ::
  "bool \<Rightarrow> int \<Rightarrow> bool \<Rightarrow> bool \<Rightarrow> int \<Rightarrow> max_clients option \<times> max_clients option" where
  "max_clients_cl_fun unlimited limit fam_unlimited fam_inherits fam_limit =
     (max_clients_macro (Some unlimited) (Some limit),
      case max_family (Some fam_unlimited) (Some fam_inherits) (Some fam_limit) of
        Some m \<Rightarrow> Some m
      | None \<Rightarrow> Some Unlimited)"

definition max_clients_ce_fun ::
  "u64 \<Rightarrow> limits_part \<Rightarrow> invoker option \<Rightarrow> u8 \<Rightarrow> book_state \<Rightarrow> unit book_result" where
  "max_clients_ce_fun i m who reason s =
     bind_bk (get_book_channel i (fst s), s) (\<lambda>c s.
       let (ch, fam) = max_clients_cc_fun m;
           (c, s) = (case ch of
             Some v \<Rightarrow>
               (c\<lparr>ch_max_clients := Some v\<rparr>,
                push_event (PropertyChanged (PropChannelMaxClients i) (ValOptionMaxClients (ch_max_clients c))
                  who (Some reason)) s)
           | None \<Rightarrow> (c, s));
           (c, s) = (case fam of
             Some v \<Rightarrow>
               (c\<lparr>ch_max_family_clients := Some v\<rparr>,
                push_event (PropertyChanged (PropChannelMaxFamilyClients i)
                  (ValOptionMaxClients (ch_max_family_clients c)) who (Some reason)) s)
           | None \<Rightarrow> (c, s))
       in (Ok (), set_channel i c s))"

definition channel_flags_to_type :: "bool option \<Rightarrow> bool option \<Rightarrow> channel_type" where
  "channel_flags_to_type perm semi =
     (if perm = Some True then Permanent else if semi = Some True then SemiPermanent else Temporary)"

definition channel_type_ce_fun ::
  "u64 \<Rightarrow> bool option \<Rightarrow> bool option \<Rightarrow> invoker option \<Rightarrow> u8 \<Rightarrow> book_state \<Rightarrow> unit book_result" where
  "channel_type_ce_fun i perm semi who reason s =
     bind_bk (get_book_channel i (fst s), s) (\<lambda>c s.
       if perm = None \<and> semi = None then (Ok (), s)
       else
         (Ok (), set_channel i (c\<lparr>ch_channel_type := channel_flags_to_type perm semi\<rparr>)
            (push_event (PropertyChanged (PropChannelType i) (ValChannelType (ch_channel_type c))
              who (Some reason)) s)))"

text \<open>The functions from the book to messages.\<close>

fun channel_type_fun_b2m :: "channel_type \<Rightarrow> bool \<times> bool" where
  "channel_type_fun_b2m Temporary = (False, False)"
| "channel_type_fun_b2m SemiPermanent = (True, False)"
| "channel_type_fun_b2m Permanent = (False, True)"

fun max_clients_fun_b2m :: "max_clients \<Rightarrow> int \<times> bool" where
  "max_clients_fun_b2m Inherited = (0, False)"
| "max_clients_fun_b2m Unlimited = (0, True)"
| "max_clients_fun_b2m (Limited n) = (uint n, False)"

fun max_family_clients_fun_b2m :: "max_clients \<Rightarrow> int \<times> bool \<times> bool" where
  "max_family_clients_fun_b2m Inherited = (0, False, True)"
| "max_family_clients_fun_b2m Unlimited = (0, True, False)"
| "max_family_clients_fun_b2m (Limited n) = (uint n, False, False)"

definition away_fun_b2m :: "bytes option \<Rightarrow> bool \<times> bytes" where
  "away_fun_b2m msg = (case msg of Some m \<Rightarrow> (True, m) | None \<Rightarrow> (False, []))"

section \<open>Clients\<close>

definition client_type_cev_fun :: "bool \<Rightarrow> client_type \<Rightarrow> client_type" where
  "client_type_cev_fun server_admin t =
     (case t of QueryClient _ \<Rightarrow> if server_admin then QueryClient True else t | NormalClient \<Rightarrow> t)"

definition away_cev_fun :: "bool \<Rightarrow> bytes \<Rightarrow> bytes option" where
  "away_cev_fun is_away message = (if is_away then Some message else None)"

definition away_cu_fun ::
  "u16 \<Rightarrow> bool option \<Rightarrow> bytes option \<Rightarrow> invoker option \<Rightarrow> book_state \<Rightarrow> unit book_result" where
  "away_cu_fun i is_away message who s =
     bind_bk (get_book_client i (fst s), s) (\<lambda>c s.
       let change = (\<lambda>away. (Ok (), set_client i (c\<lparr>bc_away_message := away\<rparr>)
             (push_event (PropertyChanged (PropClientAwayMessage i) (ValOptionString (bc_away_message c)) who None) s)))
       in case is_away of
            Some a \<Rightarrow>
              if a \<noteq> (bc_away_message c \<noteq> None)
              then change (if a then Some (case message of Some m \<Rightarrow> m | None \<Rightarrow> []) else None)
              else (Ok (), s)
          | None \<Rightarrow>
              (case (message, bc_away_message c) of
                 (Some m, Some cur) \<Rightarrow> if m \<noteq> cur then change (Some m) else (Ok (), s)
               | _ \<Rightarrow> (Ok (), s)))"

definition talk_power_cev_fun :: "int \<Rightarrow> bytes \<Rightarrow> talk_power_request option" where
  "talk_power_cev_fun time message =
     (if time > 0 then Some \<lparr>tp_time = time, tp_message = message\<rparr> else None)"

definition talk_power_cu_fun ::
  "u16 \<Rightarrow> int option \<Rightarrow> bytes option \<Rightarrow> invoker option \<Rightarrow> book_state \<Rightarrow> unit book_result" where
  "talk_power_cu_fun i time message who s =
     (case time of
        None \<Rightarrow> (Ok (), s)
      | Some time \<Rightarrow>
          bind_bk (get_book_client i (fst s), s) (\<lambda>c s.
            (Ok (), set_client i
               (c\<lparr>bc_talk_power_request := talk_power_cev_fun time (case message of Some m \<Rightarrow> m | None \<Rightarrow> [])\<rparr>)
               (push_event (PropertyChanged (PropClientTalkPowerRequest i)
                  (ValOptionTalkPowerRequest (bc_talk_power_request c)) who None) s))))"

text \<open>\<open>parse\<close> reads an address.\<close>

definition address_fun ::
  "(bytes \<Rightarrow> 'a option) \<Rightarrow> bytes option \<Rightarrow> u16 option \<Rightarrow> (book_error, ('a \<times> u16) option option) outcome" where
  "address_fun parse ip port =
     (case (ip, port) of
        (Some ip, Some port) \<Rightarrow>
          if ip \<noteq> [] then
            let trim = dropWhile (\<lambda>c. c = 91 \<or> c = 93)
            in bind_out (ok_or InvalidConnectionIp (parse (rev (trim (rev (trim ip)))))) (\<lambda>a.
                 Ok (Some (Some (a, port))))
          else Ok (Some None)
      | _ \<Rightarrow> Ok (Some None))"

section \<open>Subscriptions\<close>

definition set_subscribed :: "u64 \<Rightarrow> bool \<Rightarrow> book_state \<Rightarrow> unit book_result" where
  "set_subscribed i v s =
     bind_bk (get_book_channel i (fst s), s) (\<lambda>c s.
       (Ok (), set_channel i (c\<lparr>ch_subscribed := v\<rparr>)
          (push_event (changed (PropChannelSubscribed i) (ValBool (ch_subscribed c))) s)))"

definition channel_subscribe_fun :: "u64 \<Rightarrow> book_state \<Rightarrow> unit book_result" where
  "channel_subscribe_fun i = set_subscribed i True"

fun remove_clients :: "u16 list \<Rightarrow> book_state \<Rightarrow> unit book_result" where
  "remove_clients [] s = (Ok (), s)"
| "remove_clients (i # is) s =
     bind_bk (remove_client i s) (\<lambda>old s.
       case old of
         Some c \<Rightarrow>
           remove_clients is (push_event (PropertyRemoved (PropClient i) (ValClient c) None None) s)
       | None \<Rightarrow> (Panic, s))"

definition channel_unsubscribe_fun :: "u64 \<Rightarrow> book_state \<Rightarrow> unit book_result" where
  "channel_unsubscribe_fun i s =
     bind_bk (set_subscribed i False s) (\<lambda>_ s.
       remove_clients
         (map (bc_id \<circ> snd) (filter (\<lambda>(_, c). bc_channel c = i) (bk_clients (fst s)))) s)"

definition subscribe_channel_fun :: "u16 \<Rightarrow> u64 \<Rightarrow> book_state \<Rightarrow> unit book_result" where
  "subscribe_channel_fun i target s =
     (if i = own_client (fst s) \<and> target \<noteq> 0 then set_subscribed target True s else (Ok (), s))"

section \<open>Handlers of messages\<close>

text \<open>A channel is created, listed, deleted, moved or edited.\<close>

definition channel_created ::
  "channel \<Rightarrow> invoker option \<Rightarrow> u8 option \<Rightarrow> book_state \<Rightarrow> unit book_result" where
  "channel_created c who reason s =
     bind_bk (channel_order_cc_fun (ch_id c) (ch_order c) (ch_parent c) s) (\<lambda>order s.
     bind_bk (add_channel (ch_id c) (c\<lparr>ch_order := order\<rparr>) s) (\<lambda>_ s.
       (Ok (), push_event (PropertyAdded (PropChannel (ch_id c)) who reason) s)))"

definition channel_listed :: "channel \<Rightarrow> book_state \<Rightarrow> unit book_result" where
  "channel_listed c s =
     bind_bk (add_channel (ch_id c) c s) (\<lambda>_ s.
       (Ok (), push_event (PropertyAdded (PropChannel (ch_id c)) None None) s))"

definition channel_deleted :: "u64 \<Rightarrow> invoker option \<Rightarrow> u8 option \<Rightarrow> book_state \<Rightarrow> unit book_result" where
  "channel_deleted i who reason s =
     bind_bk (remove_channel i s) (\<lambda>old s.
     bind_bk (ok_or (RemoveNotFound ''Channel'') old, s) (\<lambda>c s.
       (Ok (), push_event (PropertyRemoved (PropChannel i) (ValChannel c) who reason) s)))"

definition channel_moved ::
  "u64 \<Rightarrow> u64 \<Rightarrow> u64 \<Rightarrow> invoker option \<Rightarrow> u8 option \<Rightarrow> book_state \<Rightarrow> unit book_result" where
  "channel_moved i order parent who reason s =
     bind_bk (channel_order_move_fun i (Some order) (Some parent) s) (\<lambda>_ s.
     bind_bk (get_book_channel i (fst s), s) (\<lambda>c s.
       (Ok (), push_event (PropertyChanged (PropChannelParent i) (ValChannelId (ch_parent c)) who reason)
          (set_channel i (c\<lparr>ch_parent := parent\<rparr>) s))))"

definition channel_edited ::
  "u64 \<Rightarrow> limits_part \<Rightarrow> bool option \<Rightarrow> bool option \<Rightarrow> u64 option \<Rightarrow> u64 option
     \<Rightarrow> invoker option \<Rightarrow> u8 \<Rightarrow> book_state \<Rightarrow> unit book_result" where
  "channel_edited i limits perm semi order parent who reason s =
     bind_bk (max_clients_ce_fun i limits who reason s) (\<lambda>_ s.
     bind_bk (channel_type_ce_fun i perm semi who reason s) (\<lambda>_ s.
       channel_order_move_fun i order parent s))"

text \<open>The messages that are not in the rules, and the name of the invoker.\<close>

datatype text_target = ModeServer | ModeChannel | ModeClient | ModeUnknown

definition text_message ::
  "text_target \<Rightarrow> u16 option \<Rightarrow> invoker \<Rightarrow> bytes \<Rightarrow> book_state \<Rightarrow> unit book_result" where
  "text_message mode client who message s =
     bind_bk
       (case mode of
          ModeServer \<Rightarrow> Ok TargetServer
        | ModeChannel \<Rightarrow> Ok TargetChannel
        | ModeClient \<Rightarrow>
            bind_out (ok_or MessageWithoutTargetClientId client) (\<lambda>i. Ok (TargetClient i))
        | ModeUnknown \<Rightarrow> Err UnknownTextMessageTargetMode, s) (\<lambda>target s.
       (Ok (), push_event (EvMessage target who message) s))"

definition client_poke :: "invoker \<Rightarrow> bytes \<Rightarrow> book_state \<Rightarrow> unit book_result" where
  "client_poke who message s = (Ok (), push_event (EvMessage (TargetPoke (inv_id who)) who message) s)"

definition rename_invoker :: "book_state \<Rightarrow> book_state" where
  "rename_invoker s =
     (case snd s of
        [] \<Rightarrow> s
      | e # _ \<Rightarrow>
          (case get_invoker e of
             None \<Rightarrow> s
           | Some who \<Rightarrow>
               (case map_of (bk_clients (fst s)) (inv_id who) of
                  Some c \<Rightarrow>
                    if bc_name c \<noteq> inv_name who then
                      push_event (changed (PropClientName (bc_id c)) (ValString (bc_name c)))
                        (set_client (inv_id who) (c\<lparr>bc_name := inv_name who\<rparr>) s)
                    else s
                | None \<Rightarrow> s)))"

text \<open>A client enters, leaves, moves or is updated.\<close>

definition client_entered :: "book_client \<Rightarrow> invoker option \<Rightarrow> u8 \<Rightarrow> book_state \<Rightarrow> unit book_result" where
  "client_entered c who reason s =
     bind_bk (add_client (bc_id c) c s) (\<lambda>_ s.
       (Ok (), push_event (PropertyAdded (PropClient (bc_id c)) who (Some reason)) s))"

definition client_left :: "u16 \<Rightarrow> invoker option \<Rightarrow> u8 option \<Rightarrow> book_state \<Rightarrow> unit book_result" where
  "client_left i who reason s =
     bind_bk (remove_client i s) (\<lambda>old s.
     bind_bk (ok_or (RemoveNotFound ''Client'') old, s) (\<lambda>c s.
       (Ok (), push_event (PropertyRemoved (PropClient i) (ValClient c) who reason) s)))"

definition client_moved ::
  "u16 \<Rightarrow> u64 \<Rightarrow> invoker option \<Rightarrow> u8 \<Rightarrow> book_state \<Rightarrow> unit book_result" where
  "client_moved i target who reason s =
     bind_bk (subscribe_channel_fun i target s) (\<lambda>_ s.
     bind_bk (get_book_client i (fst s), s) (\<lambda>c s.
       (Ok (), push_event
          (PropertyChanged (PropClientChannel i) (ValChannelId (bc_channel c)) who (Some reason))
          (set_client i (c\<lparr>bc_channel := target\<rparr>) s))))"

definition client_updated ::
  "u16 \<Rightarrow> bytes option \<Rightarrow> bool option \<Rightarrow> bytes option \<Rightarrow> int option \<Rightarrow> bytes option
     \<Rightarrow> invoker option \<Rightarrow> book_state \<Rightarrow> unit book_result" where
  "client_updated i name is_away away_message time request who s =
     bind_bk (away_cu_fun i is_away away_message who s) (\<lambda>_ s.
     bind_bk (talk_power_cu_fun i time request who s) (\<lambda>_ s.
     bind_bk (get_book_client i (fst s), s) (\<lambda>c s.
       case name of
         Some n \<Rightarrow>
           (Ok (), push_event (PropertyChanged (PropClientName i) (ValString (bc_name c)) who None)
              (set_client i (c\<lparr>bc_name := n\<rparr>) s))
       | None \<Rightarrow> (Ok (), s))))"

section \<open>A message\<close>

text \<open>The parts of the messages that change channels and clients, with the fields the handlers read.\<close>

datatype book_part =
    InChannelCreated u64 u64 u64 limits_part "bool option" "bool option" invoker
  | InChannelList u64 u64 u64 "bool \<times> int \<times> bool \<times> bool \<times> int" bool bool
  | InChannelDeleted u64 invoker
  | InChannelMoved u64 u64 u64 invoker u8
  | InChannelEdited u64 limits_part "bool option" "bool option" "u64 option" "u64 option" "invoker option" u8
  | InChannelSubscribed u64
  | InChannelUnsubscribed u64
  | InClientEnterView u16 u64 bytes "bool \<times> bytes" "bool \<times> client_type" "int \<times> bytes" "invoker option" u8
  | InClientLeftView u16 "invoker option" "u8 option"
  | InClientMoved u16 u64 "invoker option" u8
  | InClientUpdated u16 "bytes option" "bool option" "bytes option" "int option" "bytes option" "invoker option"
  | InTextMessage text_target "u16 option" invoker bytes
  | InClientPoke invoker bytes

definition created_channel ::
  "u64 \<Rightarrow> u64 \<Rightarrow> u64 \<Rightarrow> limits_part \<Rightarrow> bool option \<Rightarrow> bool option \<Rightarrow> channel" where
  "created_channel i parent order m perm semi =
     (let (ch, fam) = max_clients_cc_fun m
      in \<lparr>ch_id = i, ch_parent = parent, ch_order = order, ch_max_clients = ch,
          ch_max_family_clients = fam, ch_channel_type = channel_flags_to_type perm semi,
          ch_subscribed = False\<rparr>)"

definition listed_channel ::
  "u64 \<Rightarrow> u64 \<Rightarrow> u64 \<Rightarrow> bool \<times> int \<times> bool \<times> bool \<times> int \<Rightarrow> bool \<Rightarrow> bool \<Rightarrow> channel" where
  "listed_channel i parent order m perm semi =
     (let (unlimited, limit, fam_unlimited, fam_inherits, fam_limit) = m;
          (ch, fam) = max_clients_cl_fun unlimited limit fam_unlimited fam_inherits fam_limit
      in \<lparr>ch_id = i, ch_parent = parent, ch_order = order, ch_max_clients = ch,
          ch_max_family_clients = fam, ch_channel_type = channel_flags_to_type (Some perm) (Some semi),
          ch_subscribed = False\<rparr>)"

definition entered_client ::
  "u16 \<Rightarrow> u64 \<Rightarrow> bytes \<Rightarrow> bool \<times> bytes \<Rightarrow> bool \<times> client_type \<Rightarrow> int \<times> bytes \<Rightarrow> book_client" where
  "entered_client i target name away ct request =
     \<lparr>bc_id = i, bc_channel = target, bc_name = name,
      bc_away_message = away_cev_fun (fst away) (snd away),
      bc_client_type = client_type_cev_fun (fst ct) (snd ct),
      bc_talk_power_request = talk_power_cev_fun (fst request) (snd request)\<rparr>"

fun handle_part :: "book_part \<Rightarrow> book_state \<Rightarrow> unit book_result" where
  "handle_part (InChannelCreated i parent order m perm semi who) s =
     channel_created (created_channel i parent order m perm semi) (Some who) None s"
| "handle_part (InChannelList i parent order m perm semi) s =
     channel_listed (listed_channel i parent order m perm semi) s"
| "handle_part (InChannelDeleted i who) s = channel_deleted i (Some who) None s"
| "handle_part (InChannelMoved i order parent who reason) s =
     channel_moved i order parent (Some who) (Some reason) s"
| "handle_part (InChannelEdited i m perm semi order parent who reason) s =
     channel_edited i m perm semi order parent who reason s"
| "handle_part (InChannelSubscribed i) s = channel_subscribe_fun i s"
| "handle_part (InChannelUnsubscribed i) s = channel_unsubscribe_fun i s"
| "handle_part (InClientEnterView i target name away ct request who reason) s =
     client_entered (entered_client i target name away ct request) who reason s"
| "handle_part (InClientLeftView i who reason) s = client_left i who reason s"
| "handle_part (InClientMoved i target who reason) s = client_moved i target who reason s"
| "handle_part (InClientUpdated i name is_away msg time request who) s =
     client_updated i name is_away msg time request who s"
| "handle_part (InTextMessage mode client who message) s = text_message mode client who message s"
| "handle_part (InClientPoke who message) s = client_poke who message s"

fun handle_parts :: "book_part list \<Rightarrow> book_state \<Rightarrow> unit book_result" where
  "handle_parts [] s = (Ok (), s)"
| "handle_parts (m # ms) s = bind_bk (handle_part m s) (\<lambda>_ s. handle_parts ms s)"

text \<open>\<open>Connection::handle_command\<close>: the events of a message whose parts fail are dropped with it.\<close>

definition book_handle_command :: "book_part list \<Rightarrow> book \<Rightarrow> (book_error, book_event list) outcome \<times> book" where
  "book_handle_command ms b =
     (case bind_bk (handle_parts ms (b, [])) (\<lambda>_ s. (Ok (), rename_invoker s)) of
        (Ok _, s) \<Rightarrow> (Ok (snd s), fst s)
      | (Err e, s) \<Rightarrow> (Err e, fst s)
      | (Panic, s) \<Rightarrow> (Panic, fst s))"

section \<open>Messages to the server\<close>

text \<open>The options of a new channel, with the setters of \<open>ChannelOptions\<close>.\<close>

record channel_options =
  co_name :: bytes
  co_description :: "bytes option"
  co_parent_id :: "u64 option"
  co_codec :: "u8 option"
  co_codec_quality :: "u8 option"
  co_delete_delay :: "int option"
  co_password :: "bytes option"
  co_is_default :: bool
  co_max_clients :: "max_clients option"
  co_max_family_clients :: "max_clients option"
  co_channel_type :: "channel_type option"
  co_is_unencrypted :: "bool option"
  co_order :: "u64 option"
  co_phonetic_name :: "bytes option"
  co_topic :: "bytes option"

definition channel_options_new :: "bytes \<Rightarrow> channel_options" where
  "channel_options_new name =
     \<lparr>co_name = name, co_description = None, co_parent_id = None, co_codec = None,
      co_codec_quality = None, co_delete_delay = None, co_password = None, co_is_default = False,
      co_max_clients = None, co_max_family_clients = None, co_channel_type = None,
      co_is_unencrypted = None, co_order = None, co_phonetic_name = None, co_topic = None\<rparr>"

datatype channel_option =
    Description bytes
  | ParentId u64
  | Codec u8
  | CodecQuality u8
  | DeleteDelay int
  | Password bytes
  | Default
  | MaxClients max_clients
  | MaxFamilyClients max_clients
  | ChannelType channel_type
  | IsUnencrypted bool
  | Order u64
  | PhoneticName bytes
  | Topic bytes

fun set_option :: "channel_option \<Rightarrow> channel_options \<Rightarrow> channel_options" where
  "set_option (Description x) c = c\<lparr>co_description := Some x\<rparr>"
| "set_option (ParentId x) c = c\<lparr>co_parent_id := Some x\<rparr>"
| "set_option (Codec x) c = c\<lparr>co_codec := Some x\<rparr>"
| "set_option (CodecQuality x) c = c\<lparr>co_codec_quality := Some x\<rparr>"
| "set_option (DeleteDelay x) c = c\<lparr>co_delete_delay := Some x\<rparr>"
| "set_option (Password x) c = c\<lparr>co_password := Some x\<rparr>"
| "set_option Default c = c\<lparr>co_is_default := True\<rparr>"
| "set_option (MaxClients x) c = c\<lparr>co_max_clients := Some x\<rparr>"
| "set_option (MaxFamilyClients x) c = c\<lparr>co_max_family_clients := Some x\<rparr>"
| "set_option (ChannelType x) c = c\<lparr>co_channel_type := Some x\<rparr>"
| "set_option (IsUnencrypted x) c = c\<lparr>co_is_unencrypted := Some x\<rparr>"
| "set_option (Order x) c = c\<lparr>co_order := Some x\<rparr>"
| "set_option (PhoneticName x) c = c\<lparr>co_phonetic_name := Some x\<rparr>"
| "set_option (Topic x) c = c\<lparr>co_topic := Some x\<rparr>"

record channel_create_part =
  cr_name :: bytes
  cr_description :: "bytes option"
  cr_parent_id :: "u64 option"
  cr_codec :: "u8 option"
  cr_codec_quality :: "u8 option"
  cr_delete_delay :: "int option"
  cr_has_password :: "bool option"
  cr_is_default :: "bool option"
  cr_limits :: limits_part
  cr_is_permanent :: "bool option"
  cr_is_semi_permanent :: "bool option"
  cr_is_unencrypted :: "bool option"
  cr_order :: "u64 option"
  cr_password :: "bytes option"
  cr_phonetic_name :: "bytes option"
  cr_topic :: "bytes option"

datatype out_message =
    OutSendTextMessage text_target "u16 option" bytes
  | OutClientPokeRequest u16 bytes
  | OutChannelSubscribe u64
  | OutChannelUnsubscribe u64
  | OutChannelSubscribeAll
  | OutChannelUnsubscribeAll
  | OutDisconnect "u8 option" "bytes option"
  | OutChannelCreate channel_create_part

text \<open>\<open>Some true\<close> if the condition holds, and no field otherwise.\<close>

definition flag :: "bool \<Rightarrow> bool option" where
  "flag b = (if b then Some True else None)"

fun limited :: "max_clients option \<Rightarrow> int option" where
  "limited (Some (Limited n)) = Some (uint n)"
| "limited _ = None"

definition options_limits :: "channel_options \<Rightarrow> limits_part" where
  "options_limits c =
     \<lparr>lp_unlimited = flag (co_max_clients c = Some Unlimited),
      lp_max = limited (co_max_clients c),
      lp_family_unlimited = flag (co_max_family_clients c = Some Unlimited),
      lp_family_inherits = flag (co_max_family_clients c = Some Inherited),
      lp_family_max = limited (co_max_family_clients c)\<rparr>"

text \<open>\<open>encode\<close> is \<open>crypto::encode_password\<close>, the hash of a password in base64.\<close>

definition server_add_channel :: "(bytes \<Rightarrow> bytes) \<Rightarrow> channel_options \<Rightarrow> out_message" where
  "server_add_channel encode c = OutChannelCreate
     \<lparr>cr_name = co_name c, cr_description = co_description c, cr_parent_id = co_parent_id c,
      cr_codec = co_codec c, cr_codec_quality = co_codec_quality c,
      cr_delete_delay = co_delete_delay c, cr_has_password = flag (co_password c \<noteq> None),
      cr_is_default = flag (co_is_default c), cr_limits = options_limits c,
      cr_is_permanent = flag (co_channel_type c = Some Permanent),
      cr_is_semi_permanent = flag (co_channel_type c = Some SemiPermanent),
      cr_is_unencrypted = co_is_unencrypted c, cr_order = co_order c,
      cr_password = map_option encode (co_password c), cr_phonetic_name = co_phonetic_name c,
      cr_topic = co_topic c\<rparr>"

definition password_b2m :: "(bytes \<Rightarrow> bytes) \<Rightarrow> bytes option \<Rightarrow> bytes" where
  "password_b2m encode password = (case password of Some p \<Rightarrow> encode p | None \<Rightarrow> [])"

definition password_flagged_b2m :: "(bytes \<Rightarrow> bytes) \<Rightarrow> bytes option \<Rightarrow> bool \<times> bytes" where
  "password_flagged_b2m encode password =
     (case password of Some p \<Rightarrow> (True, encode p) | None \<Rightarrow> (False, []))"

definition client_send_textmessage :: "book_client \<Rightarrow> bytes \<Rightarrow> out_message" where
  "client_send_textmessage c message = OutSendTextMessage ModeClient (Some (bc_id c)) message"

definition client_poke_request :: "book_client \<Rightarrow> bytes \<Rightarrow> out_message" where
  "client_poke_request c message = OutClientPokeRequest (bc_id c) message"

definition channel_set_subscribed :: "channel \<Rightarrow> bool \<Rightarrow> out_message" where
  "channel_set_subscribed c subscribed =
     (if subscribed then OutChannelSubscribe (ch_id c) else OutChannelUnsubscribe (ch_id c))"

definition server_send_textmessage :: "bytes \<Rightarrow> out_message" where
  "server_send_textmessage message = OutSendTextMessage ModeServer None message"

definition server_set_subscribed :: "bool \<Rightarrow> out_message" where
  "server_set_subscribed subscribed =
     (if subscribed then OutChannelSubscribeAll else OutChannelUnsubscribeAll)"

fun connection_send_message :: "message_target \<Rightarrow> bytes \<Rightarrow> out_message" where
  "connection_send_message TargetServer message = OutSendTextMessage ModeServer None message"
| "connection_send_message TargetChannel message = OutSendTextMessage ModeChannel None message"
| "connection_send_message (TargetClient i) message = OutSendTextMessage ModeClient (Some i) message"
| "connection_send_message (TargetPoke i) message = OutClientPokeRequest i message"

definition connection_disconnect :: "u8 option \<Rightarrow> bytes option \<Rightarrow> out_message" where
  "connection_disconnect reason message = OutDisconnect reason message"

end
