(* ===== verification/Book_Order.thy ===== *)
theory Book_Order
  imports Book
begin

text \<open>
  The channels of a parent as a list: every channel stores the channel before it, and the updates of
  the book insert into, remove from and move within these lists.
\<close>

section \<open>Changing the one value that matches\<close>

lemma map_of_any_mut:
  assumes "\<And>i j. i \<in> dom (map_of kvs) \<Longrightarrow> j \<in> dom (map_of kvs) \<Longrightarrow>
      P (the (map_of kvs i)) \<Longrightarrow> P (the (map_of kvs j)) \<Longrightarrow> i = j"
    and "distinct (map fst kvs)"
  shows "map_of (fst (any_mut P f kvs)) k =
    map_option (\<lambda>v. if P v then f v else v) (map_of kvs k)"
  using assms
proof (induction kvs)
  case (Cons kv kvs)
  obtain a v where kv: "kv = (a, v)" by (cases kv)
  have fresh: "a \<notin> dom (map_of kvs)"
    using Cons.prems(2) by (auto simp: kv dom_map_of_conv_image_fst)
  show ?case
  proof (cases "P v")
    case True
    have "\<not> P (the (map_of kvs j))" if "j \<in> dom (map_of kvs)" for j
    proof
      assume "P (the (map_of kvs j))"
      moreover have "j \<noteq> a" using that fresh by auto
      ultimately have "a = j" using that True by (intro Cons.prems(1)) (auto simp: kv)
      with \<open>j \<noteq> a\<close> show False by simp
    qed
    then have "map_option (\<lambda>v. if P v then f v else v) (map_of kvs k) = map_of kvs k"
      by (cases "map_of kvs k") force+
    then show ?thesis using True by (simp add: kv)
  next
    case False
    have "map_of (fst (any_mut P f kvs)) k = map_option (\<lambda>v. if P v then f v else v) (map_of kvs k)"
    proof (rule Cons.IH)
      fix i j assume "i \<in> dom (map_of kvs)" "j \<in> dom (map_of kvs)"
        "P (the (map_of kvs i))" "P (the (map_of kvs j))"
      moreover from this fresh have "i \<noteq> a" "j \<noteq> a" by auto
      ultimately show "i = j" by (intro Cons.prems(1)) (auto simp: kv)
    qed (use Cons.prems(2) kv in simp)
    with False show ?thesis by (simp add: kv split_beta)
  qed
qed simp

lemma keys_any_mut: "map fst (fst (any_mut P f kvs)) = map fst kvs"
  by (induction P f kvs rule: any_mut.induct) (simp_all add: split_beta)

section \<open>Lists whose elements name their predecessor\<close>

fun links :: "('a \<Rightarrow> 'a) \<Rightarrow> 'a \<Rightarrow> 'a list \<Rightarrow> bool" where
  "links f p [] = True"
| "links f p (x # xs) = (f x = p \<and> links f x xs)"

fun insert_after :: "'a \<Rightarrow> 'a \<Rightarrow> 'a \<Rightarrow> 'a list \<Rightarrow> 'a list" where
  "insert_after p q x [] = [x]"
| "insert_after p q x (y # ys) = (if p = q then x # y # ys else y # insert_after y q x ys)"

lemma set_insert_after: "set (insert_after p q x ys) = insert x (set ys)"
  by (induction p q x ys rule: insert_after.induct) auto

lemma distinct_insert_after: "distinct (insert_after p q x ys) \<longleftrightarrow> distinct ys \<and> x \<notin> set ys"
  by (induction p q x ys rule: insert_after.induct) (auto simp: set_insert_after)

lemma links_cong: "(\<And>x. x \<in> set xs \<Longrightarrow> f x = g x) \<Longrightarrow> links f p xs = links g p xs"
  by (induction xs arbitrary: p) auto

lemma links_pred: "links f p xs \<Longrightarrow> x \<in> set xs \<Longrightarrow> f x = p \<or> f x \<in> set xs"
  by (induction xs arbitrary: p) auto

lemma links_inj: "links f p xs \<Longrightarrow> distinct (p # xs) \<Longrightarrow> inj_on f (set xs)"
proof (induction xs arbitrary: p)
  case (Cons x xs)
  then have "links f x xs" "distinct (x # xs)" by auto
  then have "inj_on f (set xs)" "\<And>y. y \<in> set xs \<Longrightarrow> f y \<in> set (x # xs)"
    using Cons.IH links_pred [of f x xs] by auto
  moreover from this Cons.prems have "f x \<notin> f ` set xs" by fastforce
  ultimately show ?case by auto
qed simp

text \<open>Inserting behind \<open>q\<close>: the element that had \<open>q\<close> before it gets the new one.\<close>

lemma links_insert_after:
  assumes "links f p xs" "distinct (p # xs)" "q = p \<or> q \<in> set xs" "x \<notin> set xs" "x \<noteq> p"
  shows "links (\<lambda>y. if y = x then q else if f y = q then x else f y) p (insert_after p q x xs)"
  using assms
proof (induction xs arbitrary: p)
  case (Cons y ys)
  let ?g = "\<lambda>y. if y = x then q else if f y = q then x else f y"
  have l: "f y = p" "links f y ys" "distinct (y # ys)" using Cons.prems by auto
  show ?case
  proof (cases "p = q")
    case True
    have "f z \<noteq> q" if "z \<in> set ys" for z
      using links_pred [OF l(2) that] Cons.prems(2) True by auto
    then have "links f y ys = links ?g y ys"
      using Cons.prems(4) by (intro links_cong) auto
    then have "links ?g y ys" using l(2) by simp
    then show ?thesis using True l(1) Cons.prems(4) by auto
  next
    case False
    then have "links ?g y (insert_after y q x ys)"
      using Cons.IH [OF l(2,3)] Cons.prems(3,4,5) by auto
    then show ?thesis using False l(1) Cons.prems(4) by auto
  qed
qed auto

text \<open>Removing \<open>x\<close>: the element behind it gets what was before \<open>x\<close>.\<close>

lemma links_remove1:
  assumes "links f p xs" "distinct (p # xs)" "x \<in> set xs"
  shows "links (\<lambda>y. if f y = x then f x else f y) p (remove1 x xs)"
  using assms
proof (induction xs arbitrary: p)
  case (Cons y ys)
  let ?g = "\<lambda>y. if f y = x then f x else f y"
  have l: "f y = p" "links f y ys" "distinct (y # ys)" using Cons.prems by auto
  show ?case
  proof (cases "y = x")
    case True
    show ?thesis
    proof (cases ys)
      case (Cons z zs)
      have "f w \<noteq> x" if "w \<in> set zs" for w
        using links_pred [of f z zs w] that l True Cons by auto
      then have "links ?g z zs" using links_cong [of zs f ?g z] l Cons by auto
      then show ?thesis using True l Cons by auto
    qed (simp add: True)
  next
    case False
    then have "links ?g y (remove1 x ys)" using Cons.IH [OF l(2,3)] Cons.prems(3) by auto
    then show ?thesis using False l(1) Cons.prems by auto
  qed
qed simp

section \<open>The lists of a book\<close>

text \<open>\<open>L p\<close> lists the channels whose parent is \<open>p\<close>, each behind the one its order names.\<close>

definition order_in :: "(u64 \<rightharpoonup> channel) \<Rightarrow> u64 \<Rightarrow> u64" where
  "order_in m i = ch_order (the (m i))"

definition lists_ok :: "(u64 \<rightharpoonup> channel) \<Rightarrow> (u64 \<Rightarrow> u64 list) \<Rightarrow> bool" where
  "lists_ok m L \<longleftrightarrow> (\<forall>i c. m i = Some c \<longrightarrow> ch_id c = i \<and> i \<noteq> 0) \<and>
     (\<forall>p. distinct (L p) \<and> set (L p) = {i. \<exists>c. m i = Some c \<and> ch_parent c = p} \<and>
        links (order_in m) 0 (L p))"

definition book_ok :: "book \<Rightarrow> (u64 \<Rightarrow> u64 list) \<Rightarrow> bool" where
  "book_ok b L \<longleftrightarrow> distinct (map fst (bk_channels b)) \<and> lists_ok (map_of (bk_channels b)) L"

lemma lists_okD:
  assumes "lists_ok m L"
  shows "m i = Some c \<Longrightarrow> ch_id c = i" "m i = Some c \<Longrightarrow> i \<noteq> 0" "distinct (0 # L p)"
    "i \<in> set (L p) \<longleftrightarrow> (\<exists>c. m i = Some c \<and> ch_parent c = p)" "links (order_in m) 0 (L p)"
  using assms unfolding lists_ok_def by auto

text \<open>An order names one channel among those of a parent, and a channel of the same parent.\<close>

lemma same_order:
  assumes "lists_ok m L" "m i = Some c" "m j = Some d" "ch_parent c = ch_parent d" "ch_order c = ch_order d"
  shows "i = j"
proof -
  have "inj_on (order_in m) (set (L (ch_parent c)))"
    by (rule links_inj [OF lists_okD(5,3) [OF assms(1)]])
  moreover have "i \<in> set (L (ch_parent c))" "j \<in> set (L (ch_parent c))"
    using assms(2-4) lists_okD(4) [OF assms(1)] by auto
  ultimately show ?thesis using assms(2,3,5) by (auto simp: inj_on_def order_in_def)
qed

lemma order_parent:
  assumes "lists_ok m L" "m k = Some c" "ch_order c = i" "i \<noteq> 0"
  shows "\<exists>d. m i = Some d \<and> ch_parent d = ch_parent c"
proof -
  have "k \<in> set (L (ch_parent c))" using assms(2) lists_okD(4) [OF assms(1)] by auto
  then have "order_in m k = 0 \<or> order_in m k \<in> set (L (ch_parent c))"
    using links_pred [OF lists_okD(5) [OF assms(1)]] by auto
  then show ?thesis using assms(2-4) lists_okD(4) [OF assms(1)] by (auto simp: order_in_def)
qed

text \<open>What changing an order does to the map.\<close>

definition unique_in :: "(u64 \<rightharpoonup> channel) \<Rightarrow> (channel \<Rightarrow> bool) \<Rightarrow> bool" where
  "unique_in m P \<longleftrightarrow> (\<forall>i j c d. m i = Some c \<and> m j = Some d \<and> P c \<and> P d \<longrightarrow> i = j)"

lemma reorder_fields [simp]:
  "map fst (bk_channels (fst (reorder P order s))) = map fst (bk_channels (fst s))"
  by (simp add: reorder_def push_event_def keys_any_mut Let_def split: prod.split option.split)
    (metis fst_conv keys_any_mut)

lemma reorder_lookup:
  assumes "distinct (map fst (bk_channels (fst s)))" "unique_in (map_of (bk_channels (fst s))) P"
  shows "map_of (bk_channels (fst (reorder P order s))) =
    (\<lambda>k. map_option (\<lambda>c. if P c then c\<lparr>ch_order := order\<rparr> else c) (map_of (bk_channels (fst s)) k))"
proof
  fix k
  have "map_of (fst (any_mut P (\<lambda>c. c\<lparr>ch_order := order\<rparr>) (bk_channels (fst s)))) k =
      map_option (\<lambda>c. if P c then c\<lparr>ch_order := order\<rparr> else c) (map_of (bk_channels (fst s)) k)"
  proof (rule map_of_any_mut [OF _ assms(1)])
    fix i j assume d: "i \<in> dom (map_of (bk_channels (fst s)))" "j \<in> dom (map_of (bk_channels (fst s)))"
      and P: "P (the (map_of (bk_channels (fst s)) i))" "P (the (map_of (bk_channels (fst s)) j))"
    then obtain c c' where "map_of (bk_channels (fst s)) i = Some c" "map_of (bk_channels (fst s)) j = Some c'"
      by blast
    with P assms(2) show "i = j" unfolding unique_in_def by (metis option.sel)
  qed
  then show "map_of (bk_channels (fst (reorder P order s))) k =
      map_option (\<lambda>c. if P c then c\<lparr>ch_order := order\<rparr> else c) (map_of (bk_channels (fst s)) k)"
    by (cases "any_mut P (\<lambda>c. c\<lparr>ch_order := order\<rparr>) (bk_channels (fst s))")
      (simp add: reorder_def push_event_def Let_def split: option.split)
qed

section \<open>Creating, deleting and moving\<close>

text \<open>
  The lists after an update: \<open>g\<close> is the new order of the channels of a list, and the list is the old
  one with the new channel inserted or the old one removed.
\<close>

lemma insert_lookup:
  assumes "distinct (map fst (bk_channels (fst s)))" "unique_in (map_of (bk_channels (fst s)))
      (\<lambda>c. ch_order c = order \<and> ch_parent c = parent \<and> ch_id c \<noteq> i)"
  shows "map_of (bk_channels (fst (channel_order_insert i order parent s))) =
    (\<lambda>k. map_option (\<lambda>c. if ch_order c = order \<and> ch_parent c = parent \<and> ch_id c \<noteq> i
       then c\<lparr>ch_order := i\<rparr> else c) (map_of (bk_channels (fst s)) k))"
  unfolding channel_order_insert_def by (rule reorder_lookup [OF assms])

lemma remove_lookup:
  assumes "distinct (map fst (bk_channels (fst s)))" "unique_in (map_of (bk_channels (fst s)))
      (\<lambda>c. ch_order c = i \<and> ch_id c \<noteq> i)"
  shows "map_of (bk_channels (fst (channel_order_remove i order s))) =
    (\<lambda>k. map_option (\<lambda>c. if ch_order c = i \<and> ch_id c \<noteq> i then c\<lparr>ch_order := order\<rparr> else c)
       (map_of (bk_channels (fst s)) k))"
  unfolding channel_order_remove_def by (rule reorder_lookup [OF assms])

lemma keys_insert_remove [simp]:
  "map fst (bk_channels (fst (channel_order_insert i order parent s))) = map fst (bk_channels (fst s))"
  "map fst (bk_channels (fst (channel_order_remove i order s))) = map fst (bk_channels (fst s))"
  by (simp_all add: channel_order_insert_def channel_order_remove_def)

text \<open>Inserting a channel that is not in the lists.\<close>

definition insert_map :: "(u64 \<rightharpoonup> channel) \<Rightarrow> channel \<Rightarrow> u64 \<rightharpoonup> channel" where
  "insert_map m r = (\<lambda>k. if k = ch_id r then Some r
     else map_option (\<lambda>c. if ch_order c = ch_order r \<and> ch_parent c = ch_parent r
       then c\<lparr>ch_order := ch_id r\<rparr> else c) (m k))"

lemma lists_ok_insert:
  assumes "lists_ok m L" "m (ch_id r) = None" "ch_id r \<noteq> 0"
    and "ch_order r = 0 \<or> ch_order r \<in> set (L (ch_parent r))"
  shows "lists_ok (insert_map m r)
    (\<lambda>p. if p = ch_parent r then insert_after 0 (ch_order r) (ch_id r) (L p) else L p)"
proof -
  let ?m = "insert_map m r"
  have ids: "ch_id c = i \<and> i \<noteq> 0" if "?m i = Some c" for i c
    using that assms(3) lists_okD(1,2) [OF assms(1)] by (auto simp: insert_map_def split: if_splits)
  have fresh: "ch_id r \<notin> set (L p)" for p using assms(2) lists_okD(4) [OF assms(1)] by auto
  have par: "(\<exists>c. ?m i = Some c \<and> ch_parent c = p) \<longleftrightarrow>
      i = ch_id r \<and> p = ch_parent r \<or> (\<exists>c. m i = Some c \<and> ch_parent c = p)" for i p
    using assms(2) by (cases "m i") (auto simp: insert_map_def)
  have ord: "order_in ?m i = (if i = ch_id r then ch_order r else if order_in m i = ch_order r \<and> p = ch_parent r
      then ch_id r else order_in m i)" if "i = ch_id r \<or> i \<in> set (L p)" for i p
    using that lists_okD(4) [OF assms(1), of i p] by (auto simp: insert_map_def order_in_def)
  have "distinct (insert_after 0 (ch_order r) (ch_id r) (L (ch_parent r)))"
    using lists_okD(3) [OF assms(1), of "ch_parent r"] fresh by (simp add: distinct_insert_after)
  moreover have "links (order_in ?m) 0 (insert_after 0 (ch_order r) (ch_id r) (L (ch_parent r)))"
  proof -
    have "links (\<lambda>y. if y = ch_id r then ch_order r else if order_in m y = ch_order r then ch_id r else order_in m y)
        0 (insert_after 0 (ch_order r) (ch_id r) (L (ch_parent r)))"
      by (rule links_insert_after [OF lists_okD(5,3) [OF assms(1)] assms(4) fresh assms(3)])
    then show ?thesis
      by (rule links_cong [THEN iffD1, rotated]) (use ord in \<open>auto simp: set_insert_after\<close>)
  qed
  moreover have "links (order_in ?m) 0 (L p)" if "p \<noteq> ch_parent r" for p
    using lists_okD(5) [OF assms(1), of p]
    by (rule links_cong [THEN iffD1, rotated]) (use ord [of _ p] fresh that in \<open>auto\<close>)
  ultimately show ?thesis
    unfolding lists_ok_def using ids par lists_okD(3,4) [OF assms(1)]
    by (auto simp: set_insert_after)
qed

text \<open>Removing a channel.\<close>

definition remove_map :: "(u64 \<rightharpoonup> channel) \<Rightarrow> u64 \<Rightarrow> u64 \<Rightarrow> u64 \<rightharpoonup> channel" where
  "remove_map m i order = (\<lambda>k. if k = i then None
     else map_option (\<lambda>c. if ch_order c = i then c\<lparr>ch_order := order\<rparr> else c) (m k))"

lemma lists_ok_remove:
  assumes "lists_ok m L" "m i = Some r"
  shows "lists_ok (remove_map m i (ch_order r)) (\<lambda>p. remove1 i (L p))"
proof -
  let ?m = "remove_map m i (ch_order r)"
  have ids: "ch_id c = k \<and> k \<noteq> 0" if "?m k = Some c" for k c
    using that lists_okD(1,2) [OF assms(1)] by (auto simp: remove_map_def split: if_splits)
  have par: "(\<exists>c. ?m k = Some c \<and> ch_parent c = p) \<longleftrightarrow> k \<noteq> i \<and> (\<exists>c. m k = Some c \<and> ch_parent c = p)" for k p
    by (cases "m k") (auto simp: remove_map_def)
  have ord: "order_in ?m k = (if order_in m k = i then ch_order r else order_in m k)"
    if "k \<in> set (L p)" "k \<noteq> i" for k p
    using that lists_okD(4) [OF assms(1), of k p] by (auto simp: remove_map_def order_in_def)
  have "links (order_in ?m) 0 (remove1 i (L p))" for p
  proof (cases "i \<in> set (L p)")
    case True
    have "links (\<lambda>y. if order_in m y = i then order_in m i else order_in m y) 0 (remove1 i (L p))"
      by (rule links_remove1 [OF lists_okD(5,3) [OF assms(1)] True])
    then show ?thesis
      by (rule links_cong [THEN iffD1, rotated])
        (use ord lists_okD(3) [OF assms(1), of p] assms(2) in \<open>auto simp: order_in_def\<close>)
  next
    case False
    have "order_in m k \<noteq> i" if k: "k \<in> set (L p)" for k
    proof
      assume o: "order_in m k = i"
      obtain c where c: "m k = Some c" "ch_parent c = p" using k lists_okD(4) [OF assms(1)] by auto
      obtain d where "m i = Some d" "ch_parent d = p"
        using order_parent [OF assms(1) c(1), of i] o c lists_okD(2) [OF assms(1,2)] by (auto simp: order_in_def)
      with False show False using lists_okD(4) [OF assms(1)] by auto
    qed
    then have "order_in ?m k = order_in m k" if "k \<in> set (L p)" for k
      using that ord [of k p] False by metis
    then have "links (order_in ?m) 0 (L p)"
      using links_cong [of "L p" "order_in ?m" "order_in m" 0] lists_okD(5) [OF assms(1)] by blast
    then show ?thesis using False by (simp add: remove1_idem)
  qed
  then show ?thesis
    unfolding lists_ok_def using ids par lists_okD(3,4) [OF assms(1)] by auto
qed

text \<open>The two updates find at most one channel to change.\<close>

lemma unique_insert:
  assumes "lists_ok m L"
  shows "unique_in m (\<lambda>c. ch_order c = order \<and> ch_parent c = parent \<and> ch_id c \<noteq> i)"
  unfolding unique_in_def using same_order [OF assms] by auto

lemma unique_remove:
  assumes "lists_ok m L" "i \<noteq> 0" "\<And>k c. m' k = Some c \<Longrightarrow> k \<noteq> i \<Longrightarrow> m k = Some c"
    "\<And>k c. m' k = Some c \<Longrightarrow> ch_id c = k"
  shows "unique_in m' (\<lambda>c. ch_order c = i \<and> ch_id c \<noteq> i)"
  unfolding unique_in_def
proof (intro allI impI)
  fix j k c d assume a: "m' j = Some c \<and> m' k = Some d \<and>
    (ch_order c = i \<and> ch_id c \<noteq> i) \<and> (ch_order d = i \<and> ch_id d \<noteq> i)"
  then have m: "m j = Some c" "m k = Some d" using assms(3,4) by metis+
  have "ch_parent c = ch_parent d"
    using order_parent [OF assms(1) m(1)] order_parent [OF assms(1) m(2)] a assms(2) by auto
  then show "j = k" using same_order [OF assms(1) m] a by simp
qed

lemma created_lookup:
  assumes "book_ok (fst s) L" "map_of (bk_channels (fst s)) (ch_id r) = None"
    "add_channel (ch_id r) r s = (res, s')"
  shows "map_of (bk_channels (fst s')) = insert_map (map_of (bk_channels (fst s))) r"
    "distinct (map fst (bk_channels (fst s')))" "\<exists>old. res = Ok old"
proof -
  let ?m = "map_of (bk_channels (fst s))"
  have k: "distinct (map fst (bk_channels (fst s)))" "lists_ok ?m L" using assms(1) by (simp_all add: book_ok_def)
  have s': "s' = set_channel (ch_id r) r (channel_order_insert (ch_id r) (ch_order r) (ch_parent r) s)"
    using assms(3) by (auto simp: add_channel_def Let_def)
  have "k \<noteq> ch_id r" if "?m k = Some c" "ch_id c = k'" "k' \<noteq> ch_id r" for k k' c
    using that lists_okD(1) [OF k(2)] by auto
  then show "map_of (bk_channels (fst s')) = insert_map ?m r"
    using assms(2) lists_okD(1) [OF k(2)]
    by (auto simp: s' set_channel_def update_conv' insert_lookup [OF k(1) unique_insert [OF k(2)]]
        insert_map_def fun_eq_iff map_option_case split: option.split)
  show "distinct (map fst (bk_channels (fst s')))" using k(1) by (simp add: s' set_channel_def distinct_update)
  show "\<exists>old. res = Ok old" using assms(3) by (auto simp: add_channel_def Let_def)
qed

lemma deleted_lookup:
  assumes "book_ok (fst s) L" "map_of (bk_channels (fst s)) i = Some r"
    "remove_channel i s = (res, s')"
  shows "map_of (bk_channels (fst s')) = remove_map (map_of (bk_channels (fst s))) i (ch_order r)"
    "distinct (map fst (bk_channels (fst s')))" "res = Ok (Some r)"
proof -
  let ?m = "map_of (bk_channels (fst s))"
  have k: "distinct (map fst (bk_channels (fst s)))" "lists_ok ?m L" using assms(1) by (simp_all add: book_ok_def)
  have i: "ch_id r = i" "i \<noteq> 0" using lists_okD(1,2) [OF k(2) assms(2)] by auto
  define t where "t = ((fst s)\<lparr>bk_channels := AList.delete i (bk_channels (fst s))\<rparr>, snd s)"
  have t: "distinct (map fst (bk_channels (fst t)))" "map_of (bk_channels (fst t)) = ?m(i := None)"
    using k(1) by (simp_all add: t_def distinct_delete delete_conv')
  have s': "s' = channel_order_remove i (ch_order r) t" and res: "res = Ok (Some r)"
    using assms(2,3) i by (auto simp: remove_channel_def t_def Let_def)
  have u: "unique_in (map_of (bk_channels (fst t))) (\<lambda>c. ch_order c = i \<and> ch_id c \<noteq> i)"
    by (rule unique_remove [OF k(2) i(2)]) (use t(2) lists_okD(1) [OF k(2)] in \<open>auto split: if_splits\<close>)
  show "map_of (bk_channels (fst s')) = remove_map ?m i (ch_order r)"
    unfolding s' remove_lookup [OF t(1) u] t(2)
    using lists_okD(1) [OF k(2)] by (auto simp: remove_map_def fun_eq_iff map_option_case split: option.split)
  show "distinct (map fst (bk_channels (fst s')))" "res = Ok (Some r)" using t(1) res by (simp_all add: s')
qed

text \<open>
  Moving a channel removes it from its list and inserts it into that of its new parent; it keeps its
  place in the map.
\<close>

lemma moved_lookup:
  assumes "book_ok (fst s) L" "map_of (bk_channels (fst s)) i = Some r"
    and "channel_order_move_fun i (Some order) (Some parent) s = (res, s')"
    and "lists_ok (remove_map (map_of (bk_channels (fst s))) i (ch_order r)) L'"
  shows "(map_of (bk_channels (fst s'))) (i \<mapsto> r\<lparr>ch_order := order, ch_parent := parent\<rparr>) =
      insert_map (remove_map (map_of (bk_channels (fst s))) i (ch_order r))
        (r\<lparr>ch_order := order, ch_parent := parent\<rparr>)"
    "map_of (bk_channels (fst s')) i = Some (r\<lparr>ch_order := order\<rparr>)"
    "distinct (map fst (bk_channels (fst s')))" "res = Ok ()"
proof -
  let ?m = "map_of (bk_channels (fst s))" and ?r = "r\<lparr>ch_order := order\<rparr>"
  have k: "distinct (map fst (bk_channels (fst s)))" "lists_ok ?m L" using assms(1) by (simp_all add: book_ok_def)
  have i: "ch_id r = i" "i \<noteq> 0" using lists_okD(1,2) [OF k(2) assms(2)] by auto
  define t where "t = set_channel i ?r
    (push_event (changed (PropChannelOrder (ch_id r)) (ValChannelId (ch_order r))) s)"
  define u where "u = channel_order_remove i (ch_order r) t"
  have t: "distinct (map fst (bk_channels (fst t)))" "map_of (bk_channels (fst t)) = ?m(i \<mapsto> ?r)"
    using k(1) by (simp_all add: t_def set_channel_def push_event_def distinct_update update_conv')
  have res: "res = Ok ()" and s': "s' = channel_order_insert i order parent u"
    using assms(2,3) by (auto simp: channel_order_move_fun_def get_book_channel_def t_def u_def Let_def)
  have uq: "unique_in (map_of (bk_channels (fst t))) (\<lambda>c. ch_order c = i \<and> ch_id c \<noteq> i)"
    by (rule unique_remove [OF k(2) i(2)]) (use t(2) i lists_okD(1) [OF k(2)] in \<open>auto split: if_splits\<close>)
  have "map_of (bk_channels (fst u)) = (remove_map ?m i (ch_order r))(i \<mapsto> ?r)"
    unfolding u_def remove_lookup [OF t(1) uq] t(2)
    using lists_okD(1) [OF k(2)] i
    by (auto simp: remove_map_def fun_eq_iff map_option_case split: option.split)
  then have u: "distinct (map fst (bk_channels (fst u)))"
      "map_of (bk_channels (fst u)) = (remove_map ?m i (ch_order r))(i \<mapsto> ?r)"
    using t(1) by (simp_all add: u_def)
  have ids: "map_of (bk_channels (fst u)) j = Some c \<Longrightarrow> ch_id c = j" for j c
    using lists_okD(1) [OF assms(4)] i by (auto simp: u(2) split: if_splits)
  have "unique_in (map_of (bk_channels (fst u)))
      (\<lambda>c. ch_order c = order \<and> ch_parent c = parent \<and> ch_id c \<noteq> i)"
    unfolding unique_in_def
  proof (intro allI impI)
    fix j k c d
    assume a: "map_of (bk_channels (fst u)) j = Some c \<and> map_of (bk_channels (fst u)) k = Some d \<and>
      (ch_order c = order \<and> ch_parent c = parent \<and> ch_id c \<noteq> i) \<and>
      (ch_order d = order \<and> ch_parent d = parent \<and> ch_id d \<noteq> i)"
    then have "j \<noteq> i" "k \<noteq> i" using ids by blast+
    with a have "remove_map ?m i (ch_order r) j = Some c" "remove_map ?m i (ch_order r) k = Some d"
      by (simp_all add: u(2))
    with a show "j = k" using unique_insert [OF assms(4), of order parent i] unfolding unique_in_def by blast
  qed
  note look = insert_lookup [OF u(1) this]
  show "map_of (bk_channels (fst s')) i = Some ?r" by (simp add: s' look u(2) i)
  show "(map_of (bk_channels (fst s'))) (i \<mapsto> r\<lparr>ch_order := order, ch_parent := parent\<rparr>) =
      insert_map (remove_map ?m i (ch_order r)) (r\<lparr>ch_order := order, ch_parent := parent\<rparr>)"
    using i lists_okD(1) [OF assms(4)]
    by (auto simp: s' look u(2) insert_map_def fun_eq_iff map_option_case split: option.split)
  show "distinct (map fst (bk_channels (fst s')))" "res = Ok ()" using u(1) res by (simp_all add: s')
qed

section \<open>The lists of the parents\<close>

text \<open>
  The handler of a new channel inserts it into the order twice; the second time no channel is behind
  the place of the new one any more.
\<close>

lemma insert_twice:
  assumes "book_ok (fst s) L" "ch_id c \<noteq> ch_order c"
  shows "map_of (bk_channels (fst (channel_order_insert (ch_id c) (ch_order c) (ch_parent c)
      (channel_order_insert (ch_id c) (ch_order c) (ch_parent c) s)))) =
    map_of (bk_channels (fst (channel_order_insert (ch_id c) (ch_order c) (ch_parent c) s)))"
proof -
  let ?P = "\<lambda>d. ch_order d = ch_order c \<and> ch_parent d = ch_parent c \<and> ch_id d \<noteq> ch_id c"
  define t where "t = channel_order_insert (ch_id c) (ch_order c) (ch_parent c) s"
  have k: "distinct (map fst (bk_channels (fst s)))" "lists_ok (map_of (bk_channels (fst s))) L"
    using assms(1) by (simp_all add: book_ok_def)
  have none: "\<not> ?P d" if d: "map_of (bk_channels (fst t)) j = Some d" for j d
  proof -
    obtain z where "d = (if ?P z then z\<lparr>ch_order := ch_id c\<rparr> else z)"
      using d unfolding t_def insert_lookup [OF k(1) unique_insert [OF k(2)]] by auto
    then show ?thesis using assms(2) by (cases "?P z") auto
  qed
  then have u: "unique_in (map_of (bk_channels (fst t))) ?P" by (auto simp: unique_in_def)
  have "distinct (map fst (bk_channels (fst t)))" using k(1) by (simp add: t_def)
  then have "map_of (bk_channels (fst (channel_order_insert (ch_id c) (ch_order c) (ch_parent c) t))) =
      (\<lambda>j. map_option (\<lambda>d. if ?P d then d\<lparr>ch_order := ch_id c\<rparr> else d) (map_of (bk_channels (fst t)) j))"
    by (rule insert_lookup [OF _ u])
  also have "\<dots> = map_of (bk_channels (fst t))"
  proof
    fix j show "map_option (\<lambda>d. if ?P d then d\<lparr>ch_order := ch_id c\<rparr> else d) (map_of (bk_channels (fst t)) j) =
        map_of (bk_channels (fst t)) j"
      using none [of j] by (cases "map_of (bk_channels (fst t)) j") auto
  qed
  finally show ?thesis by (simp only: t_def)
qed

lemma book_ok_added:
  assumes "book_ok (fst s) L" "map_of (bk_channels (fst s)) (ch_id c) = None" "ch_id c \<noteq> 0"
    and "ch_order c = 0 \<or> ch_order c \<in> set (L (ch_parent c))"
    and "map_of (bk_channels (fst t)) = (insert_map (map_of (bk_channels (fst s))) c)"
    and "distinct (map fst (bk_channels (fst t)))"
  shows "book_ok (fst t)
    (\<lambda>p. if p = ch_parent c then insert_after 0 (ch_order c) (ch_id c) (L p) else L p)"
  using assms by (simp add: book_ok_def lists_ok_insert)

lemma book_ok_listed:
  assumes "book_ok (fst s) L" "map_of (bk_channels (fst s)) (ch_id c) = None" "ch_id c \<noteq> 0"
    and "ch_order c = 0 \<or> ch_order c \<in> set (L (ch_parent c))"
  shows "\<exists>s'. channel_listed c s = (Ok (), s') \<and>
    book_ok (fst s') (\<lambda>p. if p = ch_parent c then insert_after 0 (ch_order c) (ch_id c) (L p) else L p)"
proof -
  obtain res t where t: "add_channel (ch_id c) c s = (res, t)" by (cases "add_channel (ch_id c) c s")
  note cl = created_lookup [OF assms(1,2) t]
  show ?thesis using cl(3) book_ok_added [OF assms cl(1,2)]
    by (auto simp: channel_listed_def t push_event_def)
qed

lemma book_ok_created:
  assumes "book_ok (fst s) L" "map_of (bk_channels (fst s)) (ch_id c) = None" "ch_id c \<noteq> 0"
    and "ch_order c = 0 \<or> ch_order c \<in> set (L (ch_parent c))"
  shows "\<exists>s'. channel_created c who reason s = (Ok (), s') \<and>
    book_ok (fst s') (\<lambda>p. if p = ch_parent c then insert_after 0 (ch_order c) (ch_id c) (L p) else L p)"
proof -
  let ?ins = "channel_order_insert (ch_id c) (ch_order c) (ch_parent c)"
  obtain res t where t: "add_channel (ch_id c) c s = (res, t)" by (cases "add_channel (ch_id c) c s")
  obtain res' t' where t': "add_channel (ch_id c) c (?ins s) = (res', t')" by (cases "add_channel (ch_id c) c (?ins s)")
  have "ch_id c \<noteq> ch_order c"
    using assms by (auto simp: book_ok_def lists_ok_def)
  from insert_twice [OF assms(1) this] t t'
  have "map_of (bk_channels (fst t')) = map_of (bk_channels (fst t))"
    by (auto simp: add_channel_def Let_def set_channel_def update_conv')
  then have m: "map_of (bk_channels (fst t')) = insert_map (map_of (bk_channels (fst s))) c"
    using created_lookup(1) [OF assms(1,2) t] by simp
  have "\<exists>old. res' = Ok old" using t' by (auto simp: add_channel_def Let_def)
  moreover have "distinct (map fst (bk_channels (fst t')))"
    using t' assms(1) by (auto simp: add_channel_def Let_def set_channel_def distinct_update book_ok_def)
  moreover note book_ok_added [OF assms m this]
  ultimately show ?thesis by (auto simp: channel_created_def channel_order_cc_fun_def t' push_event_def)
qed

lemma book_ok_deleted:
  assumes "book_ok (fst s) L" "map_of (bk_channels (fst s)) i = Some c"
  shows "\<exists>s'. channel_deleted i who reason s = (Ok (), s') \<and> book_ok (fst s') (\<lambda>p. remove1 i (L p))"
proof -
  obtain res s' where r: "remove_channel i s = (res, s')" by (cases "remove_channel i s")
  note d = deleted_lookup [OF assms r]
  have "lists_ok (map_of (bk_channels (fst s))) L" using assms(1) by (simp add: book_ok_def)
  then have "book_ok (fst s') (\<lambda>p. remove1 i (L p))"
    unfolding book_ok_def d(1) using d(2) lists_ok_remove assms(2) by blast
  then show ?thesis using d(3) by (simp add: channel_deleted_def r push_event_def)
qed

lemma book_ok_moved:
  assumes "book_ok (fst s) L" "map_of (bk_channels (fst s)) i = Some c"
    and "order = 0 \<or> order \<in> set (remove1 i (L parent))"
  shows "\<exists>s'. channel_moved i order parent who reason s = (Ok (), s') \<and>
    book_ok (fst s') (\<lambda>p. if p = parent then insert_after 0 order i (remove1 i (L p)) else remove1 i (L p))"
proof -
  let ?m = "map_of (bk_channels (fst s))" and ?r = "c\<lparr>ch_order := order, ch_parent := parent\<rparr>"
  obtain res t where t: "channel_order_move_fun i (Some order) (Some parent) s = (res, t)" by (cases "channel_order_move_fun i (Some order) (Some parent) s")
  have ok: "lists_ok ?m L" using assms(1) by (simp add: book_ok_def)
  have i: "ch_id c = i" "i \<noteq> 0" using lists_okD(1,2) [OF ok assms(2)] by auto
  note rem = lists_ok_remove [OF ok assms(2)]
  note mv = moved_lookup [OF assms(1,2) t rem]
  have "lists_ok (insert_map (remove_map ?m i (ch_order c)) ?r)
      (\<lambda>p. if p = parent then insert_after 0 order i (remove1 i (L p)) else remove1 i (L p))"
    using lists_ok_insert [OF rem, of ?r] i assms(3) by (simp add: remove_map_def cong: if_cong)
  then show ?thesis
    using mv i by (simp add: channel_moved_def t get_book_channel_def push_event_def set_channel_def
        update_conv' distinct_update book_ok_def)
qed

section \<open>Messages that keep the lists\<close>

text \<open>Every other update changes no order and no parent.\<close>

lemma lists_ok_update:
  assumes "lists_ok m L" "m i = Some c"
    and "ch_id c' = ch_id c" "ch_parent c' = ch_parent c" "ch_order c' = ch_order c"
  shows "lists_ok (m(i \<mapsto> c')) L"
proof -
  have "order_in (m(i \<mapsto> c')) = order_in m" using assms(2,5) by (auto simp: order_in_def)
  moreover have "(\<exists>d. (m(i \<mapsto> c')) k = Some d \<and> ch_parent d = p) \<longleftrightarrow> (\<exists>d. m k = Some d \<and> ch_parent d = p)" for k p
    using assms(2,4) by auto
  ultimately show ?thesis
    using assms(1-3) unfolding lists_ok_def by (auto split: if_splits)
qed

lemma book_ok_set_channel:
  assumes "book_ok (fst s) L" "map_of (bk_channels (fst s)) i = Some c"
    and "ch_id c' = ch_id c" "ch_parent c' = ch_parent c" "ch_order c' = ch_order c"
  shows "book_ok (fst (set_channel i c' s)) L"
proof -
  have "lists_ok ((map_of (bk_channels (fst s)))(i \<mapsto> c')) L"
    by (rule lists_ok_update) (use assms in \<open>auto simp: book_ok_def\<close>)
  then show ?thesis using assms(1) by (simp add: book_ok_def set_channel_def update_conv' distinct_update)
qed

lemma book_ok_simps [simp]:
  "book_ok (fst (push_event e s)) L = book_ok (fst s) L"
  "book_ok (fst (set_client k cl s)) L = book_ok (fst s) L"
  "book_ok (b\<lparr>bk_clients := cls\<rparr>) L = book_ok b L"
  "bk_channels (fst (push_event e s)) = bk_channels (fst s)"
  by (simp_all add: push_event_def set_client_def book_ok_def)

lemma lists_bind:
  assumes "book_ok (fst (snd x)) L" "\<And>y t. x = (Ok y, t) \<Longrightarrow> book_ok (fst (snd (f y t))) L"
  shows "book_ok (fst (snd (bind_bk x f))) L"
  using assms by (cases x; cases "fst x") auto

lemma get_book_channel_Ok:
  "get_book_channel i b = Ok c \<longleftrightarrow> map_of (bk_channels b) i = Some c"
  by (cases "map_of (bk_channels b) i") (simp_all add: get_book_channel_def)

lemma keeps_channel:
  assumes "book_ok (fst s) L"
    and "\<And>c. map_of (bk_channels (fst s)) i = Some c \<Longrightarrow> book_ok (fst (snd (f c s))) L"
  shows "book_ok (fst (snd (bind_bk (get_book_channel i (fst s), s) f))) L"
  by (rule lists_bind) (use assms in \<open>auto simp: get_book_channel_Ok\<close>)

lemma keeps_client:
  assumes "book_ok (fst s) L" "\<And>c. book_ok (fst (snd (f c s))) L"
  shows "book_ok (fst (snd (bind_bk (get_book_client i (fst s), s) f))) L"
  by (rule lists_bind) (use assms in auto)

lemma keeps_set_subscribed:
  assumes "book_ok (fst s) L"
  shows "book_ok (fst (snd (set_subscribed i v s))) L"
  unfolding set_subscribed_def
  by (rule keeps_channel [OF assms]) (simp add: book_ok_set_channel assms)

lemma keeps_max_clients_ce:
  assumes "book_ok (fst s) L"
  shows "book_ok (fst (snd (max_clients_ce_fun i m who reason s))) L"
  unfolding max_clients_ce_fun_def
  by (rule keeps_channel [OF assms])
    (cases "fst (max_clients_cc_fun m)"; cases "snd (max_clients_cc_fun m)";
      simp add: Let_def book_ok_set_channel assms case_prod_beta)

lemma keeps_channel_type_ce:
  assumes "book_ok (fst s) L"
  shows "book_ok (fst (snd (channel_type_ce_fun i perm semi who reason s))) L"
  unfolding channel_type_ce_fun_def
  by (rule keeps_channel [OF assms]) (simp add: book_ok_set_channel assms)

lemma keeps_away_cu:
  "book_ok (fst s) L \<Longrightarrow> book_ok (fst (snd (away_cu_fun i is_away msg who s))) L"
  unfolding away_cu_fun_def
  by (rule keeps_client) (simp_all add: Let_def split: option.split prod.split)

lemma keeps_talk_power_cu:
  assumes "book_ok (fst s) L"
  shows "book_ok (fst (snd (talk_power_cu_fun i time msg who s))) L"
  unfolding talk_power_cu_fun_def using assms by (auto split: option.split intro!: keeps_client)

lemma keeps_remove_clients:
  "book_ok (fst s) L \<Longrightarrow> book_ok (fst (snd (remove_clients is s))) L"
  by (induction "is" s rule: remove_clients.induct)
    (auto simp: remove_client_def intro!: lists_bind split: option.split)

lemmas keeps_parts = keeps_set_subscribed keeps_max_clients_ce keeps_channel_type_ce keeps_away_cu
  keeps_talk_power_cu keeps_remove_clients

lemma keeps_rename_invoker: "book_ok (fst (rename_invoker s)) L = book_ok (fst s) L"
  by (simp add: rename_invoker_def split: list.split option.split)

text \<open>Editing a channel may move it behind another channel of its parent.\<close>

lemma book_ok_reordered:
  assumes "book_ok (fst s) L" "map_of (bk_channels (fst s)) i = Some c"
    and "order = 0 \<or> order \<in> set (remove1 i (L (ch_parent c)))"
  shows "\<exists>s'. channel_order_move_fun i (Some order) None s = (Ok (), s') \<and> book_ok (fst s')
    (\<lambda>p. if p = ch_parent c then insert_after 0 order i (remove1 i (L p)) else remove1 i (L p))"
proof -
  let ?m = "map_of (bk_channels (fst s))"
  obtain res t where t: "channel_order_move_fun i (Some order) (Some (ch_parent c)) s = (res, t)"
    by (cases "channel_order_move_fun i (Some order) (Some (ch_parent c)) s")
  have eq: "channel_order_move_fun i (Some order) None s = (res, t)"
    using t assms(2) by (simp add: channel_order_move_fun_def get_book_channel_def)
  have ok: "lists_ok ?m L" using assms(1) by (simp add: book_ok_def)
  have i: "ch_id c = i" "i \<noteq> 0" using lists_okD(1,2) [OF ok assms(2)] by auto
  note rem = lists_ok_remove [OF ok assms(2)]
  note mv = moved_lookup [OF assms(1,2) t rem]
  have "(map_of (bk_channels (fst t))) (i \<mapsto> c\<lparr>ch_order := order, ch_parent := ch_parent c\<rparr>) =
      map_of (bk_channels (fst t))"
    using mv(2) by (auto simp: fun_eq_iff)
  then have "map_of (bk_channels (fst t)) = insert_map (remove_map ?m i (ch_order c)) (c\<lparr>ch_order := order\<rparr>)"
    using mv(1) by simp
  moreover have "lists_ok (insert_map (remove_map ?m i (ch_order c)) (c\<lparr>ch_order := order\<rparr>))
      (\<lambda>p. if p = ch_parent c then insert_after 0 order i (remove1 i (L p)) else remove1 i (L p))"
    using lists_ok_insert [OF rem, of "c\<lparr>ch_order := order\<rparr>"] i assms(3)
    by (simp add: remove_map_def cong: if_cong)
  ultimately show ?thesis using eq mv(3,4) by (simp add: book_ok_def)
qed

section \<open>The lists that messages make\<close>

text \<open>
  What a message does to the lists, without the book: a channel is put behind the one its order names,
  taken out, or both.
\<close>

type_synonym channel_lists = "u64 \<Rightarrow> u64 list"

definition put_behind :: "u64 \<Rightarrow> u64 \<Rightarrow> u64 \<Rightarrow> channel_lists \<Rightarrow> channel_lists" where
  "put_behind i order parent L = (\<lambda>p. if p = parent then insert_after 0 order i (L p) else L p)"

definition take_out :: "u64 \<Rightarrow> channel_lists \<Rightarrow> channel_lists" where
  "take_out i L = (\<lambda>p. remove1 i (L p))"

definition has_place :: "u64 \<Rightarrow> u64 \<Rightarrow> channel_lists \<Rightarrow> bool" where
  "has_place order parent L \<longleftrightarrow> order = 0 \<or> order \<in> set (L parent)"

fun list_part :: "book_part \<Rightarrow> channel_lists \<Rightarrow> channel_lists" where
  "list_part (InChannelCreated i parent order m perm semi who) L = put_behind i order parent L"
| "list_part (InChannelList i parent order m perm semi) L = put_behind i order parent L"
| "list_part (InChannelDeleted i who) L = take_out i L"
| "list_part (InChannelMoved i order parent who reason) L = put_behind i order parent (take_out i L)"
| "list_part (InChannelEdited i m perm semi (Some order) parent who reason) L =
     (\<lambda>p. if i \<in> set (L p) then put_behind i order p (take_out i L) p else L p)"
| "list_part _ L = L"

text \<open>A message of a server fits the lists.\<close>

fun fits :: "book_part \<Rightarrow> channel_lists \<Rightarrow> bool" where
  "fits (InChannelCreated i parent order m perm semi who) L \<longleftrightarrow>
     i \<noteq> 0 \<and> (\<forall>p. i \<notin> set (L p)) \<and> has_place order parent L"
| "fits (InChannelList i parent order m perm semi) L \<longleftrightarrow>
     i \<noteq> 0 \<and> (\<forall>p. i \<notin> set (L p)) \<and> has_place order parent L"
| "fits (InChannelDeleted i who) L \<longleftrightarrow> (\<exists>p. i \<in> set (L p))"
| "fits (InChannelMoved i order parent who reason) L \<longleftrightarrow>
     (\<exists>p. i \<in> set (L p)) \<and> has_place order parent (take_out i L)"
| "fits (InChannelEdited i m perm semi order parent who reason) L \<longleftrightarrow>
     parent = None \<and> (\<exists>p. i \<in> set (L p) \<and> (\<forall>k. order = Some k \<longrightarrow> has_place k p (take_out i L)))"
| "fits _ L \<longleftrightarrow> True"

fun all_fit :: "book_part list \<Rightarrow> channel_lists \<Rightarrow> bool" where
  "all_fit [] L = True"
| "all_fit (m # ms) L = (fits m L \<and> all_fit ms (list_part m L))"

fun about_channels :: "book_part \<Rightarrow> bool" where
  "about_channels (InChannelCreated i parent order m perm semi who) = True"
| "about_channels (InChannelList i parent order m perm semi) = True"
| "about_channels (InChannelDeleted i who) = True"
| "about_channels (InChannelMoved i order parent who reason) = True"
| "about_channels (InChannelEdited i m perm semi order parent who reason) = True"
| "about_channels _ = False"

lemma absent_channel:
  assumes "book_ok b L" "\<forall>p. i \<notin> set (L p)"
  shows "map_of (bk_channels b) i = None"
  using assms lists_okD(4) [of "map_of (bk_channels b)" L i] by (cases "map_of (bk_channels b) i") (auto simp: book_ok_def)

lemma present_channel:
  assumes "book_ok b L" "i \<in> set (L p)"
  obtains c where "map_of (bk_channels b) i = Some c" "ch_parent c = p"
  using assms lists_okD(4) [of "map_of (bk_channels b)" L i p] by (auto simp: book_ok_def)

lemma created_channel_simps [simp]:
  "ch_id (created_channel i parent order m perm semi) = i"
  "ch_parent (created_channel i parent order m perm semi) = parent"
  "ch_order (created_channel i parent order m perm semi) = order"
  by (simp_all add: created_channel_def case_prod_beta)

lemma listed_channel_simps [simp]:
  "ch_id (listed_channel i parent order limits perm semi) = i"
  "ch_parent (listed_channel i parent order limits perm semi) = parent"
  "ch_order (listed_channel i parent order limits perm semi) = order"
  by (simp_all add: listed_channel_def case_prod_beta)

text \<open>The handler of an edited channel: the settings first, then the order.\<close>

lemma ce_funs_Ok:
  assumes "map_of (bk_channels (fst s)) i = Some c"
  shows "fst (max_clients_ce_fun i m who reason s) = Ok ()"
    "fst (channel_type_ce_fun i perm semi who reason s) = Ok ()"
proof -
  show "fst (max_clients_ce_fun i m who reason s) = Ok ()"
    using assms by (cases "fst (max_clients_cc_fun m)"; cases "snd (max_clients_cc_fun m)";
      simp add: max_clients_ce_fun_def get_book_channel_def Let_def case_prod_beta)
  show "fst (channel_type_ce_fun i perm semi who reason s) = Ok ()"
    using assms by (simp add: channel_type_ce_fun_def get_book_channel_def)
qed

lemma book_ok_edited:
  assumes "book_ok (fst s) L" "i \<in> set (L p)"
    and place: "\<And>k. order = Some k \<Longrightarrow> has_place k p (take_out i L)"
  shows "\<exists>s'. channel_edited i m perm semi order None who reason s = (Ok (), s') \<and>
    book_ok (fst s') (list_part (InChannelEdited i m perm semi order None who reason) L)"
proof -
  obtain c where "map_of (bk_channels (fst s)) i = Some c" by (rule present_channel [OF assms(1,2)])
  then obtain t where t: "max_clients_ce_fun i m who reason s = (Ok (), t)"
    using ce_funs_Ok(1) by (metis prod.collapse)
  then have t_ok: "book_ok (fst t) L" using keeps_max_clients_ce [OF assms(1), of i m who reason] by simp
  obtain d where "map_of (bk_channels (fst t)) i = Some d" by (rule present_channel [OF t_ok assms(2)])
  then obtain u where u: "channel_type_ce_fun i perm semi who reason t = (Ok (), u)"
    using ce_funs_Ok(2) by (metis prod.collapse)
  then have u_ok: "book_ok (fst u) L" using keeps_channel_type_ce [OF t_ok, of i perm semi who reason] by simp
  obtain e where e: "map_of (bk_channels (fst u)) i = Some e" "ch_parent e = p"
    by (rule present_channel [OF u_ok assms(2)])
  have run: "channel_edited i m perm semi order None who reason s = channel_order_move_fun i order None u"
    by (simp add: channel_edited_def t u)
  show ?thesis
  proof (cases order)
    case None
    then show ?thesis using u_ok run by (simp add: channel_order_move_fun_def)
  next
    case (Some k)
    have "lists_ok (map_of (bk_channels (fst u))) L" using u_ok by (simp add: book_ok_def)
    then have "i \<in> set (L q) \<longleftrightarrow> q = p" for q using lists_okD(4) e by auto
    then have "list_part (InChannelEdited i m perm semi order None who reason) L =
        (\<lambda>q. if q = ch_parent e then insert_after 0 k i (remove1 i (L q)) else remove1 i (L q))"
      using Some e(2) by (auto simp: fun_eq_iff put_behind_def take_out_def remove1_idem)
    then show ?thesis
      using book_ok_reordered [OF u_ok e(1), of k] place [OF Some] Some e(2) run
      by (simp add: has_place_def take_out_def)
  qed
qed

text \<open>A part of a message, and a message.\<close>

lemma handle_part_lists:
  assumes "book_ok (fst s) L" "fits m L" "about_channels m"
  shows "\<exists>s'. handle_part m s = (Ok (), s') \<and> book_ok (fst s') (list_part m L)"
proof (cases m)
  case (InChannelCreated i parent order lim perm semi who)
  have "map_of (bk_channels (fst s)) i = None" by (rule absent_channel [OF assms(1)]) (use assms InChannelCreated in simp)
  then show ?thesis
    using book_ok_created [OF assms(1), of "created_channel i parent order lim perm semi"] assms(2)
    by (simp add: InChannelCreated has_place_def put_behind_def cong: if_cong)
next
  case (InChannelList i parent order lim perm semi)
  have "map_of (bk_channels (fst s)) i = None" by (rule absent_channel [OF assms(1)]) (use assms InChannelList in simp)
  then show ?thesis
    using book_ok_listed [OF assms(1), of "listed_channel i parent order lim perm semi"] assms(2)
    by (simp add: InChannelList has_place_def put_behind_def cong: if_cong)
next
  case (InChannelDeleted i who)
  then obtain p where "i \<in> set (L p)" using assms(2) by auto
  then obtain c where "map_of (bk_channels (fst s)) i = Some c" by (rule present_channel [OF assms(1)])
  then show ?thesis using book_ok_deleted [OF assms(1)] by (simp add: InChannelDeleted take_out_def)
next
  case (InChannelMoved i order parent who reason)
  then obtain p where "i \<in> set (L p)" using assms(2) by auto
  then obtain c where "map_of (bk_channels (fst s)) i = Some c" by (rule present_channel [OF assms(1)])
  then show ?thesis using book_ok_moved [OF assms(1)] assms(2)
    by (simp add: InChannelMoved take_out_def put_behind_def has_place_def)
next
  case (InChannelEdited i lim perm semi order parent who reason)
  then obtain p where "parent = None" "i \<in> set (L p)" "\<And>k. order = Some k \<Longrightarrow> has_place k p (take_out i L)"
    using assms(2) by auto
  with book_ok_edited [OF assms(1)] InChannelEdited show ?thesis by simp
qed (use assms(3) in auto)

lemma keeps_unsubscribe:
  assumes "book_ok (fst s) L"
  shows "book_ok (fst (snd (channel_unsubscribe_fun i s))) L"
  unfolding channel_unsubscribe_fun_def
proof (rule lists_bind)
  show kept: "book_ok (fst (snd (set_subscribed i False s))) L" by (rule keeps_set_subscribed [OF assms])
  fix y t assume "set_subscribed i False s = (Ok y, t)"
  with kept have "book_ok (fst t) L" by simp
  then show "book_ok (fst (snd (remove_clients
      (map (bc_id \<circ> snd) (filter (\<lambda>(_, c). bc_channel c = i) (bk_clients (fst t)))) t))) L"
    by (rule keeps_remove_clients)
qed

lemma keeps_client_parts:
  assumes "book_ok (fst s) L"
  shows "book_ok (fst (snd (client_entered c who reason s))) L"
    "book_ok (fst (snd (client_left i who opt_reason s))) L"
    "book_ok (fst (snd (text_message mode target sender message s))) L"
    "book_ok (fst (snd (client_poke sender message s))) L"
    "book_ok (fst (snd (subscribe_channel_fun i ch s))) L"
proof -
  show "book_ok (fst (snd (client_entered c who reason s))) L"
    using assms by (simp add: client_entered_def add_client_def)
  show "book_ok (fst (snd (client_left i who opt_reason s))) L"
    using assms by (cases "map_of (bk_clients (fst s)) i") (simp_all add: client_left_def remove_client_def)
  show "book_ok (fst (snd (text_message mode target sender message s))) L"
    unfolding text_message_def by (rule lists_bind) (use assms in simp_all)
  show "book_ok (fst (snd (client_poke sender message s))) L" using assms by (simp add: client_poke_def)
  show "book_ok (fst (snd (subscribe_channel_fun i ch s))) L"
    using assms by (simp add: subscribe_channel_fun_def keeps_set_subscribed)
qed

lemma keeps_client_moved:
  assumes "book_ok (fst s) L"
  shows "book_ok (fst (snd (client_moved i target who reason s))) L"
  unfolding client_moved_def
proof (rule lists_bind)
  show kept: "book_ok (fst (snd (subscribe_channel_fun i target s))) L" by (rule keeps_client_parts [OF assms])
  fix y t assume "subscribe_channel_fun i target s = (Ok y, t)"
  with kept have "book_ok (fst t) L" by simp
  then show "book_ok (fst (snd (bind_bk (get_book_client i (fst t), t) (\<lambda>c s.
      (Ok (), push_event (PropertyChanged (PropClientChannel i) (ValChannelId (bc_channel c)) who (Some reason))
        (set_client i (c\<lparr>bc_channel := target\<rparr>) s)))))) L"
    by (intro keeps_client) simp_all
qed

lemma keeps_client_updated:
  assumes "book_ok (fst s) L"
  shows "book_ok (fst (snd (client_updated i name is_away msg time request who s))) L"
  unfolding client_updated_def
proof (rule lists_bind)
  show kept: "book_ok (fst (snd (away_cu_fun i is_away msg who s))) L" by (rule keeps_away_cu [OF assms])
  fix y t assume "away_cu_fun i is_away msg who s = (Ok y, t)"
  with kept have t: "book_ok (fst t) L" by simp
  show "book_ok (fst (snd (bind_bk (talk_power_cu_fun i time request who t) (\<lambda>_ s.
      bind_bk (get_book_client i (fst s), s) (\<lambda>c s. case name of
        Some n \<Rightarrow> (Ok (), push_event (PropertyChanged (PropClientName i) (ValString (bc_name c)) who None)
                     (set_client i (c\<lparr>bc_name := n\<rparr>) s))
      | None \<Rightarrow> (Ok (), s)))))) L"
  proof (rule lists_bind)
    show kept: "book_ok (fst (snd (talk_power_cu_fun i time request who t))) L" by (rule keeps_talk_power_cu [OF t])
    fix z u assume "talk_power_cu_fun i time request who t = (Ok z, u)"
    with kept have "book_ok (fst u) L" by simp
    then show "book_ok (fst (snd (bind_bk (get_book_client i (fst u), u) (\<lambda>c s. case name of
        Some n \<Rightarrow> (Ok (), push_event (PropertyChanged (PropClientName i) (ValString (bc_name c)) who None)
                     (set_client i (c\<lparr>bc_name := n\<rparr>) s))
      | None \<Rightarrow> (Ok (), s))))) L"
      by (intro keeps_client) (simp_all split: option.split)
  qed
qed

lemma handle_part_keeps_lists:
  assumes "book_ok (fst s) L" "\<not> about_channels m"
  shows "book_ok (fst (snd (handle_part m s))) (list_part m L)"
  using assms
  by (cases m) (simp_all add: channel_subscribe_fun_def keeps_set_subscribed keeps_unsubscribe keeps_client_parts
    keeps_client_moved keeps_client_updated)

lemma handle_parts_lists:
  assumes "book_ok (fst s) L" "all_fit ms L"
  shows "(fst (handle_parts ms s) = Ok () \<longrightarrow> book_ok (fst (snd (handle_parts ms s))) (fold list_part ms L)) \<and>
    (list_all about_channels ms \<longrightarrow> fst (handle_parts ms s) = Ok ())"
  using assms
proof (induction ms arbitrary: s L)
  case (Cons m ms)
  have fits: "fits m L" "all_fit ms (list_part m L)" using Cons.prems by simp_all
  show ?case
  proof (cases "about_channels m")
    case True
    obtain t where t: "handle_part m s = (Ok (), t)" "book_ok (fst t) (list_part m L)"
      using handle_part_lists [OF Cons.prems(1) fits(1) True] by blast
    then show ?thesis using Cons.IH [OF t(2) fits(2)] by simp
  next
    case False
    obtain res t where t: "handle_part m s = (res, t)" by (cases "handle_part m s")
    have ok: "book_ok (fst t) (list_part m L)"
      using handle_part_keeps_lists [OF Cons.prems(1) False] t by simp
    show ?thesis using Cons.IH [OF ok fits(2)] False by (cases res) (simp_all add: t)
  qed
qed simp

section \<open>Properties\<close>



end
