(* ===== verification/Book_Clients.thy ===== *)
theory Book_Clients
  imports Book
begin

text \<open>
  The clients of the book: each is stored under its own id, so that no message makes the book panic and
  unsubscribing from a channel forgets exactly the clients in it. Settings and targets that are sent
  are read back from the messages of the server.
\<close>

section \<open>Clients are stored under their ids\<close>

definition clients_ok :: "book \<Rightarrow> bool" where
  "clients_ok b \<longleftrightarrow> distinct (map fst (bk_clients b)) \<and> (\<forall>(k, c) \<in> set (bk_clients b). bc_id c = k)"

text \<open>The result of an operation that does not panic and keeps the clients under their ids.\<close>

definition safe_bk :: "'a book_result \<Rightarrow> bool" where
  "safe_bk x \<longleftrightarrow> fst x \<noteq> Panic \<and> clients_ok (fst (snd x))"

lemma safe_bkI [simp]: "safe_bk (Ok x, s) = clients_ok (fst s)" "safe_bk (Err e, s) = clients_ok (fst s)"
  by (simp_all add: safe_bk_def)

lemma safe_bind:
  assumes "safe_bk x" "\<And>y t. x = (Ok y, t) \<Longrightarrow> clients_ok (fst t) \<Longrightarrow> safe_bk (f y t)"
  shows "safe_bk (bind_bk x f)"
  using assms by (cases x; cases "fst x") (auto simp: safe_bk_def)

lemma safe_ok_or: "clients_ok (fst s) \<Longrightarrow> safe_bk (ok_or e v, s)"
  by (cases v) simp_all

lemma clients_ok_simps [simp]:
  "clients_ok (fst (push_event e s)) = clients_ok (fst s)"
  "clients_ok (fst (set_channel i c s)) = clients_ok (fst s)"
  "clients_ok (b\<lparr>bk_channels := chs\<rparr>) = clients_ok b"
  by (simp_all add: push_event_def set_channel_def clients_ok_def)

lemma clients_ok_lookup: "clients_ok b \<Longrightarrow> map_of (bk_clients b) i = Some c \<Longrightarrow> bc_id c = i"
  using map_of_SomeD by (fastforce simp: clients_ok_def)

lemma set_update_subset: "set (AList.update i c kvs) \<subseteq> insert (i, c) (set kvs)"
  by (induction kvs) (auto split: if_splits)

lemma clients_ok_set:
  assumes "clients_ok (fst s)" "bc_id c = i"
  shows "clients_ok (fst (set_client i c s))"
  using assms set_update_subset [of i c "bk_clients (fst s)"]
  by (fastforce simp: clients_ok_def set_client_def distinct_update)

lemma clients_ok_delete: "clients_ok b \<Longrightarrow> clients_ok (b\<lparr>bk_clients := AList.delete i (bk_clients b)\<rparr>)"
  using distinct_delete [of "bk_clients b" i] by (auto simp: clients_ok_def AList.delete_eq)

lemma safe_reorder [simp]: "clients_ok (fst (reorder P order s)) = clients_ok (fst s)"
  by (simp add: reorder_def Let_def split: prod.split option.split)

lemma safe_order [simp]:
  "clients_ok (fst (channel_order_insert i order parent s)) = clients_ok (fst s)"
  "clients_ok (fst (channel_order_remove i order s)) = clients_ok (fst s)"
  by (simp_all add: channel_order_insert_def channel_order_remove_def)

lemma safe_channel:
  assumes "clients_ok (fst s)" "\<And>c. safe_bk (f c s)"
  shows "safe_bk (bind_bk (get_book_channel i (fst s), s) f)"
  by (rule safe_bind) (use assms in \<open>auto simp: get_book_channel_def intro: safe_ok_or\<close>)

lemma safe_client:
  assumes "clients_ok (fst s)" "\<And>c. bc_id c = i \<Longrightarrow> safe_bk (f c s)"
  shows "safe_bk (bind_bk (get_book_client i (fst s), s) f)"
  using assms clients_ok_lookup [OF assms(1), of i]
  by (cases "map_of (bk_clients (fst s)) i") (simp_all add: get_book_client_def)

section \<open>Channels\<close>

lemma safe_channel_parts:
  assumes "clients_ok (fst s)"
  shows "safe_bk (set_subscribed i v s)"
    "safe_bk (max_clients_ce_fun i m who reason s)"
    "safe_bk (channel_type_ce_fun i perm semi who reason s)"
    "safe_bk (channel_order_move_fun i new_order parent s)"
proof -
  show "safe_bk (set_subscribed i v s)"
    unfolding set_subscribed_def by (rule safe_channel) (simp_all add: assms)
  show "safe_bk (max_clients_ce_fun i m who reason s)"
    unfolding max_clients_ce_fun_def
    by (rule safe_channel [OF assms]; cases "fst (max_clients_cc_fun m)"; cases "snd (max_clients_cc_fun m)")
      (simp_all add: Let_def case_prod_beta assms)
  show "safe_bk (channel_type_ce_fun i perm semi who reason s)"
    unfolding channel_type_ce_fun_def by (rule safe_channel) (simp_all add: assms)
  show "safe_bk (channel_order_move_fun i new_order parent s)"
    unfolding channel_order_move_fun_def
    by (auto simp: Let_def assms intro!: safe_channel split: option.split)
qed

lemma safe_channel_messages:
  assumes "clients_ok (fst s)"
  shows "safe_bk (channel_created c who opt_reason s)" "safe_bk (channel_listed c s)"
    "safe_bk (channel_deleted i who opt_reason s)"
    "safe_bk (channel_moved i order parent who opt_reason s)"
    "safe_bk (channel_edited i m perm semi opt_order opt_parent who reason s)"
proof -
  show "safe_bk (channel_created c who opt_reason s)" "safe_bk (channel_listed c s)"
    using assms by (simp_all add: channel_created_def channel_listed_def channel_order_cc_fun_def add_channel_def Let_def)
  show "safe_bk (channel_deleted i who opt_reason s)"
    using assms by (cases "map_of (bk_channels (fst s)) i") (simp_all add: channel_deleted_def remove_channel_def Let_def)
  show "safe_bk (channel_moved i order parent who opt_reason s)"
    unfolding channel_moved_def
    by (rule safe_bind [OF safe_channel_parts(4) [OF assms]]) (rule safe_channel; simp)
  show "safe_bk (channel_edited i m perm semi opt_order opt_parent who reason s)"
    unfolding channel_edited_def
    by (rule safe_bind [OF safe_channel_parts(2) [OF assms]], rule safe_bind [OF safe_channel_parts(3)])
      (simp_all add: safe_channel_parts)
qed

section \<open>Unsubscribing from a channel\<close>

lemma remove_clients_run:
  assumes "distinct is" "\<forall>i\<in>set is. map_of (bk_clients (fst s)) i \<noteq> None"
  shows "\<exists>s'. remove_clients is s = (Ok (), s') \<and>
    bk_clients (fst s') = filter (\<lambda>(k, _). k \<notin> set is) (bk_clients (fst s)) \<and>
    bk_channels (fst s') = bk_channels (fst s)"
  using assms
proof (induction "is" arbitrary: s)
  case (Cons i "is")
  obtain c where c: "map_of (bk_clients (fst s)) i = Some c" using Cons.prems(2) by auto
  define t where "t = push_event (PropertyRemoved (PropClient i) (ValClient c) None None)
    ((fst s)\<lparr>bk_clients := AList.delete i (bk_clients (fst s))\<rparr>, snd s)"
  have t: "bk_clients (fst t) = AList.delete i (bk_clients (fst s))" "bk_channels (fst t) = bk_channels (fst s)"
    by (simp_all add: t_def push_event_def)
  have "\<forall>j\<in>set is. map_of (bk_clients (fst t)) j \<noteq> None"
    using Cons.prems by (auto simp: t delete_conv')
  then obtain s' where s': "remove_clients is t = (Ok (), s')"
      "bk_clients (fst s') = filter (\<lambda>(k, _). k \<notin> set is) (bk_clients (fst t))"
      "bk_channels (fst s') = bk_channels (fst t)"
    using Cons.IH [of t] Cons.prems(1) by (auto simp del: split_paired_Ex)
  have "remove_clients (i # is) s = (Ok (), s')"
    using s'(1) c by (simp add: remove_client_def t_def)
  moreover have "bk_clients (fst s') = filter (\<lambda>(k, _). k \<notin> set (i # is)) (bk_clients (fst s))"
    using s'(2) t(1) by (auto simp: AList.delete_eq intro!: filter_cong)
  ultimately show ?case using s'(3) t(2) by auto
qed (simp add: case_prod_beta)

lemma ids_of_channel:
  assumes "clients_ok b"
  shows "map (bc_id \<circ> snd) (filter P (bk_clients b)) = map fst (filter P (bk_clients b))"
  using assms by (auto simp: clients_ok_def)

lemma not_in_channel:
  assumes "distinct (map fst kvs)" "(k, c) \<in> set kvs"
  shows "k \<notin> fst ` set (filter (\<lambda>(_, c). P c) kvs) \<longleftrightarrow> \<not> P c"
proof -
  have same: "c' = c" if "(k, c') \<in> set kvs" for c'
    using map_of_is_SomeI [OF assms] map_of_is_SomeI [OF assms(1) that] by simp
  then have "\<exists>c'. (k, c') \<in> set kvs \<and> P c'" if "P c" using that assms(2) by blast
  moreover have "P c" if "(k, c') \<in> set kvs" "P c'" for c' using that same by blast
  ultimately show ?thesis by (auto simp: image_iff)
qed

lemma unsubscribed_run:
  assumes "clients_ok (fst s)" "map_of (bk_channels (fst s)) i = Some ch"
  shows "\<exists>s'. channel_unsubscribe_fun i s = (Ok (), s') \<and>
    bk_clients (fst s') = filter (\<lambda>(_, c). bc_channel c \<noteq> i) (bk_clients (fst s)) \<and>
    map_of (bk_channels (fst s')) = (map_of (bk_channels (fst s)))(i \<mapsto> ch\<lparr>ch_subscribed := False\<rparr>)"
proof -
  define t where "t = set_channel i (ch\<lparr>ch_subscribed := False\<rparr>)
    (push_event (changed (PropChannelSubscribed i) (ValBool (ch_subscribed ch))) s)"
  have t: "set_subscribed i False s = (Ok (), t)" "bk_clients (fst t) = bk_clients (fst s)"
    "map_of (bk_channels (fst t)) = (map_of (bk_channels (fst s)))(i \<mapsto> ch\<lparr>ch_subscribed := False\<rparr>)"
    using assms(2) by (simp_all add: t_def set_subscribed_def get_book_channel_def set_channel_def push_event_def
        update_conv')
  let ?in = "filter (\<lambda>(_, c). bc_channel c = i) (bk_clients (fst t))"
  have d: "distinct (map fst (bk_clients (fst t)))" using assms(1) by (simp add: t clients_ok_def)
  then have "distinct (map fst ?in)" by (rule distinct_map_filter)
  moreover have "\<forall>j\<in>set (map fst ?in). map_of (bk_clients (fst t)) j \<noteq> None"
    using d by auto
  ultimately obtain s' where s': "remove_clients (map fst ?in) t = (Ok (), s')"
      "bk_clients (fst s') = filter (\<lambda>(k, _). k \<notin> set (map fst ?in)) (bk_clients (fst t))"
      "bk_channels (fst s') = bk_channels (fst t)"
    using remove_clients_run by blast
  have "map (bc_id \<circ> snd) ?in = map fst ?in"
    by (rule ids_of_channel) (use assms(1) in \<open>simp add: t clients_ok_def\<close>)
  then have "channel_unsubscribe_fun i s = (Ok (), s')"
    using s'(1) unfolding channel_unsubscribe_fun_def t(1) by (simp del: map_eq_conv)
  moreover have "bk_clients (fst s') = filter (\<lambda>(_, c). bc_channel c \<noteq> i) (bk_clients (fst s))"
    unfolding s'(2) using not_in_channel [OF d, of _ _ "\<lambda>c. bc_channel c = i"] t(2)
    by (auto intro!: filter_cong)
  ultimately show ?thesis using s'(3) t(3) by auto
qed

lemma safe_unsubscribe:
  assumes "clients_ok (fst s)"
  shows "safe_bk (channel_unsubscribe_fun i s)"
proof (cases "map_of (bk_channels (fst s)) i")
  case None
  then show ?thesis using assms by (simp add: channel_unsubscribe_fun_def set_subscribed_def get_book_channel_def)
next
  case (Some ch)
  from unsubscribed_run [OF assms this] obtain s' where "channel_unsubscribe_fun i s = (Ok (), s')"
    "bk_clients (fst s') = filter (\<lambda>(_, c). bc_channel c \<noteq> i) (bk_clients (fst s))" by blast
  then show ?thesis using assms by (auto simp: clients_ok_def distinct_map_filter)
qed

section \<open>Messages about clients\<close>

lemma safe_client_parts:
  assumes "clients_ok (fst s)"
  shows "safe_bk (client_entered c who reason s)"
    "safe_bk (client_left i who opt_reason s)"
    "safe_bk (text_message mode target sender message s)"
    "safe_bk (client_poke sender message s)"
    "safe_bk (subscribe_channel_fun i ch s)"
    "safe_bk (away_cu_fun i is_away msg who s)"
    "safe_bk (talk_power_cu_fun i time msg who s)"
proof -
  show "safe_bk (client_entered c who reason s)"
    using assms by (simp add: client_entered_def add_client_def clients_ok_set)
  show "safe_bk (client_left i who opt_reason s)"
    using assms by (cases "map_of (bk_clients (fst s)) i")
      (simp_all add: client_left_def remove_client_def clients_ok_delete)
  show "safe_bk (text_message mode target sender message s)"
    unfolding text_message_def using assms
    by (cases mode; cases target) simp_all
  show "safe_bk (client_poke sender message s)" using assms by (simp add: client_poke_def)
  show "safe_bk (subscribe_channel_fun i ch s)"
    using assms by (simp add: subscribe_channel_fun_def safe_channel_parts)
  show "safe_bk (away_cu_fun i is_away msg who s)"
    unfolding away_cu_fun_def
    by (rule safe_client) (simp_all add: Let_def assms clients_ok_set split: option.split prod.split)
  show "safe_bk (talk_power_cu_fun i time msg who s)"
    unfolding talk_power_cu_fun_def using assms
    by (auto split: option.split intro!: safe_client clients_ok_set)
qed

lemma safe_client_changes:
  assumes "clients_ok (fst s)"
  shows "safe_bk (client_moved i target who reason s)"
    "safe_bk (client_updated i name is_away msg time request who s)"
proof -
  show "safe_bk (client_moved i target who reason s)"
    unfolding client_moved_def
    by (rule safe_bind [OF safe_client_parts(5) [OF assms]]) (rule safe_client; simp add: clients_ok_set)
  show "safe_bk (client_updated i name is_away msg time request who s)"
    unfolding client_updated_def
    by (rule safe_bind [OF safe_client_parts(6) [OF assms]], rule safe_bind [OF safe_client_parts(7)], assumption)
      (rule safe_client; simp add: clients_ok_set split: option.split)
qed

lemma safe_handle_part: "clients_ok (fst s) \<Longrightarrow> safe_bk (handle_part m s)"
  by (cases m) (simp_all add: safe_channel_messages safe_client_parts safe_client_changes safe_unsubscribe
    safe_channel_parts channel_subscribe_fun_def)

lemma safe_handle_parts: "clients_ok (fst s) \<Longrightarrow> safe_bk (handle_parts ms s)"
  by (induction ms arbitrary: s) (auto intro!: safe_bind safe_handle_part)

lemma safe_rename_invoker:
  assumes "clients_ok (fst s)"
  shows "clients_ok (fst (rename_invoker s))"
  using assms clients_ok_lookup [OF assms]
  by (auto simp: rename_invoker_def intro!: clients_ok_set split: list.split option.split)

section \<open>Properties\<close>

lemma remove_clients_events: "\<exists>es. snd (snd (remove_clients is s)) = snd s @ es"
proof (induction "is" arbitrary: s)
  case (Cons i "is")
  show ?case
  proof (cases "map_of (bk_clients (fst s)) i")
    case None
    then show ?thesis by (simp add: remove_client_def)
  next
    case (Some c)
    define t where "t = push_event (PropertyRemoved (PropClient i) (ValClient c) None None)
      ((fst s)\<lparr>bk_clients := AList.delete i (bk_clients (fst s))\<rparr>, snd s)"
    have "remove_clients (i # is) s = remove_clients is t" using Some by (simp add: remove_client_def t_def)
    moreover have "\<exists>es. snd t = snd s @ es" by (simp add: t_def push_event_def)
    ultimately show ?thesis using Cons.IH [of t] by auto
  qed
qed simp

lemma unsubscribe_events:
  assumes "channel_unsubscribe_fun i (b, []) = (Ok (), s')"
  shows "rename_invoker s' = s'"
proof -
  obtain ch where ch: "map_of (bk_channels b) i = Some ch"
    using assms by (cases "map_of (bk_channels b) i")
      (simp_all add: channel_unsubscribe_fun_def set_subscribed_def get_book_channel_def)
  define t where "t = set_channel i (ch\<lparr>ch_subscribed := False\<rparr>)
    (push_event (changed (PropChannelSubscribed i) (ValBool (ch_subscribed ch))) (b, []))"
  have "set_subscribed i False (b, []) = (Ok (), t)"
    using ch by (simp add: t_def set_subscribed_def get_book_channel_def)
  then have "s' = snd (remove_clients
      (map (bc_id \<circ> snd) (filter (\<lambda>(_, c). bc_channel c = i) (bk_clients (fst t)))) t)"
    using assms by (simp add: channel_unsubscribe_fun_def)
  then obtain es where "snd s' = snd t @ es" using remove_clients_events by metis
  then have "snd s' = changed (PropChannelSubscribed i) (ValBool (ch_subscribed ch)) # es"
    by (simp add: t_def set_channel_def push_event_def)
  then show ?thesis by (simp add: rename_invoker_def changed_def)
qed

text \<open>
  C30: No message makes the book panic. When every client is stored under its own id, handling a message
  with any parts ends with events or with an error, and every client still is stored under its id;
  unsubscribing from a known channel succeeds and forgets exactly the clients in it.
\<close>

theorem book_clients_safe:
  assumes "clients_ok b"
  shows "fst (book_handle_command ms b) \<noteq> Panic \<and> clients_ok (snd (book_handle_command ms b)) \<and>
    (map_of (bk_channels b) i \<noteq> None \<longrightarrow>
      (\<exists>evs. fst (book_handle_command [InChannelUnsubscribed i] b) = Ok evs) \<and>
      bk_clients (snd (book_handle_command [InChannelUnsubscribed i] b)) =
        filter (\<lambda>(_, c). bc_channel c \<noteq> i) (bk_clients b))"
proof (intro conjI impI)
  have safe: "safe_bk (handle_parts ms (b, []))" by (rule safe_handle_parts) (simp add: assms)
  obtain r t where t: "handle_parts ms (b, []) = (r, t)" by (cases "handle_parts ms (b, [])")
  show "fst (book_handle_command ms b) \<noteq> Panic" "clients_ok (snd (book_handle_command ms b))"
    using safe by (cases r; simp add: book_handle_command_def t safe_bk_def safe_rename_invoker)+
next
  assume "map_of (bk_channels b) i \<noteq> None"
  then obtain ch where "map_of (bk_channels (fst (b, []))) i = Some ch" by auto
  then obtain s' where s': "channel_unsubscribe_fun i (b, []) = (Ok (), s')"
      "bk_clients (fst s') = filter (\<lambda>(_, c). bc_channel c \<noteq> i) (bk_clients b)"
    using unsubscribed_run [of "(b, [])" i ch] assms by fastforce
  then show "\<exists>evs. fst (book_handle_command [InChannelUnsubscribed i] b) = Ok evs"
      "bk_clients (snd (book_handle_command [InChannelUnsubscribed i] b)) =
        filter (\<lambda>(_, c). bc_channel c \<noteq> i) (bk_clients b)"
    using unsubscribe_events [OF s'(1)] by (simp_all add: book_handle_command_def)
qed

text \<open>Two clients in two channels.\<close>

theorem book_clients_safe_witness:
  "let c = (\<lambda>i ch. \<lparr>bc_id = i, bc_channel = ch, bc_name = [65], bc_away_message = None,
         bc_client_type = NormalClient, bc_talk_power_request = None\<rparr>);
       ch = (\<lambda>i. \<lparr>ch_id = i, ch_parent = 0, ch_order = 0, ch_max_clients = None,
         ch_max_family_clients = None, ch_channel_type = Permanent, ch_subscribed = True\<rparr>);
       b = \<lparr>own_client = 1, bk_channels = [(7, ch 7)], bk_clients = [(1, c 1 9), (2, c 2 7)]\<rparr>
   in fst (book_handle_command [InClientLeftView 3 None None] b) \<noteq> Panic \<and>
      bk_clients (snd (book_handle_command [InChannelUnsubscribed 7] b)) = [(1, c 1 9)]"
proof -
  define c :: "u16 \<Rightarrow> u64 \<Rightarrow> book_client" where "c = (\<lambda>i ch. \<lparr>bc_id = i, bc_channel = ch, bc_name = [65],
    bc_away_message = None, bc_client_type = NormalClient, bc_talk_power_request = None\<rparr>)"
  define ch :: "u64 \<Rightarrow> channel" where "ch = (\<lambda>i. \<lparr>ch_id = i, ch_parent = 0, ch_order = 0,
    ch_max_clients = None, ch_max_family_clients = None, ch_channel_type = Permanent, ch_subscribed = True\<rparr>)"
  let ?b = "\<lparr>own_client = 1, bk_channels = [(7, ch 7)], bk_clients = [(1, c 1 9), (2, c 2 7)]\<rparr>"
  have "clients_ok ?b" by (simp add: clients_ok_def c_def)
  from book_clients_safe [OF this, of "[InClientLeftView 3 None None]" 7]
  show ?thesis unfolding c_def [symmetric] ch_def [symmetric] Let_def by (simp add: c_def)
qed



end
