(* ===== verification/Identity.thy ===== *)
theory Identity
  imports License
begin

text \<open>
  The key formats (\<open>tsproto-types/src/crypto.rs\<close>): P-256 keys as raw bytes, as tomcrypt objects, in
  base64 and as obfuscated identities, and the import that tries them in turn. The curve, the hash,
  base64 and the DER coding come from other crates and are the fields of a record; a key is what the
  curve makes of its bytes.
\<close>

section \<open>Data\<close>

datatype key_error =
    TooManyAsn1Blocks
  | UnexpectedPrivateKey
  | NoPrivateKey
  | PublicKeyNotFound
  | ExpectedBitString
  | ExpectedSequence
  | EmptyKeyData
  | KeyDecodeError
  | NoShortKey
  | NoObfuscatedKey
  | ParsePublicKeyFailed
  | WrongKeyLength
  | WrongPublicKeyLength nat nat
  | WrongSignature
  | Asn1Decode
  | Base64Error
  | Utf8Error

text \<open>The blocks of \<open>simple_asn1\<close> that the code builds or matches.\<close>

datatype asn1_block =
    Asn1Sequence "asn1_block list"
  | Asn1BitString nat bytes
  | Asn1Integer int
  | Asn1Other

definition IDENTITY_OBFUSCATION :: bytes where
  "IDENTITY_OBFUSCATION =
     bstr ''b9dfaa7bee6ac57ac7b65f1094a1c155'' @ bstr ''e747327bc2fe5d51c512023fe54a280201004e90ad1daaae1075d53b7d571c30e063b5a''
       @ bstr ''62a4a017bb394833aa0983e6e''"

record ('p, 's) key_env =
  ke_b64_encode :: "bytes \<Rightarrow> bytes"
  ke_b64_decode :: "bytes \<Rightarrow> bytes option"
  ke_sha1 :: "bytes \<Rightarrow> bytes"
  ke_from_der :: "bytes \<Rightarrow> asn1_block list option"
  ke_to_der :: "asn1_block \<Rightarrow> bytes option"
  ke_from_sec1 :: "bytes \<Rightarrow> 'p option"
  ke_to_sec1 :: "'p \<Rightarrow> bytes"
  ke_from_affine :: "bytes \<Rightarrow> bytes \<Rightarrow> 'p option"
  ke_to_affine :: "'p \<Rightarrow> bytes \<times> bytes"
  ke_secret_from :: "bytes \<Rightarrow> 's option"
  ke_secret_bytes :: "'s \<Rightarrow> bytes"
  ke_public_of :: "'s \<Rightarrow> 'p"
  ke_verify :: "'p \<Rightarrow> bytes \<Rightarrow> bytes \<Rightarrow> bool"

section \<open>Numbers\<close>

text \<open>\<open>BigInt::from_bytes_be(Sign::Plus, _)\<close> and the magnitude \<open>to_bytes_be().1\<close>, which has no leading zeros.\<close>

definition from_bytes_be :: "bytes \<Rightarrow> int" where
  "from_bytes_be bs = int (be_val bs)"

definition magnitude_be :: "int \<Rightarrow> bytes" where
  "magnitude_be i = rev (to_bytes_le (nat \<bar>i\<bar>))"

section \<open>Public keys\<close>

definition pub_from_short :: "('p, 's) key_env \<Rightarrow> bytes \<Rightarrow> (key_error, 'p) outcome" where
  "pub_from_short env data = ok_or ParsePublicKeyFailed (ke_from_sec1 env data)"

text \<open>\<open>blocks.get(i)\<close> as an integer.\<close>

definition get_integer :: "asn1_block list \<Rightarrow> nat \<Rightarrow> int option" where
  "get_integer blocks i =
     (if i < length blocks then (case blocks ! i of Asn1Integer n \<Rightarrow> Some n | _ \<Rightarrow> None) else None)"

definition sequence_of :: "asn1_block list \<Rightarrow> (key_error, asn1_block list) outcome" where
  "sequence_of blocks =
     (if length blocks \<noteq> 1 then Err TooManyAsn1Blocks
      else case blocks ! 0 of Asn1Sequence bs \<Rightarrow> Ok bs | _ \<Rightarrow> Err ExpectedSequence)"

definition first_bits :: "asn1_block list \<Rightarrow> (key_error, nat \<times> bytes) outcome" where
  "first_bits blocks =
     (case blocks of Asn1BitString n content # _ \<Rightarrow> Ok (n, content) | _ \<Rightarrow> Err ExpectedBitString)"

definition affine_key :: "('p, 's) key_env \<Rightarrow> int \<Rightarrow> int \<Rightarrow> (key_error, 'p) outcome" where
  "affine_key env x y =
     (let x_bytes = magnitude_be x; y_bytes = magnitude_be y in
      if length x_bytes \<noteq> 32 then Err (WrongPublicKeyLength 32 (length x_bytes))
      else if length y_bytes \<noteq> 32 then Err (WrongPublicKeyLength 32 (length y_bytes))
      else ok_or ParsePublicKeyFailed (ke_from_affine env x_bytes y_bytes))"

definition pub_from_tomcrypt :: "('p, 's) key_env \<Rightarrow> bytes \<Rightarrow> (key_error, 'p) outcome" where
  "pub_from_tomcrypt env data =
     bind_out (ok_or Asn1Decode (ke_from_der env data)) (\<lambda>blocks.
     bind_out (sequence_of blocks) (\<lambda>blocks.
     bind_out (first_bits blocks) (\<lambda>(len, content).
       let key =
         (case (get_integer blocks 2, get_integer blocks 3) of
            (Some x, Some y) \<Rightarrow> affine_key env x y
          | _ \<Rightarrow> Err PublicKeyNotFound)
       in if len \<noteq> 1 then Err UnexpectedPrivateKey
          else bind_out (index content 0) (\<lambda>c. if c AND 0x80 \<noteq> 0 then Err UnexpectedPrivateKey else key))))"

definition pub_from_ts :: "('p, 's) key_env \<Rightarrow> bytes \<Rightarrow> (key_error, 'p) outcome" where
  "pub_from_ts env data = bind_out (ok_or Base64Error (ke_b64_decode env data)) (pub_from_tomcrypt env)"

definition pub_block :: "('p, 's) key_env \<Rightarrow> 'p \<Rightarrow> asn1_block" where
  "pub_block env p =
     (let (x, y) = ke_to_affine env p in
      Asn1Sequence [Asn1BitString 1 [0], Asn1Integer 32, Asn1Integer (from_bytes_be x),
        Asn1Integer (from_bytes_be y)])"

definition pub_to_tomcrypt :: "('p, 's) key_env \<Rightarrow> 'p \<Rightarrow> (key_error, bytes) outcome" where
  "pub_to_tomcrypt env p = unwrap (ke_to_der env (pub_block env p))"

definition pub_to_ts :: "('p, 's) key_env \<Rightarrow> 'p \<Rightarrow> (key_error, bytes) outcome" where
  "pub_to_ts env p = bind_out (pub_to_tomcrypt env p) (\<lambda>d. Ok (ke_b64_encode env d))"

definition pub_to_short :: "('p, 's) key_env \<Rightarrow> 'p \<Rightarrow> bytes" where
  "pub_to_short env p = ke_to_sec1 env p"

definition get_uid_no_base64 :: "('p, 's) key_env \<Rightarrow> 'p \<Rightarrow> (key_error, bytes) outcome" where
  "get_uid_no_base64 env p = bind_out (pub_to_ts env p) (\<lambda>s. Ok (ke_sha1 env s))"

definition get_uid :: "('p, 's) key_env \<Rightarrow> 'p \<Rightarrow> (key_error, bytes) outcome" where
  "get_uid env p = bind_out (get_uid_no_base64 env p) (\<lambda>d. Ok (ke_b64_encode env d))"

definition pub_verify :: "('p, 's) key_env \<Rightarrow> 'p \<Rightarrow> bytes \<Rightarrow> bytes \<Rightarrow> (key_error, unit) outcome" where
  "pub_verify env p data signature = (if ke_verify env p data signature then Ok () else Err WrongSignature)"

definition encode_password :: "('p, 's) key_env \<Rightarrow> bytes \<Rightarrow> bytes" where
  "encode_password env password = ke_b64_encode env (ke_sha1 env password)"

section \<open>Private keys\<close>

definition priv_from_short :: "('p, 's) key_env \<Rightarrow> bytes \<Rightarrow> (key_error, 's) outcome" where
  "priv_from_short env data =
     (if length data \<noteq> 32 then Err NoShortKey else ok_or NoShortKey (ke_secret_from env data))"

definition priv_to_short :: "('p, 's) key_env \<Rightarrow> 's \<Rightarrow> bytes" where
  "priv_to_short env k = ke_secret_bytes env k"

definition priv_from_tomcrypt :: "('p, 's) key_env \<Rightarrow> bytes \<Rightarrow> (key_error, 's) outcome" where
  "priv_from_tomcrypt env data =
     bind_out (ok_or Asn1Decode (ke_from_der env data)) (\<lambda>blocks.
     bind_out (sequence_of blocks) (\<lambda>blocks.
     bind_out (first_bits blocks) (\<lambda>(len, content).
       let key = (\<lambda>i. case get_integer blocks i of
           Some n \<Rightarrow> priv_from_short env (magnitude_be n)
         | None \<Rightarrow> Err NoPrivateKey)
       in if len \<noteq> 1 \<and> len \<noteq> 2 then Err NoPrivateKey
          else bind_out (index content 0) (\<lambda>c.
            if c AND 0x80 = 0 then Err NoPrivateKey else if len = 1 then key 4 else key 2))))"

definition priv_from_ts :: "('p, 's) key_env \<Rightarrow> bytes \<Rightarrow> (key_error, 's) outcome" where
  "priv_from_ts env data = bind_out (ok_or Base64Error (ke_b64_decode env data)) (priv_from_tomcrypt env)"

definition priv_block :: "('p, 's) key_env \<Rightarrow> 's \<Rightarrow> asn1_block" where
  "priv_block env k =
     (let (x, y) = ke_to_affine env (ke_public_of env k) in
      Asn1Sequence [Asn1BitString 1 [0x80], Asn1Integer 32, Asn1Integer (from_bytes_be x),
        Asn1Integer (from_bytes_be y), Asn1Integer (from_bytes_be (ke_secret_bytes env k))])"

definition priv_to_tomcrypt :: "('p, 's) key_env \<Rightarrow> 's \<Rightarrow> (key_error, bytes) outcome" where
  "priv_to_tomcrypt env k = unwrap (ke_to_der env (priv_block env k))"

definition priv_to_ts :: "('p, 's) key_env \<Rightarrow> 's \<Rightarrow> (key_error, bytes) outcome" where
  "priv_to_ts env k = bind_out (priv_to_tomcrypt env k) (\<lambda>d. Ok (ke_b64_encode env d))"

section \<open>Obfuscated identities\<close>

text \<open>\<open>data[i] ^= stream[i]\<close> for the first \<open>n\<close> bytes.\<close>

definition xor_first :: "nat \<Rightarrow> bytes \<Rightarrow> bytes \<Rightarrow> (key_error, bytes) outcome" where
  "xor_first n stream data =
     (if n \<le> length data \<and> n \<le> length stream
      then Ok (map2 (XOR) (take n data) (take n stream) @ drop n data) else Panic)"

text \<open>The bytes from the 20th to the first zero.\<close>

definition hashed_part :: "bytes \<Rightarrow> bytes" where
  "hashed_part data = takeWhile (\<lambda>b. b \<noteq> 0) (drop 20 data)"

definition priv_from_ts_obfuscated :: "('p, 's) key_env \<Rightarrow> bytes \<Rightarrow> (key_error, 's) outcome" where
  "priv_from_ts_obfuscated env data =
     bind_out (ok_or Base64Error (ke_b64_decode env data)) (\<lambda>data.
       if length data < 20 then Err NoObfuscatedKey
       else
         bind_out (xor_first 20 (ke_sha1 env (hashed_part data)) data) (\<lambda>data.
         bind_out (xor_first (min (length data) 100) IDENTITY_OBFUSCATION data) (\<lambda>data.
           if utf8_valid data then priv_from_ts env data else Err Utf8Error)))"

definition priv_to_ts_obfuscated :: "('p, 's) key_env \<Rightarrow> 's \<Rightarrow> (key_error, bytes) outcome" where
  "priv_to_ts_obfuscated env k =
     bind_out (priv_to_ts env k) (\<lambda>data.
     bind_out (xor_first (min (length data) 100) IDENTITY_OBFUSCATION data) (\<lambda>data.
       if length data < 20 then Panic
       else
         bind_out (xor_first 20 (ke_sha1 env (hashed_part data)) data) (\<lambda>data.
           Ok (ke_b64_encode env data))))"

section \<open>Import\<close>

text \<open>
  \<open>import\<close> and \<open>import_str\<close> call each other; \<open>n\<close> bounds the number of calls, \<open>None\<close> is a bound that
  was too small.
\<close>

fun is_ok :: "('e, 'a) outcome \<Rightarrow> bool" where
  "is_ok (Ok x) = True"
| "is_ok _ = False"

text \<open>The first result that is \<open>Ok\<close>; a panic ends the import.\<close>

fun first_ok :: "('e, 'a) outcome list \<Rightarrow> 'e \<Rightarrow> ('e, 'a) outcome" where
  "first_ok [] e = Err e"
| "first_ok (Ok x # rs) e = Ok x"
| "first_ok (Err _ # rs) e = first_ok rs e"
| "first_ok (Panic # rs) e = Panic"

fun import_key :: "('p, 's) key_env \<Rightarrow> nat \<Rightarrow> bytes \<Rightarrow> (key_error, 's) outcome option"
  and import_str :: "('p, 's) key_env \<Rightarrow> nat \<Rightarrow> bytes \<Rightarrow> (key_error, 's) outcome option" where
  "import_key env 0 data = None"
| "import_key env (Suc n) data =
     (if data = [] then Some (Err EmptyKeyData)
      else
        let rest = [priv_from_tomcrypt env data, priv_from_short env data]
        in if utf8_valid data then
             (case import_str env n data of
                None \<Rightarrow> None
              | Some r \<Rightarrow> Some (first_ok (r # rest) KeyDecodeError))
           else Some (first_ok rest KeyDecodeError))"
| "import_str env 0 s = None"
| "import_str env (Suc n) s =
     (case ke_b64_decode env s of
        None \<Rightarrow> Some (first_ok [priv_from_ts_obfuscated env s] KeyDecodeError)
      | Some r \<Rightarrow>
          (case import_key env n r of
             None \<Rightarrow> None
           | Some res \<Rightarrow> Some (first_ok [res, priv_from_ts_obfuscated env s] KeyDecodeError)))"

section \<open>Ed25519 keys\<close>

text \<open>A public key is its compressed point, a private key a scalar with its 32 bytes.\<close>

definition ed_pub_from_base64 :: "('p, 's) key_env \<Rightarrow> bytes \<Rightarrow> (key_error, bytes) outcome" where
  "ed_pub_from_base64 env data =
     bind_out (ok_or Base64Error (ke_b64_decode env data)) (\<lambda>d.
       if length d \<noteq> 32 then Err WrongKeyLength else Ok d)"

definition ed_pub_to_base64 :: "('p, 's) key_env \<Rightarrow> bytes \<Rightarrow> bytes" where
  "ed_pub_to_base64 env key = ke_b64_encode env key"

definition ed_priv_from_base64 ::
  "(bytes \<Rightarrow> 'x) \<Rightarrow> ('p, 's) key_env \<Rightarrow> bytes \<Rightarrow> (key_error, 'x) outcome" where
  "ed_priv_from_base64 from_bytes_mod_order env data =
     bind_out (ok_or Base64Error (ke_b64_decode env data)) (\<lambda>d.
       if length d \<noteq> 32 then Err WrongKeyLength else Ok (from_bytes_mod_order d))"

section \<open>The magnitude of a number\<close>

lemma last_to_bytes_le_loop: "n \<noteq> 0 \<Longrightarrow> last (to_bytes_le_loop n) \<noteq> 0"
proof (induction n rule: to_bytes_le_loop.induct)
  case (1 n)
  show ?case
  proof (cases "n div 256 = 0")
    case True
    then have "n < 256" by simp
    with 1(2) have "(of_nat n :: u8) \<noteq> 0"
      by (metis mod_less unat_of_nat_u8 unsigned_0)
    then show ?thesis using True 1(2) by (simp add: to_bytes_le_loop.simps [of n] to_bytes_le_loop.simps [of 0])
  next
    case False
    then have "to_bytes_le_loop (n div 256) \<noteq> []" by (simp add: to_bytes_le_loop.simps [of "n div 256"])
    then show ?thesis using 1 False by (simp add: to_bytes_le_loop.simps [of n])
  qed
qed

text \<open>A number written without its leading zeros has as many bytes as before exactly when there is none.\<close>

lemma magnitude_from_bytes:
  assumes "2 \<le> length bs"
  shows "if hd bs = 0 then length (magnitude_be (from_bytes_be bs)) < length bs
    else magnitude_be (from_bytes_be bs) = bs"
proof (cases "be_val bs = 0")
  case True
  have "bs = replicate (length bs) 0"
    using be_bytes_be_val [of bs] to_bytes_le_loop_be [of 0 "length bs"] True
    by (simp add: to_bytes_le_loop.simps)
  then have "hd bs = 0" using assms by (metis hd_replicate length_0_conv not_numeral_le_zero)
  then show ?thesis using assms True by (simp add: magnitude_be_def from_bytes_be_def to_bytes_le_def)
next
  case False
  let ?v = "to_bytes_le_loop (be_val bs)"
  have m: "magnitude_be (from_bytes_be bs) = rev ?v"
    using False by (simp add: magnitude_be_def from_bytes_be_def to_bytes_le_def)
  have v: "length ?v \<le> length bs" "replicate (length bs - length ?v) 0 @ rev ?v = bs"
    using to_bytes_le_loop_be [OF be_val_bound [of bs]] be_bytes_be_val [of bs] by simp_all
  have ne: "?v \<noteq> []" using False by (simp add: to_bytes_le_loop.simps)
  show ?thesis
  proof (cases "length ?v = length bs")
    case True
    then have "rev ?v = bs" using v(2) by simp
    moreover from this have "hd bs \<noteq> 0" using last_to_bytes_le_loop [OF False] ne by (metis hd_rev)
    ultimately show ?thesis by (simp add: m)
  next
    case short: False
    then obtain k where "length bs - length ?v = Suc k" using v(1) by (metis Suc_diff_Suc le_neq_implies_less)
    then have "hd bs = 0" using v(2) by (metis append_Cons list.sel(1) replicate_Suc)
    then show ?thesis using short v(1) by (simp add: m)
  qed
qed

section \<open>Obfuscation\<close>

lemma length_IDENTITY_OBFUSCATION: "length IDENTITY_OBFUSCATION = 128"
  by (simp add: IDENTITY_OBFUSCATION_def)

lemma xor_first_Ok:
  assumes "n \<le> length data" "n \<le> length stream"
  shows "xor_first n stream data = Ok (map2 (XOR) (take n data) (take n stream) @ drop n data)"
  using assms by (simp add: xor_first_def)

lemma map2_xor_twice:
  "length xs = length ys \<Longrightarrow> map2 (XOR) (map2 (XOR) xs ys) ys = (xs :: bytes)"
  by (induction xs ys rule: list_induct2) (simp_all add: xor.assoc)

lemma xor_first_twice:
  assumes "xor_first n stream data = Ok out"
  shows "xor_first n stream out = Ok data" "length out = length data" "drop n out = drop n data"
proof -
  have n: "n \<le> length data" "n \<le> length stream" using assms by (auto simp: xor_first_def split: if_splits)
  have out: "out = map2 (XOR) (take n data) (take n stream) @ drop n data"
    using assms n by (simp add: xor_first_Ok)
  show l: "length out = length data" using n by (simp add: out)
  show d: "drop n out = drop n data" using n by (simp add: out)
  have "take n out = map2 (XOR) (take n data) (take n stream)" using n by (simp add: out)
  moreover have "map2 (XOR) (map2 (XOR) (take n data) (take n stream)) (take n stream) = take n data"
    by (rule map2_xor_twice) (use n in simp)
  ultimately show "xor_first n stream out = Ok data" using n l d by (simp add: xor_first_Ok)
qed

section \<open>Properties\<close>

text \<open>What the code relies on: base64 and DER are read back, and the keys and hashes have their length.\<close>

definition base64_laws :: "('p, 's) key_env \<Rightarrow> bool" where
  "base64_laws env \<longleftrightarrow>
     (\<forall>x. ke_b64_decode env (ke_b64_encode env x) = Some x \<and> utf8_valid (ke_b64_encode env x))"

definition der_laws :: "('p, 's) key_env \<Rightarrow> asn1_block \<Rightarrow> bytes \<Rightarrow> bool" where
  "der_laws env b d \<longleftrightarrow> ke_to_der env b = Some d \<and> ke_from_der env d = Some [b]"

definition secret_laws :: "('p, 's) key_env \<Rightarrow> 's \<Rightarrow> bool" where
  "secret_laws env k \<longleftrightarrow> length (ke_secret_bytes env k) = 32 \<and>
     ke_secret_from env (ke_secret_bytes env k) = Some k"

definition point_laws :: "('p, 's) key_env \<Rightarrow> 'p \<Rightarrow> bool" where
  "point_laws env p \<longleftrightarrow> (case ke_to_affine env p of (x, y) \<Rightarrow>
     length x = 32 \<and> length y = 32 \<and> ke_from_affine env x y = Some p)"

lemma priv_from_tomcrypt_block:
  assumes "der_laws env (priv_block env k) d" "secret_laws env k"
  shows "priv_from_tomcrypt env d = (if hd (ke_secret_bytes env k) = 0 then Err NoShortKey else Ok k)"
proof -
  obtain x y where xy: "ke_to_affine env (ke_public_of env k) = (x, y)" by fastforce
  have "priv_from_tomcrypt env d = priv_from_short env (magnitude_be (from_bytes_be (ke_secret_bytes env k)))"
    using assms(1) by (simp add: priv_from_tomcrypt_def der_laws_def priv_block_def xy sequence_of_def
        first_bits_def get_integer_def index_def)
  then show ?thesis
    using assms(2) magnitude_from_bytes [of "ke_secret_bytes env k"]
    by (auto simp: priv_from_short_def secret_laws_def split: if_splits)
qed

lemma pub_from_tomcrypt_block:
  assumes "der_laws env (pub_block env p) d" "point_laws env p" "ke_to_affine env p = (x, y)"
  shows "if hd x \<noteq> 0 \<and> hd y \<noteq> 0 then pub_from_tomcrypt env d = Ok p
    else \<exists>n < 32. pub_from_tomcrypt env d = Err (WrongPublicKeyLength 32 n)"
proof -
  have "pub_from_tomcrypt env d = affine_key env (from_bytes_be x) (from_bytes_be y)"
    using assms(1,3) by (simp add: pub_from_tomcrypt_def der_laws_def pub_block_def sequence_of_def
        first_bits_def get_integer_def index_def)
  then show ?thesis
    using assms(2,3) magnitude_from_bytes [of x] magnitude_from_bytes [of y]
    by (auto simp: affine_key_def point_laws_def Let_def split: if_splits)
qed

lemma obfuscated_roundtrip:
  assumes b64: "base64_laws env" and sha: "\<And>x. length (ke_sha1 env x) = 20"
    and ts: "priv_to_ts env k = Ok ts" "20 \<le> length ts" "utf8_valid ts"
  shows "\<exists>s. priv_to_ts_obfuscated env k = Ok s \<and> priv_from_ts_obfuscated env s = priv_from_ts env ts"
proof -
  obtain d1 where d1: "xor_first (min (length ts) 100) IDENTITY_OBFUSCATION ts = Ok d1"
    using xor_first_Ok [of "min (length ts) 100" ts IDENTITY_OBFUSCATION] length_IDENTITY_OBFUSCATION by simp
  have l1: "length d1 = length ts" by (rule xor_first_twice(2) [OF d1])
  obtain d2 where d2: "xor_first 20 (ke_sha1 env (hashed_part d1)) d1 = Ok d2"
    using ts(2) l1 sha by (simp add: xor_first_def)
  have l2: "length d2 = length ts" using xor_first_twice(2) [OF d2] l1 by simp
  have h: "hashed_part d2 = hashed_part d1" using xor_first_twice(3) [OF d2] by (simp add: hashed_part_def)
  have "priv_to_ts_obfuscated env k = Ok (ke_b64_encode env d2)"
    using ts(1,2) d1 d2 l1 by (simp add: priv_to_ts_obfuscated_def)
  moreover have "priv_from_ts_obfuscated env (ke_b64_encode env d2) = priv_from_ts env ts"
    using b64 ts(2,3) l1 l2 xor_first_twice(1) [OF d1] xor_first_twice(1) [OF d2]
    by (simp add: priv_from_ts_obfuscated_def base64_laws_def h)
  ultimately show ?thesis by blast
qed

text \<open>
  C21: Keys survive their formats unless a number has a leading zero byte. Given that base64 and DER are
  read back, a private key that is stored as an obfuscated identity is read back if the first byte of
  its number is not zero, and is refused otherwise; a public key in base64 is read back exactly if
  neither of its coordinates starts with a zero byte, and refused as too short otherwise.
\<close>

theorem keys_read_back:
  assumes "base64_laws env" "\<And>x. length (ke_sha1 env x) = 20"
    and "der_laws env (priv_block env k) d" "secret_laws env k" "20 \<le> length (ke_b64_encode env d)"
    and "der_laws env (pub_block env p) e" "point_laws env p" "ke_to_affine env p = (x, y)"
  shows "(\<exists>s. priv_to_ts_obfuscated env k = Ok s \<and> priv_from_ts_obfuscated env s =
      (if hd (ke_secret_bytes env k) = 0 then Err NoShortKey else Ok k)) \<and>
    (\<exists>s. pub_to_ts env p = Ok s \<and>
      (if hd x \<noteq> 0 \<and> hd y \<noteq> 0 then pub_from_ts env s = Ok p
       else \<exists>n < 32. pub_from_ts env s = Err (WrongPublicKeyLength 32 n)))"
proof
  have b64: "ke_b64_decode env (ke_b64_encode env z) = Some z" "utf8_valid (ke_b64_encode env z)" for z
    using assms(1) by (simp_all add: base64_laws_def)
  have "priv_to_ts env k = Ok (ke_b64_encode env d)"
    using assms(3) by (simp add: priv_to_ts_def priv_to_tomcrypt_def der_laws_def)
  then obtain s where "priv_to_ts_obfuscated env k = Ok s"
      "priv_from_ts_obfuscated env s = priv_from_ts env (ke_b64_encode env d)"
    using obfuscated_roundtrip [OF assms(1,2)] assms(5) b64(2) by blast
  then show "\<exists>s. priv_to_ts_obfuscated env k = Ok s \<and> priv_from_ts_obfuscated env s =
      (if hd (ke_secret_bytes env k) = 0 then Err NoShortKey else Ok k)"
    using priv_from_tomcrypt_block [OF assms(3,4)] b64(1) by (simp add: priv_from_ts_def)
  have "pub_to_ts env p = Ok (ke_b64_encode env e)"
    using assms(6) by (simp add: pub_to_ts_def pub_to_tomcrypt_def der_laws_def)
  then show "\<exists>s. pub_to_ts env p = Ok s \<and>
      (if hd x \<noteq> 0 \<and> hd y \<noteq> 0 then pub_from_ts env s = Ok p
       else \<exists>n < 32. pub_from_ts env s = Err (WrongPublicKeyLength 32 n))"
    using pub_from_tomcrypt_block [OF assms(6-8)] b64(1) by (simp add: pub_from_ts_def)
qed

text \<open>
  A key of the number that starts with the byte 1, in an environment where base64 of \<open>x\<close> is a run of
  as many letters as the number \<open>1 x\<close> and two DER objects are known.
\<close>

definition sample_env :: "(unit, unit) key_env" where
  "sample_env =
     (let x = 1 # replicate 31 (0 :: u8);
          priv = Asn1Sequence [Asn1BitString 1 [0x80], Asn1Integer 32, Asn1Integer (from_bytes_be x),
            Asn1Integer (from_bytes_be x), Asn1Integer (from_bytes_be x)];
          pub = Asn1Sequence [Asn1BitString 1 [0], Asn1Integer 32, Asn1Integer (from_bytes_be x),
            Asn1Integer (from_bytes_be x)]
      in \<lparr>ke_b64_encode = (\<lambda>x. replicate (be_val (1 # x)) 65),
          ke_b64_decode = (\<lambda>s. Some (tl (magnitude_be (int (length s))))),
          ke_sha1 = (\<lambda>_. replicate 20 7),
          ke_from_der = (\<lambda>d. if d = [1, 0] then Some [priv] else if d = [2, 0] then Some [pub] else None),
          ke_to_der = (\<lambda>b. if b = priv then Some [1, 0] else if b = pub then Some [2, 0] else None),
          ke_from_sec1 = (\<lambda>_. None), ke_to_sec1 = (\<lambda>_. []),
          ke_from_affine = (\<lambda>_ _. Some ()), ke_to_affine = (\<lambda>_. (x, x)),
          ke_secret_from = (\<lambda>_. Some ()), ke_secret_bytes = (\<lambda>_. x),
          ke_public_of = (\<lambda>_. ()), ke_verify = (\<lambda>_ _ _. False)\<rparr>)"

lemma utf8_valid_letters: "utf8_valid (replicate n 65)"
proof (induction n)
  case (Suc n)
  then show ?case by (subst utf8_valid.simps) (simp add: utf8_width_def utf8_sequence_def)
qed (simp add: utf8_valid.simps)

lemma sample_base64: "base64_laws sample_env"
proof -
  have "tl (magnitude_be (int (be_val (1 # x)))) = x" for x :: bytes
  proof (cases x)
    case Nil
    then show ?thesis
      by (simp add: magnitude_be_def to_bytes_le_def be_val_def to_bytes_le_loop.simps [of "Suc 0"] to_bytes_le_loop.simps [of 0])
  next
    case (Cons a as)
    then show ?thesis using magnitude_from_bytes [of "1 # x"] by (simp add: from_bytes_be_def)
  qed
  then show ?thesis by (simp add: base64_laws_def sample_env_def Let_def utf8_valid_letters)
qed

theorem keys_read_back_witness:
  "\<exists>s. priv_to_ts_obfuscated sample_env () = Ok s \<and> priv_from_ts_obfuscated sample_env s = Ok ()"
proof -
  have "hd (ke_secret_bytes sample_env ()) \<noteq> 0" by (simp add: sample_env_def Let_def)
  moreover have "length (ke_sha1 sample_env x) = 20" for x by (simp add: sample_env_def Let_def)
  moreover have "der_laws sample_env (priv_block sample_env ()) [1, 0]"
    "der_laws sample_env (pub_block sample_env ()) [2, 0]"
    by (simp_all add: der_laws_def priv_block_def pub_block_def sample_env_def Let_def del: replicate.simps)
  moreover have "secret_laws sample_env ()" "point_laws sample_env ()"
    by (simp_all add: secret_laws_def point_laws_def sample_env_def Let_def)
  moreover have "20 \<le> length (ke_b64_encode sample_env [1, 0])"
    by (simp add: sample_env_def Let_def be_val_def)
  moreover obtain x y where "ke_to_affine sample_env () = (x, y)" by fastforce
  ultimately show ?thesis
    using keys_read_back [of sample_env "()" "[1, 0]" "()" "[2, 0]" x y] sample_base64 by simp
qed

section \<open>The import ends\<close>

text \<open>What the code relies on: decoding base64 gives fewer bytes, a bit string with bits has a byte.\<close>

definition decode_laws :: "('p, 's) key_env \<Rightarrow> bool" where
  "decode_laws env \<longleftrightarrow>
     (\<forall>s r. ke_b64_decode env s = Some r \<longrightarrow> s \<noteq> [] \<longrightarrow> length r < length s) \<and>
     (\<forall>x. length (ke_sha1 env x) = 20) \<and>
     (\<forall>d n c bs. ke_from_der env d = Some [Asn1Sequence (Asn1BitString n c # bs)] \<longrightarrow> 0 < n \<longrightarrow> c \<noteq> [])"

lemma first_ok_result:
  assumes "Panic \<notin> set rs"
  shows "first_ok rs e = Err e \<or> (\<exists>k. first_ok rs e = Ok k)"
  using assms by (induction rs e rule: first_ok.induct) auto

lemma priv_from_short_not_Panic: "priv_from_short env data \<noteq> Panic"
  by (simp add: priv_from_short_def)

lemma sequence_of_eq: "sequence_of blocks = Ok bs \<longleftrightarrow> blocks = [Asn1Sequence bs]"
  by (cases blocks rule: list.exhaust; cases "hd blocks") (auto simp: sequence_of_def)

lemma first_bits_eq: "first_bits bs = Ok (n, c) \<longleftrightarrow> (\<exists>rest. bs = Asn1BitString n c # rest)"
  by (auto simp: first_bits_def split: list.splits asn1_block.splits)

lemma shape_not_Panic: "sequence_of blocks \<noteq> Panic" "first_bits blocks \<noteq> Panic"
  by (auto simp: sequence_of_def first_bits_def split: list.splits asn1_block.splits)

lemma priv_from_tomcrypt_not_Panic:
  assumes "decode_laws env"
  shows "priv_from_tomcrypt env data \<noteq> Panic"
proof
  assume "priv_from_tomcrypt env data = Panic"
  then obtain blocks bs n c where d: "ke_from_der env data = Some blocks" "sequence_of blocks = Ok bs"
      "first_bits bs = Ok (n, c)" and p: "n = 1 \<or> n = 2" "index c 0 = (Panic :: (key_error, u8) outcome)"
    by (cases "ke_from_der env data")
      (auto simp: priv_from_tomcrypt_def bind_out_eq_Panic_iff shape_not_Panic priv_from_short_not_Panic Let_def
        split: if_splits option.splits)
  then have "0 < n" "c = []" by (auto simp: index_def split: if_splits)
  with d assms show False unfolding decode_laws_def sequence_of_eq first_bits_eq by blast
qed

lemma priv_from_ts_obfuscated_not_Panic:
  assumes "decode_laws env"
  shows "priv_from_ts_obfuscated env data \<noteq> Panic"
proof (cases "ke_b64_decode env data")
  case (Some d)
  have sha: "length (ke_sha1 env x) = 20" for x using assms by (simp add: decode_laws_def)
  show ?thesis
  proof (cases "length d < 20")
    case False
    then obtain d1 where d1: "xor_first 20 (ke_sha1 env (hashed_part d)) d = Ok d1"
      using sha xor_first_Ok [of 20 d] by simp
    obtain d2 where d2: "xor_first (min (length d1) 100) IDENTITY_OBFUSCATION d1 = Ok d2"
      using xor_first_Ok [of "min (length d1) 100" d1 IDENTITY_OBFUSCATION] length_IDENTITY_OBFUSCATION by simp
    have "priv_from_ts env d2 \<noteq> Panic"
      using priv_from_tomcrypt_not_Panic [OF assms] by (simp add: priv_from_ts_def bind_out_eq_Panic_iff)
    then show ?thesis using Some False d1 d2 by (simp add: priv_from_ts_obfuscated_def)
  qed (simp add: Some priv_from_ts_obfuscated_def)
qed (simp add: priv_from_ts_obfuscated_def)

definition import_result :: "(key_error, 's) outcome \<Rightarrow> bool" where
  "import_result r \<longleftrightarrow> r = Err EmptyKeyData \<or> r = Err KeyDecodeError \<or> (\<exists>k. r = Ok k)"

lemma first_ok_import: "Panic \<notin> set rs \<Longrightarrow> import_result (first_ok rs KeyDecodeError)"
  using first_ok_result [of rs KeyDecodeError] by (auto simp: import_result_def)

lemma import_result_not_Panic: "import_result r \<Longrightarrow> r \<noteq> Panic"
  by (auto simp: import_result_def)

lemma import_rest_results:
  assumes "decode_laws env"
  shows "import_result (first_ok [priv_from_tomcrypt env data, priv_from_short env data] KeyDecodeError)"
    "r \<noteq> Panic \<Longrightarrow> import_result (first_ok [r, priv_from_ts_obfuscated env data] KeyDecodeError)"
    "import_result (first_ok [priv_from_ts_obfuscated env data] KeyDecodeError)"
    "r \<noteq> Panic \<Longrightarrow> import_result (first_ok [r, priv_from_tomcrypt env data, priv_from_short env data] KeyDecodeError)"
  using priv_from_tomcrypt_not_Panic [OF assms, of data] priv_from_short_not_Panic [of env data]
    priv_from_ts_obfuscated_not_Panic [OF assms, of data]
  by (auto intro!: first_ok_import)

text \<open>Two calls either end or continue with the decoded data.\<close>

lemma import_base:
  assumes "decode_laws env" "data = [] \<or> \<not> utf8_valid data \<or> ke_b64_decode env data = None"
  shows "\<exists>r. import_result r \<and> (\<forall>n > 2 * length data. import_key env n data = Some r)"
proof -
  let ?rest = "[priv_from_tomcrypt env data, priv_from_short env data]"
  let ?obf = "first_ok [priv_from_ts_obfuscated env data] KeyDecodeError"
  define r where "r = (if data = [] then Err EmptyKeyData
    else if utf8_valid data then first_ok (?obf # ?rest) KeyDecodeError else first_ok ?rest KeyDecodeError)"
  have "import_result r"
    unfolding r_def using import_rest_results(1) [OF assms(1)]
      import_rest_results(4) [OF assms(1) import_result_not_Panic [OF import_rest_results(3) [OF assms(1)]]]
    by (cases "data = []") (simp_all add: import_result_def)
  moreover have "import_key env n data = Some r" if "n > 2 * length data" for n
  proof (cases n)
    case (Suc m)
    show ?thesis using that assms(2) unfolding Suc r_def by (cases data; cases m) auto
  qed (use that in simp)
  ultimately show ?thesis by blast
qed

lemma import_total:
  assumes "decode_laws env"
  shows "\<exists>r. import_result r \<and> (\<forall>n > 2 * length data. import_key env n data = Some r)"
proof (induction "length data" arbitrary: data rule: less_induct)
  case less
  show ?case
  proof (cases "data = [] \<or> \<not> utf8_valid data \<or> ke_b64_decode env data = None")
    case False
    then obtain r where r: "data \<noteq> []" "utf8_valid data" "ke_b64_decode env data = Some r" by blast
    have l: "length r < length data" using assms r by (simp add: decode_laws_def)
    then obtain r0 where r0: "import_result r0" "\<And>n. n > 2 * length r \<Longrightarrow> import_key env n r = Some r0"
      using less by blast
    let ?r = "first_ok [first_ok [r0, priv_from_ts_obfuscated env data] KeyDecodeError,
      priv_from_tomcrypt env data, priv_from_short env data] KeyDecodeError"
    have "import_key env n data = Some ?r" if n: "n > 2 * length data" for n
    proof -
      obtain m where m: "n = Suc (Suc m)" using n r(1) by (cases n; cases "n - 1"; cases data) auto
      with l n have "m > 2 * length r" by simp
      then show ?thesis using r r0(2) m by simp
    qed
    moreover have "import_result ?r"
      using import_rest_results [OF assms] r0(1) import_result_not_Panic by blast
    ultimately show ?thesis by blast
  qed (rule import_base [OF assms])
qed

text \<open>
  C34: Importing a key always ends. \<open>import\<close> and \<open>import_str\<close> call each other on the decoded data; when
  decoding base64 gives fewer bytes, at most two calls per byte of the data are made, and the result is
  a key or one of the two errors of the import, whatever the data are.
\<close>

theorem import_returns:
  assumes "decode_laws env"
  shows "\<exists>r. (r = Err EmptyKeyData \<or> r = Err KeyDecodeError \<or> (\<exists>k. r = Ok k)) \<and>
    (\<forall>n > 2 * length data. import_key env n data = Some r)"
  using import_total [OF assms, of data] unfolding import_result_def .

text \<open>Data that base64 shortens by one byte.\<close>

theorem import_returns_witness:
  "\<exists>r. (r = Err EmptyKeyData \<or> r = Err KeyDecodeError \<or> (\<exists>k. r = Ok k)) \<and>
    (\<forall>n > 6. import_key (sample_env\<lparr>ke_b64_decode := \<lambda>s. Some (tl s)\<rparr>) n [65, 66, 67] = Some r)"
proof -
  have "decode_laws (sample_env\<lparr>ke_b64_decode := \<lambda>s. Some (tl s)\<rparr>)"
    by (auto simp: decode_laws_def sample_env_def Let_def split: if_splits)
  from import_returns [OF this, of "[65, 66, 67]"] show ?thesis by simp
qed

end
