(* ===== verification/Resolver.thy ===== *)
theory Resolver
  imports Client
begin

text \<open>
  Finding the address of a server (\<open>tsclientlib/src/resolver.rs\<close>): reading an address with or without
  a port, the answer of a TSDNS server, and the choice among the SRV records of a domain by priority
  and weight. The parsers of the standard library for socket addresses and the random numbers are
  parameters; the lookups themselves are done by other crates.
\<close>

section \<open>Addresses\<close>

datatype resolve_error =
    InvalidIp4Address
  | InvalidIp6Address
  | InvalidIpAddress
  | InvalidPort
  | NoSrvEntry
  | TsdnsAddressInvalidResponse bytes
  | TsdnsAddressNotFound
  | TsdnsParseResponse

datatype 'a parse_ip_result = Addr 'a | Other bytes "u16 option"

text \<open>
  The first result of \<open>to_socket_addrs\<close> for a text with a port, and for a host and a port.
\<close>

record 'a addr_env =
  ad_socket :: "bytes \<Rightarrow> 'a option"
  ad_host :: "bytes \<Rightarrow> u16 \<Rightarrow> 'a option"

definition DEFAULT_PORT :: u16 where "DEFAULT_PORT = 9987"

definition find_byte :: "u8 \<Rightarrow> bytes \<Rightarrow> nat option" where
  "find_byte c s = (if c \<in> set s then Some (length (takeWhile (\<lambda>b. b \<noteq> c) s)) else None)"

definition rfind_byte :: "u8 \<Rightarrow> bytes \<Rightarrow> nat option" where
  "rfind_byte c s = map_option (\<lambda>i. length s - 1 - i) (find_byte c (rev s))"

definition digit_or_dot :: "u8 \<Rightarrow> bool" where
  "digit_or_dot c \<longleftrightarrow> 48 \<le> c \<and> c \<le> 57 \<or> c = 46"

definition as_addr :: "resolve_error \<Rightarrow> 'a option \<Rightarrow> (resolve_error, 'a parse_ip_result) outcome" where
  "as_addr e a = bind_out (ok_or e a) (\<lambda>a. Ok (Addr a))"

definition parse_ip :: "'a addr_env \<Rightarrow> bytes \<Rightarrow> (resolve_error, 'a parse_ip_result) outcome" where
  "parse_ip env address =
     (case rfind_byte 58 address of
        Some pos \<Rightarrow>
          if find_byte 58 address = Some pos then
            let addr = take pos address; port = drop (pos + 1) address
            in if list_all digit_or_dot addr then as_addr InvalidIp4Address (ad_socket env address)
               else bind_out (ok_or InvalidPort (parse_u16 port)) (\<lambda>p. Ok (Other addr (Some p)))
          else
            (case rfind_byte 93 address of
               Some pos_bracket \<Rightarrow>
                 if pos_bracket < pos then as_addr InvalidIp6Address (ad_socket env address)
                 else if pos_bracket = length address - 1 \<and> take 1 address = [91] then
                   bind_out (slice address 1 pos_bracket) (\<lambda>host.
                     as_addr InvalidIp6Address (ad_host env host DEFAULT_PORT))
                 else Err InvalidIpAddress
             | None \<Rightarrow> as_addr InvalidIp6Address (ad_host env address DEFAULT_PORT))
      | None \<Rightarrow>
          if list_all digit_or_dot address
          then as_addr InvalidIp4Address (ad_host env address DEFAULT_PORT)
          else Ok (Other address None))"

text \<open>What \<open>resolve_tsdns\<close> makes of the answer.\<close>

definition tsdns_answer :: "'a addr_env \<Rightarrow> bytes \<Rightarrow> (resolve_error, 'a) outcome" where
  "tsdns_answer env data =
     (if \<not> utf8_valid data then Err TsdnsParseResponse
      else if take 3 data = bstr ''404'' then Err TsdnsAddressNotFound
      else bind_out (parse_ip env data) (\<lambda>r.
        case r of Addr a \<Rightarrow> Ok a | Other _ _ \<Rightarrow> Err (TsdnsAddressInvalidResponse data)))"

text \<open>
  Reading an address never fails at a slice, and a host with a port is split at the colon; the port
  must be a 16-bit number.
\<close>

lemma find_byte_append: "c \<notin> set s \<Longrightarrow> find_byte c (s @ c # t) = Some (length s)"
  by (simp add: find_byte_def takeWhile_append)

lemma rfind_byte_append:
  assumes "c \<notin> set t"
  shows "rfind_byte c (s @ c # t) = Some (length s)"
  using find_byte_append [of c "rev t" "rev s"] assms by (simp add: rfind_byte_def)

lemma parse_ip_not_Panic: "parse_ip env address \<noteq> Panic"
proof -
  have "slice address 1 b \<noteq> (Panic :: (resolve_error, bytes) outcome)"
    if "find_byte 58 address \<noteq> Some a" "rfind_byte 58 address = Some a" "b = length address - 1" "take 1 address = [91]" for a b
  proof -
    have "address \<noteq> []" using that(4) by auto
    moreover have "length address \<noteq> 1"
    proof
      assume "length address = 1"
      then have "address = [91]" using that(4) by (simp add: take_all)
      with that(2) show False by (simp add: rfind_byte_def find_byte_def)
    qed
    ultimately show ?thesis using that(3) by (cases address) (auto simp: slice_def Suc_le_eq)
  qed
  then show ?thesis
    by (auto simp: parse_ip_def as_addr_def Let_def bind_out_eq_Panic_iff split: option.split)
qed

lemma parse_ip_host_port:
  assumes "58 \<notin> set host" "58 \<notin> set port" "\<not> list_all digit_or_dot host"
  shows "parse_ip env (host @ 58 # port) =
    (case parse_u16 port of Some p \<Rightarrow> Ok (Other host (Some p)) | None \<Rightarrow> Err InvalidPort)"
  using assms by (simp add: parse_ip_def find_byte_append rfind_byte_append Let_def split: option.split)

section \<open>SRV records\<close>

record srv =
  srv_priority :: u16
  srv_weight :: u16
  srv_target :: bytes
  srv_port :: u16

text \<open>\<open>chunk_by\<close>: runs of records with the same priority.\<close>

fun chunk_by_priority :: "srv list \<Rightarrow> (u16 \<times> srv list) list" where
  "chunk_by_priority [] = []"
| "chunk_by_priority (e # es) =
     (case chunk_by_priority es of
        [] \<Rightarrow> [(srv_priority e, [e])]
      | (p, g) # gs \<Rightarrow>
          if p = srv_priority e then (p, e # g) # gs else (srv_priority e, [e]) # (p, g) # gs)"

text \<open>The \<open>for\<close> loop: the record in whose share of the weights the drawn number lies is taken out.\<close>

fun pick_entry :: "nat \<Rightarrow> srv list \<Rightarrow> srv option \<times> srv list" where
  "pick_entry w [] = (None, [])"
| "pick_entry w (e # es) =
     (if w \<le> unat (srv_weight e) then (Some e, es)
      else let (r, es) = pick_entry (w - unat (srv_weight e)) es in (r, e # es))"

definition pick_zero :: "nat \<Rightarrow> srv list \<Rightarrow> srv list \<times> srv list" where
  "pick_zero w entries =
     (case (w = 0, filter (\<lambda>e. srv_weight e = 0) entries) of
        (True, e # _) \<Rightarrow> ([e], remove1 e entries)
      | _ \<Rightarrow> ([], entries))"

definition total_weight :: "srv list \<Rightarrow> nat" where
  "total_weight entries = (\<Sum>e\<leftarrow>entries. unat (srv_weight e))"

text \<open>
  The \<open>while\<close> loop: \<open>gen i w\<close> is the \<open>i\<close>th random number, which is asked for in the range \<open>0..=w\<close>.
\<close>

partial_function (option) select_loop ::
  "(nat \<Rightarrow> nat \<Rightarrow> nat) \<Rightarrow> nat \<Rightarrow> srv list \<Rightarrow> srv list \<Rightarrow> (nat \<times> srv list) option" where
  "select_loop gen i entries sorted_entries =
     (if entries = [] then Some (i, sorted_entries)
      else
        let w = gen i (total_weight entries);
            (zero, entries) = pick_zero w entries;
            (picked, entries) = pick_entry w entries
        in select_loop gen (Suc i) entries
             (sorted_entries @ zero @ (case picked of Some e \<Rightarrow> [e] | None \<Rightarrow> [])))"

fun select_groups ::
  "(nat \<Rightarrow> nat \<Rightarrow> nat) \<Rightarrow> nat \<Rightarrow> (u16 \<times> srv list) list \<Rightarrow> srv list \<Rightarrow> srv list option" where
  "select_groups gen i [] sorted_entries = Some sorted_entries"
| "select_groups gen i ((_, es) # gs) sorted_entries =
     (case select_loop gen i (filter (\<lambda>e. srv_weight e \<noteq> 0) es) sorted_entries of
        None \<Rightarrow> None
      | Some (i, sorted_entries) \<Rightarrow> select_groups gen i gs sorted_entries)"

text \<open>The records in the order in which \<open>resolve_srv\<close> tries them.\<close>

definition select_srv :: "(nat \<Rightarrow> nat \<Rightarrow> nat) \<Rightarrow> srv list \<Rightarrow> (resolve_error, srv list) outcome option" where
  "select_srv gen lookup =
     (if lookup = [] then Some (Err NoSrvEntry)
      else map_option Ok (select_groups gen 0 (sort_key fst (chunk_by_priority lookup)) []))"

section \<open>The order of the records\<close>

lemma chunk_by_priority_concat: "concat (map snd (chunk_by_priority es)) = es"
  by (induction es rule: chunk_by_priority.induct) (auto split: list.split prod.split)

lemma chunk_by_priority_same:
  "(p, g) \<in> set (chunk_by_priority es) \<Longrightarrow> e \<in> set g \<Longrightarrow> srv_priority e = p"
proof (induction es arbitrary: p g e)
  case (Cons x xs)
  show ?case
  proof (cases "chunk_by_priority xs")
    case Nil
    then show ?thesis using Cons.prems by auto
  next
    case (Cons c cs)
    obtain q h where c: "c = (q, h)" by (cases c)
    have old: "srv_priority e' = p'" if "(p', g') \<in> set ((q, h) # cs)" "e' \<in> set g'" for p' g' e'
      using Cons.IH [of p' g' e'] that Cons c by simp
    then show ?thesis
      using Cons.prems Cons c old [of q h] by (auto split: if_splits)
  qed
qed simp

lemma pick_entry_takes:
  assumes "w \<le> total_weight es" "es \<noteq> []"
  shows "\<exists>e rest. pick_entry w es = (Some e, rest) \<and> mset es = add_mset e (mset rest)"
  using assms
proof (induction w es rule: pick_entry.induct)
  case (2 w e es)
  show ?case
  proof (cases "w \<le> unat (srv_weight e)")
    case False
    then have "w - unat (srv_weight e) \<le> total_weight es" "es \<noteq> []"
      using 2(2) by (auto simp: total_weight_def)
    then obtain e' rest where r: "pick_entry (w - unat (srv_weight e)) es = (Some e', rest)"
        "mset es = add_mset e' (mset rest)"
      using 2(1) [OF False] by blast
    then show ?thesis using False by simp
  qed simp
qed simp

lemma pick_zero_none: "\<forall>e\<in>set es. srv_weight e \<noteq> 0 \<Longrightarrow> pick_zero w es = ([], es)"
  by (simp add: pick_zero_def filter_False split: bool.split)

lemma select_loop_returns:
  assumes "\<And>i w. gen i w \<le> w" "\<forall>e\<in>set es. srv_weight e \<noteq> 0"
  shows "\<exists>j out. select_loop gen i es acc = Some (j, acc @ out) \<and> mset out = mset es"
  using assms(2)
proof (induction "length es" arbitrary: es i acc)
  case 0
  then show ?case by (simp add: select_loop.simps)
next
  case (Suc n)
  then have ne: "es \<noteq> []" by auto
  obtain e rest where p: "pick_entry (gen i (total_weight es)) es = (Some e, rest)"
      "mset es = add_mset e (mset rest)"
    using pick_entry_takes [OF assms(1) ne] by blast
  have "n = length rest" using p(2) Suc.hyps(2) by (metis Suc_inject size_add_mset size_mset)
  moreover have "\<forall>x\<in>set rest. srv_weight x \<noteq> 0"
    using Suc.prems p(2) by (metis insert_iff set_mset_add_mset_insert set_mset_mset)
  ultimately obtain j out where o: "select_loop gen (Suc i) rest (acc @ [e]) = Some (j, (acc @ [e]) @ out)"
      "mset out = mset rest"
    using Suc.hyps(1) [of rest "Suc i" "acc @ [e]"] by blast
  have "select_loop gen i es acc = select_loop gen (Suc i) rest (acc @ [e])"
    using ne p(1) pick_zero_none [OF Suc.prems] by (subst select_loop.simps) simp
  then show ?case using o p(2) by (intro exI [of _ j] exI [of _ "e # out"]) simp
qed

lemma select_groups_returns:
  assumes "\<And>i w. gen i w \<le> w" "sorted (map fst gs)"
    and "\<And>p g e. (p, g) \<in> set gs \<Longrightarrow> e \<in> set g \<Longrightarrow> srv_priority e = p"
  shows "\<exists>out. select_groups gen i gs acc = Some (acc @ out) \<and>
    mset out = mset (filter (\<lambda>e. srv_weight e \<noteq> 0) (concat (map snd gs))) \<and> sorted (map srv_priority out)"
  using assms(2,3)
proof (induction gs arbitrary: i acc)
  case (Cons pg gs)
  obtain p g where pg: "pg = (p, g)" by (cases pg)
  obtain j out1 where o1: "select_loop gen i (filter (\<lambda>e. srv_weight e \<noteq> 0) g) acc = Some (j, acc @ out1)"
      "mset out1 = mset (filter (\<lambda>e. srv_weight e \<noteq> 0) g)"
    using select_loop_returns [of gen "filter (\<lambda>e. srv_weight e \<noteq> 0) g" i acc] assms(1) by auto
  obtain out2 where o2: "select_groups gen j gs (acc @ out1) = Some ((acc @ out1) @ out2)"
      "mset out2 = mset (filter (\<lambda>e. srv_weight e \<noteq> 0) (concat (map snd gs)))" "sorted (map srv_priority out2)"
    using Cons.IH [of j "acc @ out1"] Cons.prems by auto
  have p1: "srv_priority e = p" if "e \<in> set out1" for e
    using that o1(2) Cons.prems(2) pg by (metis filter_is_subset list.set_intros(1) mset_eq_setD subsetD)
  have "p \<le> srv_priority e" if e: "e \<in> set out2" for e
  proof -
    have "set out2 \<subseteq> set (concat (map snd gs))" using o2(2) by (metis filter_is_subset mset_eq_setD)
    then obtain q h where qh: "(q, h) \<in> set gs" "e \<in> set h" using e by auto
    then have "srv_priority e = q" using Cons.prems(2) [of q h e] by simp
    then show ?thesis using Cons.prems(1) qh(1) pg by force
  qed
  moreover have "sorted (map srv_priority out1)" using p1 by (simp add: sorted_iff_nth_mono)
  ultimately have "sorted (map srv_priority (out1 @ out2))"
    using o2(3) p1 by (simp add: sorted_append)
  moreover have "select_groups gen i (pg # gs) acc = Some (acc @ (out1 @ out2))"
    using o1(1) o2(1) by (simp add: pg)
  ultimately show ?case using o1(2) o2(2) by (intro exI [of _ "out1 @ out2"]) (simp add: pg)
qed simp

lemma mset_concat_groups: "mset (concat (map snd gs)) = \<Sum>\<^sub># (image_mset (mset \<circ> snd) (mset gs))"
  by (induction gs) simp_all

text \<open>
  C32: The choice among SRV records ends with every record of a nonzero weight exactly once, ordered by
  priority, whatever the random numbers in their range are. Records of weight 0 are never tried: when
  all records have weight 0, as is usual for a single server, none is.
\<close>

theorem srv_selection:
  assumes "\<And>i w. gen i w \<le> w" "lookup \<noteq> []"
  shows "\<exists>out. select_srv gen lookup = Some (Ok out) \<and>
    mset out = mset (filter (\<lambda>e. srv_weight e \<noteq> 0) lookup) \<and> sorted (map srv_priority out) \<and>
    ((\<forall>e\<in>set lookup. srv_weight e = 0) \<longrightarrow> out = [])"
proof -
  let ?gs = "sort_key fst (chunk_by_priority lookup)"
  obtain out where o: "select_groups gen 0 ?gs [] = Some ([] @ out)"
      "mset out = mset (filter (\<lambda>e. srv_weight e \<noteq> 0) (concat (map snd ?gs)))" "sorted (map srv_priority out)"
    using select_groups_returns [of gen ?gs 0 "[]"] assms(1) chunk_by_priority_same by auto
  have "mset (concat (map snd ?gs)) = mset (concat (map snd (chunk_by_priority lookup)))"
    by (simp only: mset_concat_groups mset_sort)
  then have "mset out = mset (filter (\<lambda>e. srv_weight e \<noteq> 0) lookup)"
    by (simp add: o(2) chunk_by_priority_concat mset_filter)
  moreover from this have "out = []" if "\<forall>e\<in>set lookup. srv_weight e = 0"
    using that by (simp add: filter_empty_conv flip: mset_filter)
  ultimately show ?thesis using o(1,3) assms(2) by (simp add: select_srv_def)
qed

text \<open>Two records of one priority and one that comes before them.\<close>

theorem srv_selection_witness:
  "\<exists>out. select_srv (\<lambda>i w. w div 2) [\<lparr>srv_priority = 10, srv_weight = 1, srv_target = [97], srv_port = 1\<rparr>,
      \<lparr>srv_priority = 10, srv_weight = 0, srv_target = [98], srv_port = 2\<rparr>,
      \<lparr>srv_priority = 5, srv_weight = 3, srv_target = [99], srv_port = 3\<rparr>] = Some (Ok out) \<and>
    sorted (map srv_priority out) \<and> length out = 2"
proof -
  let ?l = "[\<lparr>srv_priority = 10, srv_weight = 1, srv_target = [97], srv_port = 1\<rparr>,
      \<lparr>srv_priority = 10, srv_weight = 0, srv_target = [98], srv_port = 2\<rparr>,
      \<lparr>srv_priority = 5, srv_weight = 3, srv_target = [99], srv_port = 3\<rparr>] :: srv list"
  obtain out where o: "select_srv (\<lambda>i w. w div 2) ?l = Some (Ok out)"
      "mset out = mset (filter (\<lambda>e. srv_weight e \<noteq> 0) ?l)" "sorted (map srv_priority out)"
    using srv_selection [of "\<lambda>i w. w div 2" ?l] by auto
  have "length out = size (mset out)" by simp
  also have "\<dots> = 2" unfolding o(2) by simp
  finally have "length out = 2" .
  with o show ?thesis by blast
qed

end
